(* ===== verification/Prelude.thy ===== *)
theory Prelude
  imports Main "HOL-Library.Word"
begin

unbundle bit_operations_syntax

text \<open>
  Shared vocabulary of the development.

  \<^item> the C integer types as fixed-width words;
  \<^item> the ways a C function of the daemon can end other than by returning a value: a negated errno
    (\<open>Errno\<close>), a failed \<open>assert\<close> (\<open>Abort\<close>), an access outside an object (\<open>OutOfBounds\<close>), an access
    to a freed object (\<open>UseAfterFree\<close>) and a loop that never ends (\<open>Diverges\<close>);
  \<^item> byte buffers with checked writes, and the big-endian accessors of \<open>basic/unaligned.h\<close>.

  A value of a network-byte-order type (\<open>be16_t\<close>, \<open>be32_t\<close>, \<open>struct in_addr\<close>) is represented by the
  number its bytes in memory denote when read big-endian, so \<open>be32toh\<close> and \<open>htobe32\<close> are the identity
  on the representation and \<open>memcpy\<close> from a byte array is a big-endian read.  Only the Internet
  checksum looks at memory in host order; there the host is little-endian (x86-64, arm64).
\<close>

section \<open>Integers and results\<close>

type_synonym u8 = "8 word"
type_synonym u16 = "16 word"
type_synonym u32 = "32 word"
type_synonym u64 = "64 word"
type_synonym be16 = "16 word"
type_synonym be32 = "32 word"

datatype errno = EINVAL | ENOBUFS | ENOMEM | ENOMSG | ENODATA | EADDRNOTAVAIL | EBUSY | ERANGE
  | EEXIST | EAFNOSUPPORT | EAGAIN | EINTR | ESys nat

text \<open>\<open>ESys n\<close> is any other errno value that a system call or a library call hands through.\<close>

datatype fault = Errno errno | Abort | OutOfBounds | UseAfterFree | Diverges

type_synonym 'a res = "fault + 'a"

fun rbind :: "'e + 'a \<Rightarrow> ('a \<Rightarrow> 'e + 'b) \<Rightarrow> 'e + 'b" where
  "rbind (Inl e) f = Inl e"
| "rbind (Inr x) f = f x"

lemma rbind_Inr_iff: "rbind m f = Inr y \<longleftrightarrow> (\<exists>x. m = Inr x \<and> f x = Inr y)"
  by (cases m) auto

lemma rbind_Inl_iff: "rbind m f = Inl e \<longleftrightarrow> m = Inl e \<or> (\<exists>x. m = Inr x \<and> f x = Inl e)"
  by (cases m) auto

lemma rbind_cong [fundef_cong]:
  "m = m' \<Longrightarrow> (\<And>x. m' = Inr x \<Longrightarrow> f x = g x) \<Longrightarrow> rbind m f = rbind m' g"
  by (cases m') auto

text \<open>
  An allocation of \<open>n\<close> bytes succeeds or not; every function that allocates takes the answer as a
  parameter, so its \<open>-ENOMEM\<close> branch is part of the model.
\<close>

type_synonym alloc = "nat \<Rightarrow> bool"

section \<open>Byte buffers\<close>

definition buf_write :: "u8 list \<Rightarrow> nat \<Rightarrow> u8 list \<Rightarrow> u8 list res" where
  "buf_write buf off bs =
     (if off + length bs \<le> length buf then Inr (take off buf @ bs @ drop (off + length bs) buf)
      else Inl OutOfBounds)"

lemma buf_write_length: "buf_write buf off bs = Inr buf' \<Longrightarrow> length buf' = length buf"
  by (auto simp: buf_write_def split: if_splits)

lemma buf_write_ok: "off + length bs \<le> length buf \<Longrightarrow> \<exists>buf'. buf_write buf off bs = Inr buf'"
  by (simp add: buf_write_def)

lemma buf_write_take: "buf_write buf off bs = Inr buf' \<Longrightarrow> take off buf' = take off buf"
  by (auto simp: buf_write_def min_def split: if_splits)

lemma buf_write_prefix:
  "buf_write buf off bs = Inr buf' \<Longrightarrow> take (off + length bs) buf' = take off buf @ bs"
  by (auto simp: buf_write_def split: if_splits)

lemma drop_ConsD:
  assumes "drop n xs = y # ys"
  shows "n < length xs" and "xs ! n = y" and "drop (Suc n) xs = ys"
proof -
  show n: "n < length xs"
    using assms by (metis drop_all list.distinct(1) not_le)
  then have "drop n xs = xs ! n # drop (Suc n) xs"
    by (simp add: Cons_nth_drop_Suc)
  with assms show "xs ! n = y" and "drop (Suc n) xs = ys" by simp_all
qed

lemma unat_u8_less: "unat (b :: u8) < 256"
  using unsigned_less [of b] by simp

section \<open>Big-endian accessors\<close>

definition unaligned_read_be16 :: "u8 \<Rightarrow> u8 \<Rightarrow> u16" where
  "unaligned_read_be16 u0 u1 = push_bit 8 (ucast u0) OR ucast u1"

definition unaligned_read_be32 :: "u8 \<Rightarrow> u8 \<Rightarrow> u8 \<Rightarrow> u8 \<Rightarrow> u32" where
  "unaligned_read_be32 u0 u1 u2 u3 =
     push_bit 16 (ucast (unaligned_read_be16 u0 u1)) OR ucast (unaligned_read_be16 u2 u3)"

definition unaligned_write_be16 :: "u16 \<Rightarrow> u8 list" where
  "unaligned_write_be16 a = [ucast (drop_bit 8 a), ucast a]"

definition unaligned_write_be32 :: "u32 \<Rightarrow> u8 list" where
  "unaligned_write_be32 a =
     unaligned_write_be16 (ucast (drop_bit 16 a)) @ unaligned_write_be16 (ucast a)"

lemma length_write_be16 [simp]: "length (unaligned_write_be16 a) = 2"
  by (simp add: unaligned_write_be16_def)

lemma length_write_be32 [simp]: "length (unaligned_write_be32 a) = 4"
  by (simp add: unaligned_write_be32_def)

text \<open>Reading a four-byte big-endian object out of a byte array, as \<open>memcpy\<close> does.\<close>

fun be32_of_bytes :: "u8 list \<Rightarrow> be32" where
  "be32_of_bytes (a # b # c # d # _) = unaligned_read_be32 a b c d"
| "be32_of_bytes _ = 0"

fun be16_of_bytes :: "u8 list \<Rightarrow> be16" where
  "be16_of_bytes (a # b # _) = unaligned_read_be16 a b"
| "be16_of_bytes _ = 0"

lemma read_write_be16 [simp]:
  "unaligned_read_be16 (ucast (drop_bit 8 a)) (ucast a) = a"
  unfolding unaligned_read_be16_def
  by (rule bit_word_eqI)
    (auto simp: bit_or_iff bit_push_bit_iff bit_ucast_iff bit_drop_bit_eq le_diff_conv)

lemma read_write_be32 [simp]:
  "unaligned_read_be32 (ucast (drop_bit 8 (ucast (drop_bit 16 a) :: u16)))
     (ucast (ucast (drop_bit 16 a) :: u16)) (ucast (drop_bit 8 (ucast a :: u16)))
     (ucast (ucast a :: u16)) = a"
  unfolding unaligned_read_be32_def read_write_be16
  by (rule bit_word_eqI)
    (auto simp: bit_or_iff bit_push_bit_iff bit_ucast_iff bit_drop_bit_eq)

lemma be16_of_write [simp]: "be16_of_bytes (unaligned_write_be16 a @ bs) = a"
  by (simp add: unaligned_write_be16_def)

lemma be32_of_write [simp]: "be32_of_bytes (unaligned_write_be32 a @ bs) = a"
  by (simp add: unaligned_write_be32_def unaligned_write_be16_def)

lemma bit_byte_high [simp]: "\<not> bit (b :: u8) (8 + n)"
  using bit_imp_le_length [of b "8 + n"] by auto

lemma bit_half_high [simp]: "\<not> bit (b :: u16) (16 + n)"
  using bit_imp_le_length [of b "16 + n"] by auto

lemma write_be16_read [simp]: "unaligned_write_be16 (unaligned_read_be16 a b) = [a, b]"
  unfolding unaligned_write_be16_def unaligned_read_be16_def
  by (auto intro!: bit_word_eqI
      simp: bit_or_iff bit_push_bit_iff bit_ucast_iff bit_drop_bit_eq)

lemma write_be32_read [simp]: "unaligned_write_be32 (unaligned_read_be32 a b c d) = [a, b, c, d]"
proof -
  have hi: "ucast (drop_bit 16 (unaligned_read_be32 a b c d)) = unaligned_read_be16 a b"
    unfolding unaligned_read_be32_def
    by (auto intro!: bit_word_eqI
        simp: bit_or_iff bit_push_bit_iff bit_ucast_iff bit_drop_bit_eq)
  have lo: "ucast (unaligned_read_be32 a b c d) = unaligned_read_be16 c d"
    unfolding unaligned_read_be32_def
    by (auto intro!: bit_word_eqI
        simp: bit_or_iff bit_push_bit_iff bit_ucast_iff bit_drop_bit_eq)
  show ?thesis
    by (simp add: unaligned_write_be32_def hi lo)
qed

text \<open>
  A computation whose faults satisfy \<open>P\<close>; the usual case is one that fails only with an errno.
\<close>

definition faults_in :: "(fault \<Rightarrow> bool) \<Rightarrow> 'a res \<Rightarrow> bool" where
  "faults_in P m \<longleftrightarrow> (\<forall>f. m = Inl f \<longrightarrow> P f)"

definition is_errno :: "fault \<Rightarrow> bool" where
  "is_errno f \<longleftrightarrow> (\<exists>e. f = Errno e)"

abbreviation errno_only :: "'a res \<Rightarrow> bool" where
  "errno_only \<equiv> faults_in is_errno"

lemma is_errno_Errno [simp]: "is_errno (Errno e)"
  by (simp add: is_errno_def)

lemma faults_in_Inr [simp, intro]: "faults_in P (Inr x)"
  by (simp add: faults_in_def)

lemma faults_in_Inl [simp]: "faults_in P (Inl f) \<longleftrightarrow> P f"
  by (simp add: faults_in_def)

lemma faults_in_rbind:
  "faults_in P m \<Longrightarrow> (\<And>x. m = Inr x \<Longrightarrow> faults_in P (f x)) \<Longrightarrow> faults_in P (rbind m f)"
  by (cases m) auto

lemma faults_in_if:
  "(c \<Longrightarrow> faults_in P a) \<Longrightarrow> (\<not> c \<Longrightarrow> faults_in P b) \<Longrightarrow> faults_in P (if c then a else b)"
  by simp

end
