(* ===== verification/String_Util.thy ===== *)
theory String_Util
  imports Prelude
begin

text \<open>
  C strings and the small text helpers of \<open>basic/\<close> (\<open>string-util.c\<close>, \<open>hexdecoct.c\<close>, \<open>parse-util.c\<close>,
  \<open>alloc-util.c\<close>).  A C string is the list of its bytes without the terminating NUL, so a string
  never contains the byte 0 (\<open>cstring\<close>) and reading the terminator is reaching the end of the list.
\<close>

section \<open>Strings and characters\<close>

type_synonym cstr = "u8 list"

definition cstring :: "cstr \<Rightarrow> bool" where
  "cstring s \<longleftrightarrow> 0 \<notin> set s"

text \<open>A string literal of the source.\<close>

definition lit :: "string \<Rightarrow> cstr" where
  "lit s = map of_char s"

definition between :: "u8 \<Rightarrow> u8 \<Rightarrow> u8 \<Rightarrow> bool" where
  "between lo hi c \<longleftrightarrow> lo \<le> c \<and> c \<le> hi"

abbreviation (input) is_digit :: "u8 \<Rightarrow> bool" where "is_digit \<equiv> between 48 57"
abbreviation (input) is_lower :: "u8 \<Rightarrow> bool" where "is_lower \<equiv> between 97 122"
abbreviation (input) is_upper :: "u8 \<Rightarrow> bool" where "is_upper \<equiv> between 65 90"

definition ascii_tolower :: "u8 \<Rightarrow> u8" where
  "ascii_tolower x = (if is_upper x then x - 65 + 97 else x)"

definition ascii_strlower_n :: "cstr \<Rightarrow> cstr" where
  "ascii_strlower_n t = map ascii_tolower t"

fun ascii_strcasecmp_n :: "cstr \<Rightarrow> cstr \<Rightarrow> nat \<Rightarrow> int res" where
  "ascii_strcasecmp_n a b 0 = Inr 0"
| "ascii_strcasecmp_n (x # a) (y # b) (Suc n) =
     (let x' = uint (ascii_tolower x); y' = uint (ascii_tolower y)
      in if x' \<noteq> y' then Inr (x' - y') else ascii_strcasecmp_n a b n)"
| "ascii_strcasecmp_n _ _ (Suc n) = Inl OutOfBounds"

definition ascii_strcasecmp_nn :: "cstr \<Rightarrow> nat \<Rightarrow> cstr \<Rightarrow> nat \<Rightarrow> int res" where
  "ascii_strcasecmp_nn a n b m =
     rbind (ascii_strcasecmp_n a b (min n m)) (\<lambda>r.
       Inr (if r \<noteq> 0 then r else if n < m then -1 else if m < n then 1 else 0))"

text \<open>\<open>strcasecmp\<close> of libc in the C locale, as an equality test, and \<open>endswith_no_case\<close>.\<close>

definition strcaseeq :: "cstr \<Rightarrow> cstr \<Rightarrow> bool" where
  "strcaseeq a b \<longleftrightarrow> map ascii_tolower a = map ascii_tolower b"

definition endswith_no_case :: "cstr \<Rightarrow> cstr \<Rightarrow> bool" where
  "endswith_no_case s postfix \<longleftrightarrow>
     length postfix \<le> length s \<and> strcaseeq (drop (length s - length postfix) s) postfix"

definition is_localhost :: "cstr \<Rightarrow> bool" where
  "is_localhost hostname \<longleftrightarrow>
     strcaseeq hostname (lit ''localhost'') \<or> strcaseeq hostname (lit ''localhost.'')
     \<or> strcaseeq hostname (lit ''localdomain.'') \<or> strcaseeq hostname (lit ''localdomain'')
     \<or> endswith_no_case hostname (lit ''.localhost'') \<or> endswith_no_case hostname (lit ''.localhost.'')
     \<or> endswith_no_case hostname (lit ''.localdomain'') \<or> endswith_no_case hostname (lit ''.localdomain.'')"

text \<open>
  \<open>zoneinfo\<close> says whether a name is a regular file below \<open>/usr/share/zoneinfo\<close>; \<open>slash\<close> is whether the
  previous character was a slash.
\<close>

fun timezone_chars :: "cstr \<Rightarrow> bool \<Rightarrow> bool" where
  "timezone_chars [] slash \<longleftrightarrow> \<not> slash"
| "timezone_chars (p # s) slash \<longleftrightarrow>
     (is_digit p \<or> is_lower p \<or> is_upper p \<or> p = 45 \<or> p = 95 \<or> p = 43 \<or> p = 47)
     \<and> (if p = 47 then \<not> slash \<and> timezone_chars s True else timezone_chars s False)"

definition timezone_is_valid :: "(cstr \<Rightarrow> bool) \<Rightarrow> cstr option \<Rightarrow> bool" where
  "timezone_is_valid zoneinfo name =
     (case name of
        None \<Rightarrow> False
      | Some name \<Rightarrow> name \<noteq> [] \<and> hd name \<noteq> 47 \<and> timezone_chars name False \<and> zoneinfo name)"

section \<open>Hexadecimal\<close>

definition hexchar :: "u8 \<Rightarrow> u8" where
  "hexchar x = lit ''0123456789abcdef'' ! unat (x AND 15)"

definition unhexchar :: "u8 \<Rightarrow> u8 res" where
  "unhexchar c =
     (if is_digit c then Inr (c - 48)
      else if between 97 102 c then Inr (c - 97 + 10)
      else if between 65 70 c then Inr (c - 65 + 10)
      else Inl (Errno EINVAL))"

definition hexmem :: "alloc \<Rightarrow> u8 list \<Rightarrow> cstr option" where
  "hexmem alloc p =
     (if alloc (length p * 2 + 1)
      then Some (concat (map (\<lambda>x. [hexchar (drop_bit 4 x), hexchar (x AND 15)]) p)) else None)"

fun unhex_loop :: "cstr \<Rightarrow> u8 list res" where
  "unhex_loop [] = Inr []"
| "unhex_loop [x] = rbind (unhexchar x) (\<lambda>a. Inr [push_bit 4 a])"
| "unhex_loop (x # y # p) =
     rbind (unhexchar x) (\<lambda>a. rbind (unhexchar y) (\<lambda>b.
       rbind (unhex_loop p) (\<lambda>z. Inr ((push_bit 4 a OR b) # z))))"

definition unhexmem :: "alloc \<Rightarrow> cstr \<Rightarrow> u8 list res" where
  "unhexmem alloc p = (if alloc ((length p + 1) div 2 + 1) then unhex_loop p else Inl (Errno ENOMEM))"

section \<open>Numbers\<close>

text \<open>
  \<open>strtoul\<close> of libc with base 0: white space, a sign, a \<open>0x\<close> prefix that counts only before a
  hexadecimal digit, a leading \<open>0\<close> for octal.  \<open>None\<close> is no conversion; otherwise the result is the
  value, whether it overflowed (errno is \<open>ERANGE\<close>) and the rest of the string.
\<close>

definition isspace :: "u8 \<Rightarrow> bool" where
  "isspace c \<longleftrightarrow> c = 32 \<or> between 9 13 c"

definition digit_value :: "u8 \<Rightarrow> nat" where
  "digit_value c =
     (if is_digit c then unat c - 48 else if is_lower c then unat c - 87
      else if is_upper c then unat c - 55 else 99)"

definition digits_value :: "nat \<Rightarrow> cstr \<Rightarrow> nat" where
  "digits_value base ds = foldl (\<lambda>v c. v * base + digit_value c) 0 ds"

fun strtoul_base :: "cstr \<Rightarrow> nat \<times> cstr" where
  "strtoul_base (z # x # h # t) =
     (if z = 48 \<and> (x = 120 \<or> x = 88) \<and> digit_value h < 16 then (16, h # t)
      else (if z = 48 then 8 else 10, z # x # h # t))"
| "strtoul_base (z # t) = (if z = 48 then 8 else 10, z # t)"
| "strtoul_base [] = (10, [])"

definition strtoul0 :: "cstr \<Rightarrow> (u64 \<times> bool \<times> cstr) option" where
  "strtoul0 s =
     (let t = dropWhile isspace s;
          neg = (t \<noteq> [] \<and> hd t = 45);
          t = (if t \<noteq> [] \<and> (hd t = 45 \<or> hd t = 43) then tl t else t);
          (base, t) = strtoul_base t;
          ds = takeWhile (\<lambda>c. digit_value c < base) t;
          v = digits_value base ds
      in if ds = [] then None
         else Some (if v < 2 ^ 64 then (if neg then - of_nat v else of_nat v) else -1,
                    2 ^ 64 \<le> v, dropWhile (\<lambda>c. digit_value c < base) t))"

definition is_whitespace :: "u8 \<Rightarrow> bool" where
  "is_whitespace c \<longleftrightarrow> c = 32 \<or> c = 9 \<or> c = 10 \<or> c = 13"

definition atou_below :: "nat \<Rightarrow> cstr \<Rightarrow> nat res" where
  "atou_below bound s =
     (let s = dropWhile is_whitespace s
      in case strtoul0 s of
        None \<Rightarrow> Inl (Errno EINVAL)
      | Some (l, overflow, x) \<Rightarrow>
          if overflow then Inl (Errno ERANGE)
          else if x \<noteq> [] then Inl (Errno EINVAL)
          else if s \<noteq> [] \<and> hd s = 45 then Inl (Errno ERANGE)
          else if bound \<le> unat l then Inl (Errno ERANGE)
          else Inr (unat l))"

definition safe_atou :: "cstr \<Rightarrow> u32 res" where
  "safe_atou s = rbind (atou_below (2 ^ 32) s) (\<lambda>l. Inr (of_nat l))"

definition safe_atou8 :: "cstr \<Rightarrow> u8 res" where
  "safe_atou8 s = rbind (atou_below (2 ^ 8) s) (\<lambda>l. Inr (of_nat l))"

definition safe_atou16 :: "cstr \<Rightarrow> u16 res" where
  "safe_atou16 s = rbind (atou_below (2 ^ 16) s) (\<lambda>l. Inr (of_nat l))"

definition safe_atou32 :: "cstr \<Rightarrow> u32 res" where
  "safe_atou32 s = safe_atou s"

text \<open>The conversion \<open>%u\<close> of \<open>printf\<close>.\<close>

fun dec :: "nat \<Rightarrow> cstr" where
  "dec n = (if n < 10 then [48 + of_nat n] else dec (n div 10) @ [48 + of_nat (n mod 10)])"

declare dec.simps [simp del]

section \<open>Growing arrays\<close>

text \<open>
  \<open>greedy_realloc\<close> of \<open>alloc-util.c\<close>: the new number of allocated elements, or \<open>None\<close> when the size
  overflows or the allocation fails.  Sizes are \<open>size_t\<close>; an array with no allocated element is NULL,
  which the callers take for a failure when nothing is needed.
\<close>

definition greedy_realloc :: "alloc \<Rightarrow> u64 \<Rightarrow> u64 \<Rightarrow> u64 \<Rightarrow> u64 option" where
  "greedy_realloc alloc allocated need sz =
     (if need \<le> allocated then (if allocated = 0 then None else Some allocated)
      else
        (let newalloc = max (need * 2) (64 div sz); a = newalloc * sz
         in if a < sz * need then None
            else if \<not> alloc (unat a) then None
            else Some newalloc))"

section \<open>Lemmas\<close>

lemma strcasecmp_n_eq_0:
  "n \<le> length a \<Longrightarrow> n \<le> length b \<Longrightarrow>
   \<exists>r. ascii_strcasecmp_n a b n = Inr r
     \<and> (r = 0 \<longleftrightarrow> ascii_strlower_n (take n a) = ascii_strlower_n (take n b))"
proof (induction a b n rule: ascii_strcasecmp_n.induct)
  case (2 x a y b n)
  have eq: "uint (ascii_tolower x) = uint (ascii_tolower y) \<longleftrightarrow> ascii_tolower x = ascii_tolower y"
    by (rule word_uint_eq_iff [symmetric])
  show ?case
    using 2 by (cases "ascii_tolower x = ascii_tolower y") (auto simp: Let_def ascii_strlower_n_def eq)
qed (auto simp: ascii_strlower_n_def)

lemma length_strlower [simp]: "length (ascii_strlower_n s) = length s"
  by (simp add: ascii_strlower_n_def)

lemma hexchar_nibble: "n < 16 \<Longrightarrow> unhexchar (hexchar (of_nat n)) = Inr (of_nat n)"
proof -
  assume "n < 16"
  then have "n \<in> {0,1,2,3,4,5,6,7,8,9,10,11,12,13,14,15}" by simp presburger
  then show ?thesis
    by (elim insertE emptyE) (simp_all add: hexchar_def lit_def unhexchar_def between_def)
qed

lemma hexchar_low: "hexchar x = hexchar (x AND 15)"
  by (simp add: hexchar_def and.assoc)

lemma unhex_hexchar: "unhexchar (hexchar x) = Inr (x AND 15)"
proof -
  have "x AND 15 \<le> 15" by (rule word_and_le1)
  then have lt: "unat (x AND 15) < 16" by (simp add: word_le_nat_alt)
  have "x AND 15 = of_nat (unat (x AND 15))" by simp
  then show ?thesis using hexchar_nibble [OF lt] hexchar_low [of x] by metis
qed

lemma nibbles: "push_bit 4 (drop_bit 4 x AND 15) OR (x AND 15 AND 15) = (x :: u8)"
proof -
  have m: "(15 :: u8) = mask 4" by (simp add: mask_eq_exp_minus_1)
  show ?thesis unfolding m
    by (rule bit_word_eqI) (auto simp: bit_or_iff bit_push_bit_iff bit_and_iff bit_drop_bit_eq bit_mask_iff)
qed

lemma unhex_loop_hex:
  "unhex_loop (concat (map (\<lambda>x. [hexchar (drop_bit 4 x), hexchar (x AND 15)]) bs)) = Inr bs"
  by (induction bs) (simp_all add: unhex_hexchar nibbles [simplified])

lemma unhex_hexmem: "hexmem alloc bs = Some s \<Longrightarrow> unhex_loop s = Inr bs"
  by (auto simp: hexmem_def unhex_loop_hex split: if_splits)

lemma length_hexmem: "hexmem alloc bs = Some s \<Longrightarrow> length s = 2 * length bs"
  by (auto simp: hexmem_def length_concat comp_def sum_list_triv split: if_splits)

lemma digits_value_snoc: "digits_value base (ds @ [c]) = digits_value base ds * base + digit_value c"
  by (simp add: digits_value_def)

lemma digit_value_of_nat: "n < 10 \<Longrightarrow> digit_value (48 + of_nat n) = n \<and> is_digit (48 + of_nat n)"
proof -
  assume "n < 10"
  then have "n \<in> {0,1,2,3,4,5,6,7,8,9}" by simp presburger
  then show ?thesis
    by (elim insertE emptyE) (simp_all add: digit_value_def between_def)
qed

lemma dec_digits: "c \<in> set (dec n) \<Longrightarrow> is_digit c \<and> digit_value c < 10"
proof (induction n rule: dec.induct)
  case (1 n)
  then show ?case
    using digit_value_of_nat [of n] digit_value_of_nat [of "n mod 10"] dec.simps [of n]
    by (auto split: if_splits)
qed

lemma dec_value: "digits_value 10 (dec n) = n"
proof (induction n rule: dec.induct)
  case (1 n)
  then show ?case
    using digit_value_of_nat [of n] digit_value_of_nat [of "n mod 10"]
    by (subst dec.simps) (simp add: digits_value_snoc, simp add: digits_value_def)
qed

lemma dec_not_Nil: "dec n \<noteq> []"
  by (subst dec.simps) simp

lemma dec_hd: "0 < n \<Longrightarrow> hd (dec n) \<noteq> 48"
proof (induction n rule: dec.induct)
  case (1 n)
  show ?case
  proof (cases "n < 10")
    case True
    then show ?thesis using 1(2) digit_value_of_nat [of n]
      by (subst dec.simps) (auto simp: digit_value_def)
  next
    case False
    then show ?thesis using 1 dec_not_Nil [of "n div 10"] by (subst dec.simps) simp
  qed
qed


lemma strtoul_base_dec: "0 < n \<Longrightarrow> strtoul_base (dec n) = (10, dec n)"
  using dec_hd [of n] dec_not_Nil [of n]
  by (cases "dec n" rule: strtoul_base.cases) auto

lemma digit_not_space: "is_digit c \<Longrightarrow> \<not> isspace c \<and> \<not> is_whitespace c \<and> c \<noteq> 45 \<and> c \<noteq> 43"
  by (auto simp: between_def isspace_def is_whitespace_def word_le_nat_alt)

lemma dec_dropWhile [simp]:
  "dropWhile isspace (dec n) = dec n" "dropWhile is_whitespace (dec n) = dec n"
  "hd (dec n) \<noteq> 45" "hd (dec n) \<noteq> 43"
  using dec_not_Nil [of n] dec_digits [of "hd (dec n)" n] digit_not_space [of "hd (dec n)"]
  by (cases "dec n"; auto)+

lemma strtoul0_dec:
  assumes "n < 2 ^ 64"
  shows "strtoul0 (dec n) = Some (of_nat n, False, [])"
proof (cases "n = 0")
  case True
  have d: "dec 0 = [48]" by (simp add: dec.simps)
  have v: "digit_value 48 = 0" by (simp add: digit_value_def between_def)
  show ?thesis unfolding True
    by (simp add: strtoul0_def Let_def) (simp add: d v digits_value_def)
next
  case False
  then have b: "strtoul_base (dec n) = (10, dec n)" by (intro strtoul_base_dec) simp
  have t: "takeWhile (\<lambda>c. digit_value c < 10) (dec n) = dec n"
    using dec_digits by (intro takeWhile_eq_all_conv [THEN iffD2]) blast
  have d: "dropWhile (\<lambda>c. digit_value c < 10) (dec n) = []"
    using dec_digits by (intro dropWhile_eq_Nil_conv [THEN iffD2]) blast
  show ?thesis using assms dec_not_Nil [of n] by (simp add: strtoul0_def Let_def b t d dec_value)
qed

lemma atou_below_dec:
  assumes "n < bound" and "bound \<le> 2 ^ 64"
  shows "atou_below bound (dec n) = Inr n"
proof -
  have n: "n < 2 ^ 64" using assms by linarith
  then have "unat (of_nat n :: u64) = n" by (simp add: unat_of_nat)
  then show ?thesis using strtoul0_dec [OF n] assms by (simp add: atou_below_def)
qed

lemma safe_atou_dec: "n < 2 ^ 32 \<Longrightarrow> safe_atou (dec n) = Inr (of_nat n)"
  by (simp add: safe_atou_def atou_below_dec)

lemma safe_atou8_dec: "n < 256 \<Longrightarrow> safe_atou8 (dec n) = Inr (of_nat n)"
  by (simp add: safe_atou8_def atou_below_dec)

lemma safe_atou16_dec: "n < 65536 \<Longrightarrow> safe_atou16 (dec n) = Inr (of_nat n)"
  by (simp add: safe_atou16_def atou_below_dec)

end
