(* ===== verification/Linked_List.thy ===== *)
theory Linked_List
  imports Prelude
begin

text \<open>
  The intrusive doubly linked lists of \<open>basic/list.h\<close>.  The nodes live in an explicit store from
  addresses to nodes, an address that is not in the store is not allocated, and following a pointer
  to it is a \<open>UseAfterFree\<close>.  The macros are functions on the store and the head pointer.
  \<open>chain h p head as\<close> says that from \<open>head\<close> the store holds the well-linked nodes \<open>as\<close>; the lemmas give the effect of each macro on \<open>as\<close>.
\<close>

record 'a lnode =
  l_next :: "nat option"
  l_prev :: "nat option"
  l_item :: 'a

type_synonym 'a lheap = "nat \<rightharpoonup> 'a lnode"

section \<open>The macros\<close>

definition deref :: "'a lheap \<Rightarrow> nat \<Rightarrow> 'a lnode res" where
  "deref h a = (case h a of None \<Rightarrow> Inl UseAfterFree | Some n \<Rightarrow> Inr n)"

definition set_next :: "nat \<Rightarrow> nat option \<Rightarrow> 'a lheap \<Rightarrow> 'a lheap res" where
  "set_next a p h = rbind (deref h a) (\<lambda>n. Inr (h(a \<mapsto> n\<lparr>l_next := p\<rparr>)))"

definition set_prev :: "nat \<Rightarrow> nat option \<Rightarrow> 'a lheap \<Rightarrow> 'a lheap res" where
  "set_prev a p h = rbind (deref h a) (\<lambda>n. Inr (h(a \<mapsto> n\<lparr>l_prev := p\<rparr>)))"

text \<open>\<open>while (_tail->next) _tail = _tail->next;\<close> --- not returning is \<open>None\<close>.\<close>

partial_function (option) tail_loop :: "'a lheap \<Rightarrow> nat \<Rightarrow> nat res option" where
  "tail_loop h i =
     (case h i of
        None \<Rightarrow> Some (Inl UseAfterFree)
      | Some n \<Rightarrow> (case l_next n of None \<Rightarrow> Some (Inr i) | Some j \<Rightarrow> tail_loop h j))"

definition list_find_tail :: "'a lheap \<Rightarrow> nat \<Rightarrow> nat res" where
  "list_find_tail h i = (case tail_loop h i of None \<Rightarrow> Inl Diverges | Some r \<Rightarrow> r)"

definition LIST_PREPEND :: "'a lheap \<Rightarrow> nat option \<Rightarrow> nat \<Rightarrow> ('a lheap \<times> nat option) res" where
  "LIST_PREPEND h head item =
     rbind (set_next item head h) (\<lambda>h.
     rbind (case head of None \<Rightarrow> Inr h | Some n \<Rightarrow> set_prev n (Some item) h) (\<lambda>h.
     rbind (set_prev item None h) (\<lambda>h. Inr (h, Some item))))"

definition LIST_REMOVE :: "'a lheap \<Rightarrow> nat option \<Rightarrow> nat \<Rightarrow> ('a lheap \<times> nat option) res" where
  "LIST_REMOVE h head item =
     rbind (deref h item) (\<lambda>it.
     rbind (case l_next it of None \<Rightarrow> Inr h | Some n \<Rightarrow> set_prev n (l_prev it) h) (\<lambda>h.
     rbind (case l_prev it of
              Some p \<Rightarrow> rbind (set_next p (l_next it) h) (\<lambda>h. Inr (h, head))
            | None \<Rightarrow> if head = Some item then Inr (h, l_next it) else Inl Abort) (\<lambda>(h, head).
     rbind (set_next item None h) (\<lambda>h.
     rbind (set_prev item None h) (\<lambda>h. Inr (h, head))))))"

text \<open>
  Inserting \<open>b\<close> before \<open>a\<close> (at the end if \<open>a\<close> is NULL).  As in the macro, the last branch does not
  touch the head pointer.
\<close>

definition LIST_INSERT_BEFORE ::
  "'a lheap \<Rightarrow> nat option \<Rightarrow> nat option \<Rightarrow> nat \<Rightarrow> ('a lheap \<times> nat option) res" where
  "LIST_INSERT_BEFORE h head a b =
     (case a of
        None \<Rightarrow>
          (case head of
             None \<Rightarrow>
               rbind (set_next b None h) (\<lambda>h.
               rbind (set_prev b None h) (\<lambda>h. Inr (h, Some b)))
           | Some first \<Rightarrow>
               rbind (list_find_tail h first) (\<lambda>tail.
               rbind (set_next b None h) (\<lambda>h.
               rbind (set_prev b (Some tail) h) (\<lambda>h.
               rbind (set_next tail (Some b) h) (\<lambda>h. Inr (h, head))))))
      | Some a' \<Rightarrow>
          rbind (deref h a') (\<lambda>n.
          rbind (set_prev b (l_prev n) h) (\<lambda>h.
          rbind (case l_prev n of None \<Rightarrow> Inr h | Some p \<Rightarrow> set_next p (Some b) h) (\<lambda>h.
          rbind (set_next b (Some a') h) (\<lambda>h.
          rbind (set_prev a' (Some b) h) (\<lambda>h. Inr (h, head)))))))"

section \<open>Well-linked lists\<close>

text \<open>
  \<open>lseg h p i as j\<close>: starting at pointer \<open>i\<close>, the store holds the linked nodes \<open>as\<close>; the first one
  points back to \<open>p\<close> and the last one points on to \<open>j\<close>.
\<close>

fun lseg :: "'a lheap \<Rightarrow> nat option \<Rightarrow> nat option \<Rightarrow> nat list \<Rightarrow> nat option \<Rightarrow> bool" where
  "lseg h p i [] j \<longleftrightarrow> i = j"
| "lseg h p i (a # as) j \<longleftrightarrow>
     i = Some a \<and>
     (case h a of None \<Rightarrow> False | Some n \<Rightarrow> l_prev n = p \<and> lseg h (Some a) (l_next n) as j)"

text \<open>
  A chain is what can be reached from the head pointer; its first node may point back to a node \<open>p\<close>
  outside of it.  A list proper is a chain whose first node has no predecessor.
\<close>

definition chain :: "'a lheap \<Rightarrow> nat option \<Rightarrow> nat option \<Rightarrow> nat list \<Rightarrow> bool" where
  "chain h p head as \<longleftrightarrow> lseg h p head as None \<and> distinct as
     \<and> (\<forall>q. p = Some q \<longrightarrow> q \<in> dom h \<and> q \<notin> set as)"

abbreviation dlist :: "'a lheap \<Rightarrow> nat option \<Rightarrow> nat list \<Rightarrow> bool" where
  "dlist h head as \<equiv> chain h None head as"

definition last_ptr :: "nat option \<Rightarrow> nat list \<Rightarrow> nat option" where
  "last_ptr p as = (if as = [] then p else Some (last as))"

text \<open>What \<open>LIST_FOREACH\<close> visits: the items of the nodes, in order.\<close>

definition items :: "'a lheap \<Rightarrow> nat list \<Rightarrow> 'a list" where
  "items h as = map (\<lambda>a. l_item (the (h a))) as"

lemma lseg_dom: "lseg h p i as j \<Longrightarrow> set as \<subseteq> dom h"
  by (induction as arbitrary: p i) (auto split: option.splits)

lemma lseg_frame: "a \<notin> set as \<Longrightarrow> lseg (h(a := x)) p i as j = lseg h p i as j"
  by (induction as arbitrary: p i) (auto split: option.splits)

lemma lseg_append:
  "lseg h p i (xs @ ys) j \<longleftrightarrow> (\<exists>k. lseg h p i xs k \<and> lseg h (last_ptr p xs) k ys j)"
  by (induction xs arbitrary: p i) (auto simp: last_ptr_def split: option.splits)

lemma lseg_snoc:
  "lseg h p i (xs @ [a]) j \<longleftrightarrow>
     lseg h p i xs (Some a) \<and> (\<exists>n. h a = Some n \<and> l_prev n = last_ptr p xs \<and> l_next n = j)"
  by (auto simp: lseg_append split: option.splits)

lemma items_frame: "a \<notin> set as \<Longrightarrow> items (h(a := x)) as = items h as"
  by (auto simp: items_def)

lemma items_Nil [simp]: "items h [] = []"
  by (simp add: items_def)

lemma items_Cons: "items h (a # as) = l_item (the (h a)) # items h as"
  by (simp add: items_def)

lemma items_append: "items h (as @ bs) = items h as @ items h bs"
  by (simp add: items_def)

lemma items_relink:
  "h a = Some n \<Longrightarrow> l_item n' = l_item n \<Longrightarrow> items (h(a \<mapsto> n')) as = items h as"
  by (auto simp: items_def)

lemma tail_loop_lseg: "lseg h p (Some i) as None \<Longrightarrow> tail_loop h i = Some (Inr (last as))"
proof (induction as arbitrary: p i)
  case Nil
  then show ?case by simp
next
  case (Cons a as)
  then obtain n where i: "i = a" and n: "h a = Some n"
    and rest: "lseg h (Some a) (l_next n) as None"
    by (auto split: option.splits)
  show ?case
  proof (cases as)
    case Nil
    with i n rest show ?thesis by (simp add: tail_loop.simps)
  next
    case (Cons b bs)
    with rest have "l_next n = Some b" by simp
    with Cons.IH [of "Some a" b] rest i n Cons show ?thesis
      by (subst tail_loop.simps) simp
  qed
qed

lemma list_find_tail_lseg:
  "lseg h p (Some i) as None \<Longrightarrow> list_find_tail h i = Inr (last as)"
  by (drule tail_loop_lseg) (simp add: list_find_tail_def)

section \<open>Effect of the macros on well-linked lists\<close>

lemmas link_defs = set_next_def set_prev_def deref_def

lemma insert_before_append:
  assumes "chain h p head as" and "b \<notin> set as" and "h b = Some nb" and "p \<noteq> Some b"
  shows "\<exists>h' head'. LIST_INSERT_BEFORE h head None b = Inr (h', head') \<and>
    chain h' (if as = [] then None else p) head' (as @ [b]) \<and> dom h' = dom h \<and>
    items h' (as @ [b]) = items h as @ [l_item nb]"
proof (cases as rule: rev_cases)
  case Nil
  with assms show ?thesis
    by (auto simp: LIST_INSERT_BEFORE_def link_defs chain_def items_def)
next
  case (snoc xs t)
  with assms(1) obtain nt where seg: "lseg h p head xs (Some t)" and nt: "h t = Some nt"
    and pt: "l_prev nt = last_ptr p xs" "l_next nt = None" and d: "distinct xs" "t \<notin> set xs"
    by (auto simp: chain_def lseg_snoc)
  obtain first where head: "head = Some first"
    using seg by (cases xs) auto
  have tail: "list_find_tail h first = Inr t"
    using assms(1) snoc head by (auto simp: chain_def dest!: list_find_tail_lseg)
  have neq: "b \<noteq> t" "b \<notin> set xs" using assms(2) snoc by auto
  define h' where "h' = h(b \<mapsto> nb\<lparr>l_next := None, l_prev := Some t\<rparr>, t \<mapsto> nt\<lparr>l_next := Some b\<rparr>)"
  have "LIST_INSERT_BEFORE h head None b = Inr (h', head)"
    using head tail neq assms(3) nt
    by (simp add: LIST_INSERT_BEFORE_def link_defs h'_def fun_upd_twist)
  moreover have "lseg h' p head (xs @ [t] @ [b]) None"
    using seg pt d neq unfolding append_assoc [symmetric] lseg_snoc h'_def
    by (auto simp: lseg_frame last_ptr_def)
  moreover have "items h' (xs @ [t] @ [b]) = items h (xs @ [t]) @ [l_item nb]"
    using nt d neq by (simp add: items_append items_Cons h'_def items_frame)
  moreover have "dom h' = dom h" using nt assms(3) by (auto simp: h'_def)
  ultimately show ?thesis
    using snoc d neq assms(1,4) by (auto simp: chain_def)
qed

lemma insert_before_inner:
  assumes "chain h q head (xs @ p # a # ys)" and "b \<notin> set (xs @ p # a # ys)" and "h b = Some nb"
    and "q \<noteq> Some b"
  shows "\<exists>h'. LIST_INSERT_BEFORE h head (Some a) b = Inr (h', head) \<and>
    chain h' q head (xs @ p # b # a # ys) \<and> dom h' = dom h \<and>
    items h' (xs @ p # b # a # ys) = items h (xs @ [p]) @ l_item nb # items h (a # ys)"
proof -
  obtain np na where seg: "lseg h q head xs (Some p)" and np: "h p = Some np"
    and pp: "l_prev np = last_ptr q xs" "l_next np = Some a"
    and na: "h a = Some na" and pa: "l_prev na = Some p" and rest: "lseg h (Some a) (l_next na) ys None"
    and d: "distinct (xs @ p # a # ys)"
    using assms(1) by (auto simp: chain_def lseg_append split: option.splits)
  define h' where "h' = h(b \<mapsto> nb\<lparr>l_prev := Some p, l_next := Some a\<rparr>,
    p \<mapsto> np\<lparr>l_next := Some b\<rparr>, a \<mapsto> na\<lparr>l_prev := Some b\<rparr>)"
  have neq: "b \<noteq> p" "b \<noteq> a" "p \<noteq> a" using assms(2) d by auto
  have "LIST_INSERT_BEFORE h head (Some a) b = Inr (h', head)"
    using neq assms(3) np na pa
    by (simp add: LIST_INSERT_BEFORE_def link_defs h'_def fun_upd_twist)
  moreover have "lseg h' q head (xs @ p # b # a # ys) None"
    using seg pp pa rest d neq assms(2) unfolding lseg_append h'_def
    by (auto simp: lseg_frame)
  moreover have "items h' (xs @ p # b # a # ys) = items h (xs @ [p]) @ l_item nb # items h (a # ys)"
    using np na d neq assms(2) by (simp add: items_append items_Cons h'_def items_frame)
  moreover have "dom h' = dom h" using np na assms(3) by (auto simp: h'_def)
  ultimately show ?thesis
    using d assms(1,2,4) by (auto simp: chain_def)
qed

text \<open>
  Inserting before the first node leaves the head pointer on the old first node: the new node cannot
  be reached from the head, and the old first node now has a predecessor.
\<close>

lemma insert_before_head:
  assumes "chain h p (Some a) (a # ys)" and "b \<notin> set (a # ys)" and "h b = Some nb" and "p \<noteq> Some b"
  shows "\<exists>h'. LIST_INSERT_BEFORE h (Some a) (Some a) b = Inr (h', Some a) \<and>
    chain h' (Some b) (Some a) (a # ys) \<and> dom h' = dom h \<and> items h' (a # ys) = items h (a # ys)"
proof -
  obtain na where na: "h a = Some na" and pa: "l_prev na = p"
    and rest: "lseg h (Some a) (l_next na) ys None" and d: "distinct (a # ys)"
    using assms(1) by (auto simp: chain_def split: option.splits)
  have neq: "b \<noteq> a" using assms(2) by auto
  show ?thesis
  proof (cases p)
    case None
    define h' where "h' = h(b \<mapsto> nb\<lparr>l_prev := None, l_next := Some a\<rparr>, a \<mapsto> na\<lparr>l_prev := Some b\<rparr>)"
    have "LIST_INSERT_BEFORE h (Some a) (Some a) b = Inr (h', Some a)"
      using neq assms(3) na pa None by (simp add: LIST_INSERT_BEFORE_def link_defs h'_def fun_upd_twist)
    moreover have "chain h' (Some b) (Some a) (a # ys)"
      using rest d neq assms(2) by (auto simp: h'_def lseg_frame chain_def)
    moreover have "dom h' = dom h" using na assms(3) by (auto simp: h'_def)
    moreover have "items h' (a # ys) = items h (a # ys)"
      using na d neq assms(2) by (simp add: items_Cons h'_def items_frame)
    ultimately show ?thesis by auto
  next
    case (Some q)
    then obtain nq where nq: "h q = Some nq" and q: "q \<notin> set (a # ys)"
      using assms(1) by (auto simp: chain_def)
    have q': "q \<noteq> b" "q \<noteq> a" using assms(4) Some q by auto
    define h' where "h' = h(b \<mapsto> nb\<lparr>l_prev := Some q, l_next := Some a\<rparr>, q \<mapsto> nq\<lparr>l_next := Some b\<rparr>,
      a \<mapsto> na\<lparr>l_prev := Some b\<rparr>)"
    have "LIST_INSERT_BEFORE h (Some a) (Some a) b = Inr (h', Some a)"
      using neq assms(3) na pa Some nq q' by (simp add: LIST_INSERT_BEFORE_def link_defs h'_def fun_upd_twist)
    moreover have "chain h' (Some b) (Some a) (a # ys)"
      using rest d neq assms(2) q q' by (auto simp: h'_def lseg_frame chain_def)
    moreover have "dom h' = dom h" using na nq assms(3) by (auto simp: h'_def)
    moreover have "items h' (a # ys) = items h (a # ys)"
      using na d neq assms(2) q q' by (simp add: items_Cons h'_def items_frame)
    ultimately show ?thesis by auto
  qed
qed

lemma remove_first:
  assumes "dlist h head (a # as)"
  shows "\<exists>h' head'. LIST_REMOVE h head a = Inr (h', head') \<and> dlist h' head' as \<and>
    items h' as = items h as \<and> (\<forall>x. x \<notin> set (a # as) \<longrightarrow> h' x = h x) \<and> dom h' = dom h"
proof -
  obtain na where na: "h a = Some na" and head: "head = Some a" and pa: "l_prev na = None"
    and rest: "lseg h (Some a) (l_next na) as None" and d: "distinct (a # as)"
    using assms by (auto simp: chain_def split: option.splits)
  show ?thesis
  proof (cases as)
    case Nil
    with na head pa rest show ?thesis
      by (auto simp: LIST_REMOVE_def link_defs chain_def)
  next
    case (Cons b bs)
    with rest obtain nb where nb: "h b = Some nb" and nx: "l_next na = Some b" and pb: "l_prev nb = Some a"
      and more: "lseg h (Some b) (l_next nb) bs None"
      by (auto split: option.splits)
    define h' where "h' = h(b \<mapsto> nb\<lparr>l_prev := None\<rparr>, a \<mapsto> na\<lparr>l_next := None, l_prev := None\<rparr>)"
    have neq: "a \<noteq> b" using d Cons by auto
    have "LIST_REMOVE h head a = Inr (h', Some b)"
      using na nb nx pa head neq by (simp add: LIST_REMOVE_def link_defs h'_def fun_upd_twist)
    moreover have "dlist h' (Some b) as"
      using Cons d more neq by (auto simp: chain_def h'_def lseg_frame)
    moreover have "items h' as = items h as"
      using Cons d nb neq by (simp add: h'_def items_Cons items_frame)
    ultimately show ?thesis
      using na nb Cons by (auto simp: h'_def)
  qed
qed

end
