(* ===== verification/In_Addr.thy ===== *)
theory In_Addr
  imports Prelude
begin

text \<open>
  Address arithmetic of \<open>basic/in-addr-util.c\<close>.  An IPv4 address is a 32-bit word, an IPv6 address
  the sixteen bytes of \<open>struct in6_addr\<close>; \<open>union in_addr_union\<close> is a record with both members, of
  which a function looks at the one its family argument names.  The C library's classful
  \<open>inet_netof\<close> and \<open>inet_makeaddr\<close>, which the lease parser calls, are modelled here too.
\<close>

record in_addr_union =
  ua_in :: be32
  ua_in6 :: "u8 list"

abbreviation (input) AF_INET :: int where "AF_INET \<equiv> 2"
abbreviation (input) AF_INET6 :: int where "AF_INET6 \<equiv> 10"

section \<open>Prefixes\<close>

definition in_addr_is_null :: "int \<Rightarrow> in_addr_union \<Rightarrow> bool res" where
  "in_addr_is_null family u =
     (if family = AF_INET then Inr (ua_in u = 0)
      else if family = AF_INET6 then Inr (\<forall>b \<in> set (take 16 (ua_in6 u)). b = 0)
      else Inl (Errno EAFNOSUPPORT))"

definition netmask4 :: "nat \<Rightarrow> u32" where
  "netmask4 m = (if m = 0 then 0 else push_bit (32 - m) (0xFFFFFFFF :: u32))"

text \<open>The byte loop of the IPv6 branch: \<open>m\<close> is the number of prefix bits still to compare.\<close>

fun prefix_intersect6 :: "u8 list \<Rightarrow> u8 list \<Rightarrow> nat \<Rightarrow> bool" where
  "prefix_intersect6 (a # as) (b # bs) m =
     (let x = a XOR b;
          nm = (if m < 8 then push_bit (8 - m) (0xFF :: u8) else 0xFF)
      in if x AND nm \<noteq> 0 then False
         else prefix_intersect6 as bs (if m > 8 then m - 8 else 0))"
| "prefix_intersect6 _ _ m = True"

definition in_addr_prefix_intersect ::
  "int \<Rightarrow> in_addr_union \<Rightarrow> nat \<Rightarrow> in_addr_union \<Rightarrow> nat \<Rightarrow> bool res" where
  "in_addr_prefix_intersect family a aprefixlen b bprefixlen =
     (let m = min aprefixlen bprefixlen in
      if family = AF_INET then
        (let x = ua_in a XOR ua_in b; nm = netmask4 m in Inr (x AND nm = 0))
      else if family = AF_INET6 then
        (let m = (if m > 128 then 128 else m)
         in Inr (prefix_intersect6 (take 16 (ua_in6 a)) (take 16 (ua_in6 b)) m))
      else Inl (Errno EAFNOSUPPORT))"

text \<open>
  The carry loop of the IPv6 branch runs from the last byte to the first; the lists are reversed.
\<close>

fun add6 :: "u8 list \<Rightarrow> u8 list \<Rightarrow> u8 \<Rightarrow> u8 list \<times> u8" where
  "add6 (u # us) (a # as) overflow =
     (let result = u + a + overflow;
          (rs, ov) = add6 us as (if result < u then 1 else 0)
      in (result # rs, ov))"
| "add6 _ _ overflow = ([], overflow)"

text \<open>\<open>Inr None\<close>: the increment overflows (the C function returns 0 and leaves \<open>u\<close> alone).\<close>

definition in_addr_prefix_next ::
  "int \<Rightarrow> in_addr_union \<Rightarrow> nat \<Rightarrow> in_addr_union option res" where
  "in_addr_prefix_next family u prefixlen =
     (if prefixlen = 0 then Inr None
      else if family = AF_INET then
        (let prefixlen = (if prefixlen > 32 then 32 else prefixlen);
             c = ua_in u;
             n = c + push_bit (32 - prefixlen) 1
         in if n < c then Inr None
            else Inr (Some (u\<lparr>ua_in := n AND push_bit (32 - prefixlen) 0xFFFFFFFF\<rparr>)))
      else if family = AF_INET6 then
        (let prefixlen = (if prefixlen > 128 then 128 else prefixlen);
             add = (replicate 16 (0 :: u8))
               [(prefixlen - 1) div 8 := push_bit (7 - (prefixlen - 1) mod 8) 1];
             (result, overflow) = add6 (rev (ua_in6 u)) (rev add) 0
         in if overflow \<noteq> 0 then Inr None else Inr (Some (u\<lparr>ua_in6 := rev result\<rparr>)))
      else Inl (Errno EAFNOSUPPORT))"

section \<open>Netmasks and address classes\<close>

text \<open>\<open>u32ctz\<close>: the number of trailing zero bits, 32 for zero.\<close>

fun ctz_from :: "nat \<Rightarrow> u32 \<Rightarrow> nat" where
  "ctz_from 0 w = 0"
| "ctz_from (Suc n) w = (if bit w 0 then 0 else Suc (ctz_from n (drop_bit 1 w)))"

definition u32ctz :: "u32 \<Rightarrow> nat" where
  "u32ctz w = ctz_from 32 w"

definition in_addr_netmask_to_prefixlen :: "be32 \<Rightarrow> nat" where
  "in_addr_netmask_to_prefixlen addr = 32 - u32ctz addr"

definition in_addr_prefixlen_to_netmask :: "nat \<Rightarrow> be32 res" where
  "in_addr_prefixlen_to_netmask prefixlen =
     (if prefixlen > 32 then Inl Abort
      else if prefixlen = 0 then Inr 0
      else Inr (push_bit (32 - prefixlen) 0xFFFFFFFF AND 0xFFFFFFFF))"

definition in_addr_default_prefixlen :: "u8 list \<Rightarrow> u8 res" where
  "in_addr_default_prefixlen addr =
     (case addr of
        [] \<Rightarrow> Inl OutOfBounds
      | msb_octet # _ \<Rightarrow>
          if msb_octet < 128 then Inr 8
          else if msb_octet < 192 then Inr 16
          else if msb_octet < 224 then Inr 24
          else Inl (Errno ERANGE))"

definition in_addr_default_subnet_mask :: "be32 \<Rightarrow> be32 res" where
  "in_addr_default_subnet_mask addr =
     rbind (in_addr_default_prefixlen (unaligned_write_be32 addr)) (\<lambda>prefixlen.
     in_addr_prefixlen_to_netmask (unat prefixlen))"

text \<open>The classful network number of an address, and the address made from one (C library).\<close>

definition inet_netof :: "be32 \<Rightarrow> u32" where
  "inet_netof i =
     (if i AND 0x80000000 = 0 then drop_bit 24 (i AND 0xFF000000)
      else if i AND 0xC0000000 = 0x80000000 then drop_bit 16 (i AND 0xFFFF0000)
      else drop_bit 8 (i AND 0xFFFFFF00))"

definition inet_makeaddr :: "u32 \<Rightarrow> u32 \<Rightarrow> be32" where
  "inet_makeaddr net host =
     (if net < 128 then push_bit 24 net OR (host AND 0x00FFFFFF)
      else if net < 65536 then push_bit 16 net OR (host AND 0xFFFF)
      else if net < 16777216 then push_bit 8 net OR (host AND 0xFF)
      else net OR host)"

section \<open>Prefix lemmas\<close>

text \<open>\<open>in_net4 a n c\<close>: the address \<open>c\<close> lies in the network \<open>a/n\<close>.\<close>

definition in_net4 :: "be32 \<Rightarrow> nat \<Rightarrow> be32 \<Rightarrow> bool" where
  "in_net4 a n c \<longleftrightarrow> (\<forall>k. 32 - n \<le> k \<longrightarrow> k < 32 \<longrightarrow> bit a k = bit c k)"

lemma bit_netmask4: "m \<le> 32 \<Longrightarrow> bit (netmask4 m) k \<longleftrightarrow> 32 - m \<le> k \<and> k < 32"
proof -
  have ones: "(0xFFFFFFFF :: u32) = mask 32"
    by (simp add: mask_eq_exp_minus_1)
  assume "m \<le> 32"
  then show ?thesis
    unfolding netmask4_def ones
    by (auto simp: bit_push_bit_iff bit_mask_iff)
qed

lemma masked_xor_zero:
  assumes "m \<le> 32"
  shows "((a :: u32) XOR b) AND netmask4 m = 0 \<longleftrightarrow> in_net4 a m b"
proof -
  have "(a XOR b) AND netmask4 m = 0 \<longleftrightarrow> (\<forall>k < 32. \<not> bit ((a XOR b) AND netmask4 m) k)"
    by (auto intro: bit_word_eqI)
  also have "\<dots> \<longleftrightarrow> in_net4 a m b"
    using assms by (auto simp: bit_and_iff bit_xor_iff bit_netmask4 in_net4_def)
  finally show ?thesis .
qed

lemma in_net4_refl [simp]: "in_net4 a n a"
  by (simp add: in_net4_def)

lemma in_net4_common:
  assumes "n \<le> 32" and "m \<le> 32"
  shows "(\<exists>c. in_net4 a n c \<and> in_net4 b m c) \<longleftrightarrow> in_net4 a (min n m) b"
proof
  assume "\<exists>c. in_net4 a n c \<and> in_net4 b m c"
  then show "in_net4 a (min n m) b" by (auto simp: in_net4_def min_def split: if_splits)
next
  assume "in_net4 a (min n m) b"
  then have "in_net4 a n (if n \<le> m then b else a) \<and> in_net4 b m (if n \<le> m then b else a)"
    by (auto simp: in_net4_def min_def split: if_splits)
  then show "\<exists>c. in_net4 a n c \<and> in_net4 b m c" by blast
qed

end
