(* ===== verification/Dns_Domain.thy ===== *)
theory Dns_Domain
  imports String_Util In_Addr
begin

text \<open>
  Domain names (\<open>basic/dns-domain.c\<close>): unescaping and escaping of labels, concatenation and
  normalisation, comparison, suffix operations, reverse names of addresses and the wire format.

  A name is a C string; a pointer into it is the string from there to the end, so the \<open>const char **\<close>
  argument of \<open>dns_label_unescape\<close> is a name in and a name out.  A label is the list of bytes stored in
  the destination buffer; the terminating NUL is written only when room is left, that is when the label
  is shorter than the buffer.
\<close>

section \<open>Labels\<close>

abbreviation (input) DNS_LABEL_MAX :: nat where "DNS_LABEL_MAX \<equiv> 63"
abbreviation (input) DNS_LABEL_ESCAPED_MAX :: nat where "DNS_LABEL_ESCAPED_MAX \<equiv> 253"
abbreviation (input) DNS_HOSTNAME_MAX :: nat where "DNS_HOSTNAME_MAX \<equiv> 253"
abbreviation (input) DNS_N_LABELS_MAX :: nat where "DNS_N_LABELS_MAX \<equiv> 127"

definition decimal_escape :: "u8 \<Rightarrow> u8 \<Rightarrow> u8 \<Rightarrow> nat" where
  "decimal_escape a b c = (unat a - 48) * 100 + (unat b - 48) * 10 + (unat c - 48)"

text \<open>One character of a label, escaped or not, and the rest of the string.\<close>

definition unescape_char :: "cstr \<Rightarrow> (u8 \<times> cstr) res" where
  "unescape_char s =
     (case s of
        [] \<Rightarrow> Inl OutOfBounds
      | c # n \<Rightarrow>
          if c = 92 then
            (case n of
               [] \<Rightarrow> Inl (Errno EINVAL)
             | e # n \<Rightarrow>
                 if e = 92 \<or> e = 46 then Inr (e, n)
                 else if is_digit e then
                   (case n of
                      e1 # e2 # n \<Rightarrow>
                        if \<not> is_digit e1 \<or> \<not> is_digit e2 then Inl (Errno EINVAL)
                        else if 255 < decimal_escape e e1 e2 then Inl (Errno EINVAL)
                        else Inr (of_nat (decimal_escape e e1 e2), n)
                    | _ \<Rightarrow> Inl (Errno EINVAL))
                 else Inl (Errno EINVAL))
          else if 32 \<le> c \<and> c \<noteq> 127 then Inr (c, n)
          else Inl (Errno EINVAL))"

lemma unescape_char_shorter: "unescape_char s = Inr (c, n) \<Longrightarrow> length n < length s"
  by (auto simp: unescape_char_def split: list.splits if_splits)

text \<open>The loop of \<open>dns_label_unescape\<close>: \<open>sz\<close> is the room left, \<open>r\<close> the bytes stored so far.\<close>

function unescape_loop :: "cstr \<Rightarrow> nat \<Rightarrow> nat \<Rightarrow> (cstr \<times> cstr) res" where
  "unescape_loop n sz r =
     (if n = [] then Inr ([], [])
      else if hd n = 46 then Inr ([], tl n)
      else if DNS_LABEL_MAX \<le> r then Inl (Errno EINVAL)
      else if sz = 0 then Inl (Errno ENOBUFS)
      else rbind (unescape_char n) (\<lambda>(c, n).
        rbind (unescape_loop n (sz - 1) (r + 1)) (\<lambda>(label, n). Inr (c # label, n))))"
  by pat_completeness auto
termination
  by (relation "measure (\<lambda>(n, _, _). length n)") (auto dest: unescape_char_shorter)

declare unescape_loop.simps [simp del]

definition dns_label_unescape :: "cstr \<Rightarrow> nat \<Rightarrow> (cstr \<times> cstr) res" where
  "dns_label_unescape name sz =
     rbind (unescape_loop name sz 0) (\<lambda>(label, n).
       if label = [] \<and> n \<noteq> [] then Inl (Errno EINVAL) else Inr (label, n))"

definition dns_name_parent :: "cstr \<Rightarrow> (cstr \<times> cstr) res" where
  "dns_name_parent name = dns_label_unescape name DNS_LABEL_MAX"

definition is_proper :: "u8 \<Rightarrow> bool" where
  "is_proper c \<longleftrightarrow> c = 95 \<or> c = 45 \<or> is_digit c \<or> is_lower c \<or> is_upper c"

fun escape_loop :: "cstr \<Rightarrow> nat \<Rightarrow> cstr res" where
  "escape_loop [] sz = Inr []"
| "escape_loop (c # p) sz =
     (if c = 46 \<or> c = 92 then
        (if sz < 3 then Inl (Errno ENOBUFS)
         else rbind (escape_loop p (sz - 2)) (\<lambda>q. Inr (92 # c # q)))
      else if is_proper c then
        (if sz < 2 then Inl (Errno ENOBUFS)
         else rbind (escape_loop p (sz - 1)) (\<lambda>q. Inr (c # q)))
      else
        (if sz < 5 then Inl (Errno ENOBUFS)
         else rbind (escape_loop p (sz - 4)) (\<lambda>q.
           Inr (92 # (48 + c div 100) # (48 + (c div 10) mod 10) # (48 + c mod 10) # q))))"

definition dns_label_escape :: "cstr \<Rightarrow> nat \<Rightarrow> cstr res" where
  "dns_label_escape p sz =
     (if p = [] \<or> DNS_LABEL_MAX < length p then Inl (Errno EINVAL)
      else if sz < 1 then Inl (Errno ENOBUFS)
      else escape_loop p sz)"

definition dns_label_escape_new :: "alloc \<Rightarrow> cstr \<Rightarrow> cstr res" where
  "dns_label_escape_new alloc p =
     (if p = [] \<or> DNS_LABEL_MAX < length p then Inl (Errno EINVAL)
      else if \<not> alloc DNS_LABEL_ESCAPED_MAX then Inl (Errno ENOMEM)
      else dns_label_escape p DNS_LABEL_ESCAPED_MAX)"

lemma unescape_loop_shorter:
  "unescape_loop name sz r = Inr (label, n) \<Longrightarrow> length label + length n \<le> length name"
proof (induction name sz r arbitrary: label rule: unescape_loop.induct)
  case (1 name sz r)
  then show ?case
    by (subst (asm) (2) unescape_loop.simps)
      (fastforce simp: rbind_Inr_iff dest: unescape_char_shorter split: if_splits)
qed

lemma unescape_shorter:
  "dns_label_unescape name sz = Inr (label, n) \<Longrightarrow> length label + length n \<le> length name"
  by (auto simp: dns_label_unescape_def rbind_Inr_iff split: if_splits dest: unescape_loop_shorter)

text \<open>The last label before a terminal character; a position counts the characters before it.\<close>

fun backslashes :: "cstr \<Rightarrow> nat \<Rightarrow> nat" where
  "backslashes name 0 = 0"
| "backslashes name (Suc k) = (if name ! k = 92 then Suc (backslashes name k) else 0)"

lemma backslashes_le: "backslashes name k \<le> k"
  by (induction k) auto

function suffix_scan :: "cstr \<Rightarrow> nat \<Rightarrow> nat \<times> nat option" where
  "suffix_scan name 0 = (0, None)"
| "suffix_scan name (Suc k) =
     (if name ! k = 46 then
        (if even (backslashes name k) then (Suc k, Some k) else suffix_scan name (k - backslashes name k))
      else suffix_scan name k)"
  by pat_completeness auto
termination
  by (relation "measure snd") auto

definition dns_label_unescape_suffix :: "cstr \<Rightarrow> nat option \<Rightarrow> nat \<Rightarrow> (cstr \<times> nat option) res" where
  "dns_label_unescape_suffix name label_terminal sz =
     (case label_terminal of
        None \<Rightarrow> Inr ([], None)
      | Some t \<Rightarrow>
          if length name < t then Inl OutOfBounds
          else if \<not> (t = length name \<or> name ! t = 46) then Inl Abort
          else
            (let k = (if t = length name then t else Suc t);
                 k = (if 0 < k \<and> name ! (k - 1) = 46 then k - 1 else k);
                 (start, terminal) = suffix_scan name k
             in rbind (dns_label_unescape (drop start name) sz) (\<lambda>(label, _). Inr (label, terminal))))"

section \<open>Concatenation and normalisation\<close>

lemma unescape_progress:
  assumes "dns_label_unescape name sz = Inr (label, n)" and "label \<noteq> []"
  shows "length n < length name"
  using unescape_shorter [OF assms(1)] assms(2) by (cases label) auto

definition grow :: "alloc \<Rightarrow> bool \<Rightarrow> u64 \<Rightarrow> nat \<Rightarrow> u64 res" where
  "grow alloc want allocated need =
     (if \<not> want then Inr allocated
      else case greedy_realloc alloc allocated (of_nat need) 1 of
        None \<Rightarrow> Inl (Errno ENOMEM)
      | Some allocated \<Rightarrow> Inr allocated)"

text \<open>
  The loop of \<open>dns_name_concat\<close>.  \<open>ret\<close> is the buffer filled so far (\<open>n\<close> is its length), \<open>want\<close> says
  whether the caller passed a result pointer; without one nothing is allocated.
\<close>

function concat_loop ::
  "alloc \<Rightarrow> bool \<Rightarrow> cstr \<Rightarrow> cstr option \<Rightarrow> bool \<Rightarrow> cstr \<Rightarrow> u64 \<Rightarrow> (cstr \<times> u64) res" where
  "concat_loop alloc want p b first ret allocated =
     rbind (dns_label_unescape p DNS_LABEL_MAX) (\<lambda>(label, p).
       if label = [] then
         (if p \<noteq> [] then Inl (Errno EINVAL)
          else case b of
            Some b \<Rightarrow> concat_loop alloc want b None first ret allocated
          | None \<Rightarrow> Inr (ret, allocated))
       else
         rbind (grow alloc want allocated (length ret + (if first then 0 else 1) + DNS_LABEL_ESCAPED_MAX)) (\<lambda>allocated.
         rbind (dns_label_escape label DNS_LABEL_ESCAPED_MAX) (\<lambda>e.
         concat_loop alloc want p b False (ret @ (if first then [] else [46]) @ e) allocated)))"
  by pat_completeness auto
termination
  by (relation "measure (\<lambda>(_, _, p, b, _). length p + (case b of None \<Rightarrow> 0 | Some b \<Rightarrow> Suc (length b)))")
    (auto dest: unescape_progress)

declare concat_loop.simps [simp del]

definition dns_name_concat :: "alloc \<Rightarrow> bool \<Rightarrow> cstr option \<Rightarrow> cstr option \<Rightarrow> cstr res" where
  "dns_name_concat alloc want a b =
     rbind (case a of
              Some p \<Rightarrow> concat_loop alloc want p b True [] 0
            | None \<Rightarrow> (case b of
                Some p \<Rightarrow> concat_loop alloc want p None True [] 0
              | None \<Rightarrow> Inr ([], 0))) (\<lambda>(ret, allocated).
       if DNS_HOSTNAME_MAX < length ret then Inl (Errno EINVAL)
       else if ret = [] then rbind (grow alloc want allocated 2) (\<lambda>_. Inr [46])
       else rbind (grow alloc want allocated (length ret + 1)) (\<lambda>_. Inr ret))"

definition dns_name_normalize :: "alloc \<Rightarrow> cstr \<Rightarrow> cstr res" where
  "dns_name_normalize alloc s = dns_name_concat alloc True (Some s) None"

definition dns_name_is_valid :: "cstr \<Rightarrow> bool res" where
  "dns_name_is_valid s =
     (case dns_name_concat (\<lambda>_. True) False (Some s) None of
        Inl (Errno EINVAL) \<Rightarrow> Inr False
      | Inl e \<Rightarrow> Inl e
      | Inr _ \<Rightarrow> Inr True)"

definition dns_name_is_root :: "cstr \<Rightarrow> bool" where
  "dns_name_is_root name \<longleftrightarrow> name = [] \<or> name = [46]"

definition dns_name_is_single_label :: "cstr \<Rightarrow> bool" where
  "dns_name_is_single_label name =
     (case dns_name_parent name of
        Inl _ \<Rightarrow> False
      | Inr (label, name) \<Rightarrow> label \<noteq> [] \<and> dns_name_is_root name)"

section \<open>Comparison\<close>

text \<open>The bytes that \<open>dns_name_hash_func\<close> feeds into the hash state.\<close>

function hash_labels :: "cstr \<Rightarrow> u8 list" where
  "hash_labels p =
     (case dns_label_unescape p (DNS_LABEL_MAX + 1) of
        Inl _ \<Rightarrow> []
      | Inr (label, p) \<Rightarrow>
          if label = [] then [] else ascii_strlower_n label @ [0] @ hash_labels p)"
  by pat_completeness auto
termination
  by (relation "measure length") (auto dest: unescape_progress)

declare hash_labels.simps [simp del]

definition dns_name_hash_func :: "cstr \<Rightarrow> u8 list" where
  "dns_name_hash_func p = hash_labels p @ [0]"

function dns_name_equal :: "cstr \<Rightarrow> cstr \<Rightarrow> bool res" where
  "dns_name_equal x y =
     rbind (dns_label_unescape x DNS_LABEL_MAX) (\<lambda>(la, x).
     rbind (dns_label_unescape y DNS_LABEL_MAX) (\<lambda>(lb, y).
       if length la \<noteq> length lb then Inr False
       else if la = [] then Inr True
       else rbind (ascii_strcasecmp_n la lb (length la)) (\<lambda>c.
         if c \<noteq> 0 then Inr False else dns_name_equal x y)))"
  by pat_completeness auto
termination
  by (relation "measure (\<lambda>(x, _). length x)") (auto dest: unescape_progress)

declare dns_name_equal.simps [simp del]

function dns_name_startswith :: "cstr \<Rightarrow> cstr \<Rightarrow> bool res" where
  "dns_name_startswith n p =
     rbind (dns_label_unescape p DNS_LABEL_MAX) (\<lambda>(lp, p).
       if lp = [] then Inr True
       else rbind (dns_label_unescape n DNS_LABEL_MAX) (\<lambda>(ln, n).
         if length lp \<noteq> length ln then Inr False
         else rbind (ascii_strcasecmp_n ln lp (length lp)) (\<lambda>c.
           if c \<noteq> 0 then Inr False else dns_name_startswith n p)))"
  by pat_completeness auto
termination
  by (relation "measure (\<lambda>(_, p). length p)") (auto dest: unescape_progress)

declare dns_name_startswith.simps [simp del]

text \<open>
  The search of \<open>dns_name_endswith\<close>: \<open>saved\<close> is the place to restart from, after the first label of the
  current attempt.  Pointers into the name are compared by what is left of it.
\<close>

definition labels_match :: "cstr \<Rightarrow> cstr \<Rightarrow> bool res" where
  "labels_match ln ls =
     (if length ln \<noteq> length ls then Inr False
      else rbind (ascii_strcasecmp_n ln ls (length ln)) (\<lambda>c. Inr (c = 0)))"

definition search_measure :: "cstr \<Rightarrow> cstr option \<Rightarrow> nat" where
  "search_measure n saved = (case saved of None \<Rightarrow> length n | Some s \<Rightarrow> Suc (length s))"

function endswith_loop :: "cstr \<Rightarrow> cstr \<Rightarrow> cstr \<Rightarrow> cstr option \<Rightarrow> bool res" where
  "endswith_loop suffix n s saved =
     rbind (dns_label_unescape n DNS_LABEL_MAX) (\<lambda>(ln, n).
       let saved = (case saved of None \<Rightarrow> n | Some m \<Rightarrow> m) in
       rbind (dns_label_unescape s DNS_LABEL_MAX) (\<lambda>(ls, s).
         if ln = [] \<and> ls = [] then Inr True
         else if ln = [] \<and> length saved = length n then Inr False
         else rbind (labels_match ln ls) (\<lambda>m.
           if m then endswith_loop suffix n s (Some saved)
           else endswith_loop suffix saved suffix None)))"
  by pat_completeness auto
termination
proof (relation "measures [\<lambda>(_, n, _, saved). search_measure n saved, \<lambda>(_, n, _, _). length n]", goal_cases)
  case (2 suffix n s saved x ln n' saved' y ls s' m)
  then have "ln \<noteq> []" by (auto simp: labels_match_def)
  then have "length n' < length n" using 2 by (auto dest: unescape_progress)
  then show ?case using 2 by (auto simp: search_measure_def split: option.splits)
next
  case (3 suffix n s saved x ln n' saved' y ls s' m)
  then show ?case
    using unescape_shorter [of n 63 ln n']
    by (cases saved; cases ln) (auto simp: search_measure_def)
qed simp

declare endswith_loop.simps [simp del]

definition dns_name_endswith :: "cstr \<Rightarrow> cstr \<Rightarrow> bool res" where
  "dns_name_endswith name suffix = endswith_loop suffix name suffix None"

text \<open>
  The canonical order: names compared label by label from the end.  An error of one side is returned
  as the difference of the two results, errors counting as negative numbers.
\<close>

definition errno_num :: "errno \<Rightarrow> int" where
  "errno_num e = (case e of EINVAL \<Rightarrow> 22 | ENOBUFS \<Rightarrow> 105 | ENOMEM \<Rightarrow> 12 | ESys n \<Rightarrow> int n | _ \<Rightarrow> 1)"

definition label_ret :: "(cstr \<times> 'a) res \<Rightarrow> int res" where
  "label_ret m =
     (case m of
        Inr (l, _) \<Rightarrow> Inr (int (length l))
      | Inl (Errno e) \<Rightarrow> Inr (- errno_num e)
      | Inl f \<Rightarrow> Inl f)"

lemma suffix_scan_less: "suffix_scan name k = (start, Some t) \<Longrightarrow> t < k"
proof (induction name k rule: suffix_scan.induct)
  case (2 name k)
  then show ?case by (force split: if_splits simp: Let_def)
qed simp

lemma unescape_suffix_less:
  "dns_label_unescape_suffix name (Some t) sz = Inr (l, Some t') \<Longrightarrow> t' < t"
  by (auto simp: dns_label_unescape_suffix_def Let_def rbind_Inr_iff dest!: suffix_scan_less
      split: if_splits prod.splits)

definition terminal_measure :: "nat option \<Rightarrow> nat" where
  "terminal_measure t = (case t of None \<Rightarrow> 0 | Some t \<Rightarrow> Suc t)"

lemma unescape_suffix_measure:
  assumes "dns_label_unescape_suffix name t sz = Inr (l, t')"
  shows "terminal_measure t' \<le> terminal_measure t"
    and "t \<noteq> None \<Longrightarrow> terminal_measure t' < terminal_measure t"
proof -
  have "t = None \<and> t' = None \<or> (\<exists>u. t = Some u \<and> (\<forall>u'. t' = Some u' \<longrightarrow> u' < u))"
    using assms unescape_suffix_less [of name _ sz l]
    by (cases t) (auto simp: dns_label_unescape_suffix_def [of _ None])
  then show "terminal_measure t' \<le> terminal_measure t"
    and "t \<noteq> None \<Longrightarrow> terminal_measure t' < terminal_measure t"
    by (auto simp: terminal_measure_def less_Suc_eq_le split: option.splits intro: less_imp_le)
qed

function compare_loop :: "cstr \<Rightarrow> cstr \<Rightarrow> nat option \<Rightarrow> nat option \<Rightarrow> int res" where
  "compare_loop a b x y =
     (if x = None \<and> y = None then Inr 0
      else
        (let r = dns_label_unescape_suffix a x DNS_LABEL_MAX;
             q = dns_label_unescape_suffix b y DNS_LABEL_MAX
         in case (r, q) of
              (Inr (la, x), Inr (lb, y)) \<Rightarrow>
                rbind (ascii_strcasecmp_nn la (length la) lb (length lb)) (\<lambda>c.
                  if c \<noteq> 0 then Inr c else compare_loop a b x y)
            | _ \<Rightarrow> rbind (label_ret r) (\<lambda>r. rbind (label_ret q) (\<lambda>q. Inr (r - q)))))"
  by pat_completeness auto
termination
proof (relation "measure (\<lambda>(_, _, x, y). terminal_measure x + terminal_measure y)", goal_cases)
  case (2 a b x y r q r' q' rv la x' qv lb y' c)
  then have r: "dns_label_unescape_suffix a x 63 = Inr (la, x')"
    and q: "dns_label_unescape_suffix b y 63 = Inr (lb, y')" by simp_all
  show ?case
    using unescape_suffix_measure [OF r] unescape_suffix_measure [OF q] 2(1) by fastforce
qed simp

declare compare_loop.simps [simp del]

definition dns_name_compare_func :: "cstr \<Rightarrow> cstr \<Rightarrow> int res" where
  "dns_name_compare_func a b = compare_loop a b (Some (length a)) (Some (length b))"

definition dns_name_between :: "cstr \<Rightarrow> cstr \<Rightarrow> cstr \<Rightarrow> bool res" where
  "dns_name_between a b c =
     rbind (dns_name_compare_func a c) (\<lambda>n.
       if n = 0 then Inl (Errno EINVAL)
       else rbind (dns_name_compare_func a b) (\<lambda>ab. rbind (dns_name_compare_func b c) (\<lambda>bc.
         Inr (if n < 0 then ab < 0 \<and> bc < 0 else bc < 0 \<or> ab < 0))))"

section \<open>Suffixes\<close>

function change_suffix_loop ::
  "cstr \<Rightarrow> cstr \<Rightarrow> cstr \<Rightarrow> cstr option \<Rightarrow> cstr option \<Rightarrow> cstr option res" where
  "change_suffix_loop old_suffix n s before after =
     (let before = (case before of None \<Rightarrow> n | Some m \<Rightarrow> m) in
      rbind (dns_label_unescape n DNS_LABEL_MAX) (\<lambda>(ln, n).
        let after = (case after of None \<Rightarrow> n | Some m \<Rightarrow> m) in
        rbind (dns_label_unescape s DNS_LABEL_MAX) (\<lambda>(ls, s).
          if ln = [] \<and> ls = [] then Inr (Some before)
          else if ln = [] \<and> length after = length n then Inr None
          else rbind (labels_match ln ls) (\<lambda>m.
            if m then change_suffix_loop old_suffix n s (Some before) (Some after)
            else change_suffix_loop old_suffix after old_suffix None None))))"
  by pat_completeness auto
termination
proof (relation "measures [\<lambda>(_, n, _, _, after). search_measure n after, \<lambda>(_, n, _, _, _). length n]", goal_cases)
  case (2 old n s before after before' x ln n' after' y ls s' m)
  then have "ln \<noteq> []" by (auto simp: labels_match_def)
  then have "length n' < length n" using 2 by (auto dest: unescape_progress)
  then show ?case using 2 by (auto simp: search_measure_def split: option.splits)
next
  case (3 old n s before after before' x ln n' after' y ls s' m)
  then show ?case
    using unescape_shorter [of n 63 ln n']
    by (cases after; cases ln) (auto simp: search_measure_def)
qed simp

declare change_suffix_loop.simps [simp del]

definition dns_name_change_suffix :: "alloc \<Rightarrow> cstr \<Rightarrow> cstr \<Rightarrow> cstr \<Rightarrow> cstr option res" where
  "dns_name_change_suffix alloc name old_suffix new_suffix =
     rbind (change_suffix_loop old_suffix name old_suffix None None) (\<lambda>found.
       case found of
         None \<Rightarrow> Inr None
       | Some before \<Rightarrow>
           rbind (dns_name_concat alloc True (Some (take (length name - length before) name)) (Some new_suffix))
             (\<lambda>ret. Inr (Some ret)))"

text \<open>The table of the suffixes of a name: \<open>table ! i\<close> is the name without its first \<open>i\<close> labels.\<close>

function suffix_table_loop :: "cstr \<Rightarrow> nat \<Rightarrow> cstr list res" where
  "suffix_table_loop p n =
     (if DNS_N_LABELS_MAX < n then Inl (Errno EINVAL)
      else rbind (dns_name_parent p) (\<lambda>(label, p').
        if label = [] then Inr [p]
        else rbind (suffix_table_loop p' (n + 1)) (\<lambda>table. Inr (p # table))))"
  by pat_completeness auto
termination
  by (relation "measure (\<lambda>(p, _). length p)") (auto simp: dns_name_parent_def dest: unescape_progress)

declare suffix_table_loop.simps [simp del]

definition dns_name_build_suffix_table :: "cstr \<Rightarrow> (cstr list \<times> nat) res" where
  "dns_name_build_suffix_table name =
     rbind (suffix_table_loop name 0) (\<lambda>table. Inr (table, length table - 1))"

definition dns_name_suffix :: "cstr \<Rightarrow> nat \<Rightarrow> (cstr \<times> nat) res" where
  "dns_name_suffix name n_labels =
     rbind (dns_name_build_suffix_table name) (\<lambda>(labels, n).
       if n < n_labels then Inl (Errno EINVAL) else Inr (labels ! (n - n_labels), n - n_labels))"

fun dns_name_skip :: "cstr \<Rightarrow> nat \<Rightarrow> (cstr \<times> bool) res" where
  "dns_name_skip a 0 = Inr (a, True)"
| "dns_name_skip a (Suc n) =
     rbind (dns_name_parent a) (\<lambda>(label, a). if label = [] then Inr ([], False) else dns_name_skip a n)"

function count_loop :: "cstr \<Rightarrow> nat \<Rightarrow> nat res" where
  "count_loop p n =
     rbind (dns_name_parent p) (\<lambda>(label, p).
       if label = [] then Inr n
       else if DNS_N_LABELS_MAX \<le> n then Inl (Errno EINVAL)
       else count_loop p (n + 1))"
  by pat_completeness auto
termination
  by (relation "measure (\<lambda>(p, _). length p)") (auto simp: dns_name_parent_def dest: unescape_progress)

declare count_loop.simps [simp del]

definition dns_name_count_labels :: "cstr \<Rightarrow> nat res" where
  "dns_name_count_labels name = count_loop name 0"

definition dns_name_equal_skip :: "cstr \<Rightarrow> nat \<Rightarrow> cstr \<Rightarrow> bool res" where
  "dns_name_equal_skip a n_labels b =
     rbind (dns_name_skip a n_labels) (\<lambda>(a, more). if \<not> more then Inr False else dns_name_equal a b)"

function common_suffix_loop :: "cstr list \<Rightarrow> nat \<Rightarrow> cstr list \<Rightarrow> nat \<Rightarrow> nat \<Rightarrow> cstr res" where
  "common_suffix_loop a_labels n b_labels m k =
     (if n \<le> k \<or> m \<le> k then Inr (a_labels ! (n - k))
      else
        rbind (dns_label_unescape (a_labels ! (n - 1 - k)) DNS_LABEL_MAX) (\<lambda>(la, _).
        rbind (dns_label_unescape (b_labels ! (m - 1 - k)) DNS_LABEL_MAX) (\<lambda>(lb, _).
        rbind (labels_match la lb) (\<lambda>same.
          if \<not> same then Inr (a_labels ! (n - k))
          else common_suffix_loop a_labels n b_labels m (k + 1)))))"
  by pat_completeness auto
termination
  by (relation "measure (\<lambda>(_, n, _, m, k). n - k)") auto

declare common_suffix_loop.simps [simp del]

definition dns_name_common_suffix :: "cstr \<Rightarrow> cstr \<Rightarrow> cstr res" where
  "dns_name_common_suffix a b =
     rbind (dns_name_build_suffix_table a) (\<lambda>(a_labels, n).
     rbind (dns_name_build_suffix_table b) (\<lambda>(b_labels, m).
     common_suffix_loop a_labels n b_labels m 0))"

section \<open>Reverse names\<close>

definition dotted :: "cstr list \<Rightarrow> cstr" where
  "dotted ls = concat (map (\<lambda>l. l @ [46]) ls)"

definition dns_name_reverse :: "alloc \<Rightarrow> int \<Rightarrow> in_addr_union \<Rightarrow> cstr res" where
  "dns_name_reverse alloc family a =
     (if family = AF_INET then
        (let p = unaligned_write_be32 (ua_in a);
             s = dotted (map (\<lambda>i. dec (unat (p ! i))) [3, 2, 1, 0]) @ lit ''in-addr.arpa''
         in if alloc (length s + 1) then Inr s else Inl (Errno ENOMEM))
      else if family = AF_INET6 then
        (let p = ua_in6 a;
             s = dotted (concat (map (\<lambda>i. [[hexchar (p ! i AND 0xF)], [hexchar (drop_bit 4 (p ! i))]]) (rev [0..<16])))
                   @ lit ''ip6.arpa''
         in if alloc (length s + 1) then Inr s else Inl (Errno ENOMEM))
      else Inl (Errno EAFNOSUPPORT))"

text \<open>The labels of an IPv4 reverse name, read as C strings from a buffer with room for the NUL.\<close>

fun address4_loop :: "nat \<Rightarrow> cstr \<Rightarrow> (u8 list \<times> cstr) res" where
  "address4_loop 0 p = Inr ([], p)"
| "address4_loop (Suc i) p =
     rbind (dns_label_unescape p (DNS_LABEL_MAX + 1)) (\<lambda>(label, p).
       if label = [] then Inl (Errno EINVAL)
       else if 3 < length label then Inl (Errno EINVAL)
       else rbind (safe_atou8 (takeWhile (\<lambda>c. c \<noteq> 0) label)) (\<lambda>a.
         rbind (address4_loop i p) (\<lambda>(as, p). Inr (a # as, p))))"

text \<open>One hexadecimal digit of an IPv6 reverse name; \<open>None\<close> when the name ends there.\<close>

definition address6_digit :: "cstr \<Rightarrow> (u8 \<times> cstr) option res" where
  "address6_digit p =
     rbind (dns_label_unescape p (DNS_LABEL_MAX + 1)) (\<lambda>(label, p).
       if label = [] then Inr None
       else if length label \<noteq> 1 then Inl (Errno EINVAL)
       else rbind (unhexchar (hd label)) (\<lambda>x. Inr (Some (x, p))))"

fun address6_loop :: "nat \<Rightarrow> cstr \<Rightarrow> (u8 list \<times> cstr) option res" where
  "address6_loop 0 p = Inr (Some ([], p))"
| "address6_loop (Suc i) p =
     rbind (address6_digit p) (\<lambda>d. case d of None \<Rightarrow> Inr None | Some (x, p) \<Rightarrow>
     rbind (address6_digit p) (\<lambda>d. case d of None \<Rightarrow> Inr None | Some (y, p) \<Rightarrow>
     rbind (address6_loop i p) (\<lambda>r. case r of None \<Rightarrow> Inr None | Some (as, p) \<Rightarrow>
       Inr (Some (as @ [push_bit 4 y OR x], p)))))"

definition dns_name_address :: "cstr \<Rightarrow> (int \<times> in_addr_union) option res" where
  "dns_name_address p =
     rbind (dns_name_endswith p (lit ''in-addr.arpa'')) (\<lambda>r.
       if r then
         rbind (address4_loop 4 p) (\<lambda>(a, p).
         rbind (dns_name_equal p (lit ''in-addr.arpa'')) (\<lambda>r.
           if \<not> r then Inr None
           else Inr (Some (AF_INET, \<lparr>ua_in = push_bit 24 (ucast (a ! 3)) OR push_bit 16 (ucast (a ! 2))
                  OR push_bit 8 (ucast (a ! 1)) OR ucast (a ! 0), ua_in6 = []\<rparr>))))
       else rbind (dns_name_endswith p (lit ''ip6.arpa'')) (\<lambda>r.
       if r then
         rbind (address6_loop 16 p) (\<lambda>d. case d of None \<Rightarrow> Inr None | Some (a, p) \<Rightarrow>
         rbind (dns_name_equal p (lit ''ip6.arpa'')) (\<lambda>r.
           if \<not> r then Inr None else Inr (Some (AF_INET6, \<lparr>ua_in = 0, ua_in6 = a\<rparr>))))
       else Inr None))"

section \<open>Wire format\<close>

function wire_loop :: "cstr \<Rightarrow> nat \<Rightarrow> bool \<Rightarrow> u8 list res" where
  "wire_loop domain len canonical =
     (if len = 0 then Inl (Errno ENOBUFS)
      else rbind (dns_label_unescape domain (len - 1)) (\<lambda>(label, domain).
        let out = (if canonical then ascii_strlower_n label else label) in
        if label = [] then Inr [0]
        else rbind (wire_loop domain (len - 1 - length label) canonical) (\<lambda>rest.
          Inr (of_nat (length label) # out @ rest))))"
  by pat_completeness auto
termination
  by (relation "measure (\<lambda>(domain, _, _). length domain)") (auto dest: unescape_progress)

declare wire_loop.simps [simp del]

definition dns_name_to_wire_format :: "cstr \<Rightarrow> nat \<Rightarrow> bool \<Rightarrow> u8 list res" where
  "dns_name_to_wire_format domain len canonical =
     rbind (wire_loop domain len canonical) (\<lambda>out.
       if DNS_HOSTNAME_MAX + 2 < length out then Inl (Errno EINVAL) else Inr out)"

section \<open>Service types and IDNA\<close>

definition srv_type_label_is_valid :: "cstr \<Rightarrow> bool" where
  "srv_type_label_is_valid label \<longleftrightarrow>
     2 \<le> length label \<and> label ! 0 = 95 \<and> (is_upper (label ! 1) \<or> is_lower (label ! 1))
     \<and> list_all (\<lambda>c. is_upper c \<or> is_lower c \<or> is_digit c \<or> c = 45) (drop 2 label)"

function srv_type_loop :: "cstr \<Rightarrow> nat \<Rightarrow> bool" where
  "srv_type_loop name c =
     (case dns_label_unescape name DNS_LABEL_MAX of
        Inl _ \<Rightarrow> False
      | Inr (label, name) \<Rightarrow>
          if label = [] then c = 2
          else if 2 \<le> c then False
          else if \<not> srv_type_label_is_valid label then False
          else srv_type_loop name (c + 1))"
  by pat_completeness auto
termination
  by (relation "measure (\<lambda>(name, _). length name)") (auto dest: unescape_progress)

declare srv_type_loop.simps [simp del]

definition dns_srv_type_is_valid :: "cstr option \<Rightarrow> bool" where
  "dns_srv_type_is_valid name = (case name of None \<Rightarrow> False | Some name \<Rightarrow> srv_type_loop name 0)"

text \<open>
  \<open>apply_label\<close> stands for \<open>dns_label_apply_idna\<close>, which calls libidn; it returns the replacement of a
  label, or \<open>None\<close> when the label needs none.
\<close>

function apply_idna_loop ::
  "alloc \<Rightarrow> (cstr \<Rightarrow> cstr option res) \<Rightarrow> cstr \<Rightarrow> bool \<Rightarrow> cstr \<Rightarrow> u64 \<Rightarrow> (cstr \<times> u64) res" where
  "apply_idna_loop alloc apply_label name first buf allocated =
     rbind (dns_label_unescape name DNS_LABEL_MAX) (\<lambda>(label, name).
       if label = [] then Inr (buf, allocated)
       else rbind (apply_label label) (\<lambda>q.
         rbind (grow alloc True allocated (length buf + (if first then 0 else 1) + DNS_LABEL_ESCAPED_MAX)) (\<lambda>allocated.
         rbind (dns_label_escape (case q of Some l \<Rightarrow> l | None \<Rightarrow> label) DNS_LABEL_ESCAPED_MAX) (\<lambda>e.
         apply_idna_loop alloc apply_label name False (buf @ (if first then [] else [46]) @ e) allocated))))"
  by pat_completeness auto
termination
  by (relation "measure (\<lambda>(_, _, name, _, _, _). length name)") (auto dest: unescape_progress)

declare apply_idna_loop.simps [simp del]

definition dns_name_apply_idna :: "alloc \<Rightarrow> (cstr \<Rightarrow> cstr option res) \<Rightarrow> cstr \<Rightarrow> cstr res" where
  "dns_name_apply_idna alloc apply_label name =
     rbind (apply_idna_loop alloc apply_label name True [] 0) (\<lambda>(buf, allocated).
       if DNS_HOSTNAME_MAX < length buf then Inl (Errno EINVAL)
       else rbind (grow alloc True allocated (length buf + 1)) (\<lambda>_. Inr buf))"

end
