(* ===== verification/Dns_Labels.thy ===== *)
theory Dns_Labels
  imports Dns_Domain "HOL-Library.Sublist"
begin

text \<open>
  What the operations of \<open>Dns_Domain\<close> do to the sequence of labels a name stands for.  \<open>dns_labels\<close> is
  that sequence; escaping and unescaping are inverse to each other, normalisation, comparison, suffix
  search, hashing and the wire format are functions of the labels, and reverse names of addresses are
  read back.
\<close>

section \<open>One label\<close>

lemma decimal_escape_digits:
  "decimal_escape (48 + c div 100) (48 + (c div 10) mod 10) (48 + c mod 10) = unat c"
  and decimal_escape_is_digit: "is_digit (48 + c div 100)" "is_digit (48 + (c div 10) mod 10)" "is_digit (48 + c mod 10)"
proof -
  have c: "unat c < 256" by (rule unat_u8_less)
  have h: "unat c div 100 < 3" using c by (intro less_mult_imp_div_less) simp
  have "unat c div 10 < 26" using c by (intro less_mult_imp_div_less) simp
  then have t: "unat c div 10 mod 256 = unat c div 10" by (intro mod_less) simp
  have a: "unat (48 + c div 100) = 48 + unat c div 100"
    using h by (simp add: unat_word_ariths unat_div)
  have b: "unat (48 + (c div 10) mod 10) = 48 + (unat c div 10) mod 10"
    by (simp add: unat_word_ariths unat_div unat_mod t)
  have d: "unat (48 + c mod 10) = 48 + unat c mod 10"
    by (simp add: unat_word_ariths unat_mod)
  show "is_digit (48 + c div 100)" "is_digit (48 + (c div 10) mod 10)" "is_digit (48 + c mod 10)"
    using h by (simp_all add: between_def word_le_nat_alt a b d)
  have "unat c = unat c div 10 * 10 + unat c mod 10" by (rule div_mult_mod_eq [symmetric])
  moreover have "unat c div 10 = unat c div 100 * 10 + unat c div 10 mod 10"
    using div_mult_mod_eq [of "unat c div 10" 10, symmetric] by (simp only: div_mult2_eq [symmetric]) simp
  ultimately have "unat c = unat c div 100 * 100 + (unat c div 10 mod 10) * 10 + unat c mod 10"
    by linarith
  then show "decimal_escape (48 + c div 100) (48 + (c div 10) mod 10) (48 + c mod 10) = unat c"
    unfolding decimal_escape_def a b d by simp
qed

text \<open>What one character becomes when it is escaped, and that reading it back gives it again.\<close>

definition escaped_char :: "u8 \<Rightarrow> cstr" where
  "escaped_char c =
     (if c = 46 \<or> c = 92 then [92, c]
      else if is_proper c then [c]
      else [92, 48 + c div 100, 48 + (c div 10) mod 10, 48 + c mod 10])"

definition escaped :: "cstr \<Rightarrow> cstr" where
  "escaped l = concat (map escaped_char l)"

lemma escaped_simps [simp]: "escaped [] = []" "escaped (c # l) = escaped_char c @ escaped l"
  by (simp_all add: escaped_def)

lemma is_proper_normal: "is_proper c \<Longrightarrow> 32 \<le> c \<and> c \<noteq> 127 \<and> c \<noteq> 92 \<and> c \<noteq> 46"
  by (auto simp: is_proper_def between_def word_le_nat_alt)

lemma digit_not_special: "is_digit c \<Longrightarrow> c \<noteq> 92 \<and> c \<noteq> 46"
  by (auto simp: between_def word_le_nat_alt)

lemma unescape_escaped_char: "unescape_char (escaped_char c @ s) = Inr (c, s)"
proof -
  have "unat c \<le> 255" using unat_u8_less [of c] by simp
  then show ?thesis
    using decimal_escape_is_digit [of c] digit_not_special [OF decimal_escape_is_digit(1) [of c]] is_proper_normal [of c]
    by (simp add: unescape_char_def escaped_char_def decimal_escape_digits)
qed

lemma escaped_char_hd: "escaped_char c \<noteq> []" "hd (escaped_char c @ s) \<noteq> 46"
  using is_proper_normal [of c] by (auto simp: escaped_char_def)

lemma length_escaped_char: "1 \<le> length (escaped_char c)" "length (escaped_char c) \<le> 4"
  by (simp_all add: escaped_char_def)

lemma length_escaped: "length l \<le> length (escaped l) \<and> length (escaped l) \<le> 4 * length l"
proof (induction l)
  case (Cons c l)
  then show ?case using length_escaped_char [of c] by simp
qed simp

lemma escape_loop_escaped: "length (escaped l) < sz \<Longrightarrow> escape_loop l sz = Inr (escaped l)"
  by (induction l arbitrary: sz) (auto simp: escaped_char_def split: if_splits)

lemma dns_label_escape_escaped:
  assumes "l \<noteq> []" "length l \<le> 63"
  shows "dns_label_escape l 253 = Inr (escaped l)"
proof -
  have "length (escaped l) < 253" using assms length_escaped [of l] by linarith
  then show ?thesis using assms by (simp add: dns_label_escape_def escape_loop_escaped)
qed

lemma unescape_loop_escaped:
  assumes "length l + r \<le> 63" "length l \<le> sz" "rest = [] \<or> hd rest = 46"
  shows "unescape_loop (escaped l @ rest) sz r = Inr (l, tl rest)"
  using assms
proof (induction l arbitrary: sz r)
  case Nil
  then show ?case by (subst unescape_loop.simps) auto
next
  case (Cons c l)
  then show ?case
    using escaped_char_hd(1) [of c] escaped_char_hd(2) [of c "escaped l @ rest"]
    by (subst unescape_loop.simps) (auto simp: unescape_escaped_char)
qed

lemma dns_label_unescape_escaped:
  assumes "l \<noteq> []" "length l \<le> 63" "length l \<le> sz" "rest = [] \<or> hd rest = 46"
  shows "dns_label_unescape (escaped l @ rest) sz = Inr (l, tl rest)"
  using assms unescape_loop_escaped [of l 0 sz rest] by (simp add: dns_label_unescape_def)

lemma unescape_label_bounds:
  "unescape_loop n sz r = Inr (l, n') \<Longrightarrow> r \<le> 63 \<Longrightarrow> length l \<le> sz \<and> length l + r \<le> 63"
proof (induction n sz r arbitrary: l rule: unescape_loop.induct)
  case (1 n sz r)
  then show ?case
    by (subst (asm) (2) unescape_loop.simps)
      (fastforce simp: rbind_Inr_iff split: if_splits)
qed

lemma dns_label_bounds:
  "dns_label_unescape n sz = Inr (l, n') \<Longrightarrow> length l \<le> sz \<and> length l \<le> 63 \<and> (l = [] \<longrightarrow> n' = [])"
  by (auto simp: dns_label_unescape_def rbind_Inr_iff split: if_splits dest: unescape_label_bounds)

section \<open>The labels of a name\<close>

function dns_labels :: "cstr \<Rightarrow> cstr list res" where
  "dns_labels s =
     rbind (dns_label_unescape s DNS_LABEL_MAX) (\<lambda>(l, s).
       if l = [] then Inr [] else rbind (dns_labels s) (\<lambda>ls. Inr (l # ls)))"
  by pat_completeness auto
termination
  by (relation "measure length") (auto dest: unescape_progress)

declare dns_labels.simps [simp del]

definition valid_label :: "cstr \<Rightarrow> bool" where
  "valid_label l \<longleftrightarrow> l \<noteq> [] \<and> length l \<le> 63"

fun join_labels :: "cstr list \<Rightarrow> cstr" where
  "join_labels [] = []"
| "join_labels [l] = escaped l"
| "join_labels (l # ls) = escaped l @ 46 # join_labels ls"

lemma dns_labels_Nil [simp]: "dns_labels [] = Inr []"
  by (subst dns_labels.simps) (simp add: dns_label_unescape_def unescape_loop.simps)

lemma dns_labels_valid: "dns_labels s = Inr ls \<Longrightarrow> list_all valid_label ls"
proof (induction s arbitrary: ls rule: dns_labels.induct)
  case (1 s)
  then show ?case
    by (subst (asm) (2) dns_labels.simps)
      (auto simp: rbind_Inr_iff valid_label_def split: if_splits dest: dns_label_bounds)
qed

lemma dns_labels_join:
  "list_all valid_label ls \<Longrightarrow> rest = [] \<or> rest = [46] \<and> ls \<noteq> [] \<Longrightarrow> dns_labels (join_labels ls @ rest) = Inr ls"
proof (induction ls rule: join_labels.induct)
  case (2 l)
  then show ?case
    using dns_label_unescape_escaped [of l 63 rest]
    by (subst dns_labels.simps) (auto simp: valid_label_def)
next
  case (3 l m ls)
  then show ?case
    using dns_label_unescape_escaped [of l 63 "46 # join_labels (m # ls) @ rest"]
    by (subst dns_labels.simps) (auto simp: valid_label_def)
qed simp

text \<open>A smaller buffer changes nothing unless the label does not fit into it.\<close>

lemma unescape_loop_room:
  "unescape_loop n sz r = Inr (l, n') \<Longrightarrow>
   unescape_loop n sz' r = (if length l \<le> sz' then Inr (l, n') else Inl (Errno ENOBUFS))"
proof (induction n sz r arbitrary: sz' l rule: unescape_loop.induct)
  case (1 n sz r)
  show ?case
  proof (cases "n = [] \<or> hd n = 46")
    case True
    then show ?thesis using 1(2) by (auto simp: unescape_loop.simps [of n])
  next
    case False
    then obtain c m l' where c: "unescape_char n = Inr (c, m)" and r: "\<not> 63 \<le> r" "sz \<noteq> 0"
      and l: "unescape_loop m (sz - 1) (r + 1) = Inr (l', n')" "l = c # l'"
      using 1(2) by (auto simp: unescape_loop.simps [of n] rbind_Inr_iff split: if_splits)
    have "unescape_loop m (sz' - 1) (r + 1) = (if length l' \<le> sz' - 1 then Inr (l', n') else Inl (Errno ENOBUFS))"
      using 1(1) False r c l(1) by auto
    then show ?thesis
      using False c r l(2) by (cases sz') (simp_all add: unescape_loop.simps [of n])
  qed
qed

lemma dns_label_unescape_room:
  assumes "dns_label_unescape n sz = Inr (l, n')"
  shows "dns_label_unescape n sz' = (if length l \<le> sz' then Inr (l, n') else Inl (Errno ENOBUFS))"
proof -
  have "unescape_loop n sz 0 = Inr (l, n')" and "\<not> (l = [] \<and> n' \<noteq> [])"
    using assms by (auto simp: dns_label_unescape_def rbind_Inr_iff split: if_splits)
  then show ?thesis using unescape_loop_room [of n sz 0 l n' sz'] by (auto simp: dns_label_unescape_def)
qed

lemma dns_labels_cases:
  assumes "dns_labels s = Inr ls"
  obtains "dns_label_unescape s 63 = Inr ([], [])" "ls = []"
  | l s' ls' where "dns_label_unescape s 63 = Inr (l, s')" "ls = l # ls'" "dns_labels s' = Inr ls'"
    "l \<noteq> []" "length l \<le> 63" "length s' < length s"
proof -
  obtain l s' where u: "dns_label_unescape s 63 = Inr (l, s')"
    using assms by (subst (asm) dns_labels.simps) (auto simp: rbind_Inr_iff)
  show thesis
    using that assms u dns_label_bounds [OF u] unescape_progress [OF u]
    by (subst (asm) dns_labels.simps) (auto simp: rbind_Inr_iff split: if_splits)
qed

section \<open>Equality and hashing\<close>

abbreviation lower_labels :: "cstr list \<Rightarrow> cstr list" where
  "lower_labels \<equiv> map ascii_strlower_n"

lemma strcasecmp_labels:
  assumes "length a = length b"
  obtains c where "ascii_strcasecmp_n a b (length a) = Inr c" "c = 0 \<longleftrightarrow> ascii_strlower_n a = ascii_strlower_n b"
  using strcasecmp_n_eq_0 [of "length a" a b] assms by auto

lemma lower_eq_length: "ascii_strlower_n a = ascii_strlower_n b \<Longrightarrow> length a = length b"
  by (metis length_strlower)

lemma labels_match_iff [simp]: "labels_match a b = Inr (ascii_strlower_n a = ascii_strlower_n b)"
proof (cases "length a = length b")
  case True
  then show ?thesis by (rule strcasecmp_labels) (simp add: labels_match_def True)
next
  case False
  then show ?thesis using lower_eq_length [of a b] by (auto simp: labels_match_def)
qed

lemma equal_labels:
  "dns_labels x = Inr xs \<Longrightarrow> dns_labels y = Inr ys \<Longrightarrow>
   dns_name_equal x y = Inr (lower_labels xs = lower_labels ys)"
proof (induction x arbitrary: y xs ys rule: measure_induct_rule [where f = length])
  case (less x)
  show ?case
  proof (cases rule: dns_labels_cases [OF less(2)])
    case 1
    then show ?thesis
      by (cases rule: dns_labels_cases [OF less(3)]) (auto simp: dns_name_equal.simps [of x])
  next
    case x: (2 l x' xs')
    show ?thesis
    proof (cases rule: dns_labels_cases [OF less(3)])
      case 1
      then show ?thesis using x by (simp add: dns_name_equal.simps [of x])
    next
      case y: (2 m y' ys')
      have rec: "dns_name_equal x' y' = Inr (lower_labels xs' = lower_labels ys')"
        using less(1) x y by blast
      show ?thesis
      proof (cases "length l = length m")
        case True
        then show ?thesis
          by (rule strcasecmp_labels) (use x y rec True in \<open>auto simp: dns_name_equal.simps [of x]\<close>)
      next
        case False
        then show ?thesis using x y lower_eq_length [of l m] by (auto simp: dns_name_equal.simps [of x])
      qed
    qed
  qed
qed

lemma hash_labels_lower:
  "dns_labels x = Inr xs \<Longrightarrow> hash_labels x = concat (map (\<lambda>l. ascii_strlower_n l @ [0]) xs)"
proof (induction x arbitrary: xs rule: measure_induct_rule [where f = length])
  case (less x)
  show ?case
  proof (cases rule: dns_labels_cases [OF less(2)])
    case 1
    then show ?thesis
      using dns_label_unescape_room [OF 1(1), of 64] by (simp add: hash_labels.simps [of x])
  next
    case (2 l x' xs')
    then show ?thesis
      using dns_label_unescape_room [OF 2(1), of 64] less(1) by (simp add: hash_labels.simps [of x])
  qed
qed

lemma hash_lower: "dns_labels x = Inr xs \<Longrightarrow>
   dns_name_hash_func x = concat (map (\<lambda>l. l @ [0]) (lower_labels xs)) @ [0]"
  by (simp add: dns_name_hash_func_def hash_labels_lower comp_def)

section \<open>Suffix and prefix search\<close>

text \<open>An attempt that has matched its first labels either succeeds or restarts after its first label.\<close>

lemma endswith_exhausted:
  assumes "dns_labels suf = Inr us" "us \<noteq> []"
  shows "endswith_loop suf [] suf None = Inr False"
proof -
  have "dns_label_unescape [] 63 = Inr ([], [])"
    by (simp add: dns_label_unescape_def unescape_loop.simps)
  then show ?thesis
    using assms(2) by (cases rule: dns_labels_cases [OF assms(1)]) (auto simp: endswith_loop.simps [of suf "[]"])
qed

lemma endswith_attempt:
  assumes "dns_labels n = Inr ns" "dns_labels s = Inr ss" "dns_labels suf = Inr us" "ss \<noteq> [] \<longrightarrow> us \<noteq> []"
  shows "endswith_loop suf n s (Some m) =
    (if lower_labels ns = lower_labels ss then Inr True else endswith_loop suf m suf None)"
  using assms
proof (induction n arbitrary: s ns ss rule: measure_induct_rule [where f = length])
  case (less n)
  note unfold = endswith_loop.simps [of suf n s "Some m"]
  show ?case
  proof (cases rule: dns_labels_cases [OF less(2)])
    case n: 1
    show ?thesis
    proof (cases rule: dns_labels_cases [OF less(3)])
      case 1
      then show ?thesis using n by (simp add: unfold)
    next
      case (2 l s' ss')
      then have "endswith_loop suf [] suf None = Inr False"
        using less(4,5) by (intro endswith_exhausted) auto
      then show ?thesis using n 2 lower_eq_length [of "[]" l] by (auto simp: unfold)
    qed
  next
    case n: (2 l n' ns')
    show ?thesis
    proof (cases rule: dns_labels_cases [OF less(3)])
      case 1
      then show ?thesis using n lower_eq_length [of l "[]"] by (auto simp: unfold)
    next
      case s: (2 k s' ss')
      have "endswith_loop suf n' s' (Some m) =
          (if lower_labels ns' = lower_labels ss' then Inr True else endswith_loop suf m suf None)"
        using less(1) n s less(4,5) by auto
      then show ?thesis using n s by (auto simp: unfold)
    qed
  qed
qed

lemma endswith_labels:
  assumes "dns_labels n = Inr ns" "dns_labels suf = Inr us"
  shows "endswith_loop suf n suf None = Inr (suffix (lower_labels us) (lower_labels ns))"
  using assms
proof (induction n arbitrary: ns rule: measure_induct_rule [where f = length])
  case (less n)
  note unfold = endswith_loop.simps [of suf n suf None]
  show ?case
  proof (cases rule: dns_labels_cases [OF less(2)])
    case n: 1
    then show ?thesis by (cases rule: dns_labels_cases [OF less(3)]) (auto simp: unfold)
  next
    case n: (2 l n' ns')
    have rec: "endswith_loop suf n' suf None = Inr (suffix (lower_labels us) (lower_labels ns'))"
      using less(1) n less(3) by blast
    show ?thesis
    proof (cases rule: dns_labels_cases [OF less(3)])
      case 1
      then show ?thesis using n rec lower_eq_length [of l "[]"] by (auto simp: unfold)
    next
      case s: (2 k s' us')
      have "endswith_loop suf n' s' (Some n') =
          (if lower_labels ns' = lower_labels us' then Inr True else endswith_loop suf n' suf None)"
        using n s less(3) by (intro endswith_attempt) auto
      then show ?thesis using n s rec by (auto simp: unfold suffix_Cons)
    qed
  qed
qed

lemma startswith_labels:
  assumes "dns_labels n = Inr ns" "dns_labels p = Inr ps"
  shows "dns_name_startswith n p = Inr (prefix (lower_labels ps) (lower_labels ns))"
  using assms
proof (induction p arbitrary: n ns ps rule: measure_induct_rule [where f = length])
  case (less p)
  note unfold = dns_name_startswith.simps [of n p]
  show ?case
  proof (cases rule: dns_labels_cases [OF less(3)])
    case 1
    then show ?thesis by (simp add: unfold)
  next
    case p: (2 k p' ps')
    show ?thesis
    proof (cases rule: dns_labels_cases [OF less(2)])
      case 1
      then show ?thesis using p by (simp add: unfold)
    next
      case n: (2 l n' ns')
      have rec: "dns_name_startswith n' p' = Inr (prefix (lower_labels ps') (lower_labels ns'))"
        using less(1) n p by blast
      show ?thesis
      proof (cases "length l = length k")
        case True
        then show ?thesis
          by (rule strcasecmp_labels) (use n p rec True in \<open>auto simp: unfold\<close>)
      next
        case False
        then show ?thesis using n p lower_eq_length [of l k] by (auto simp: unfold)
      qed
    qed
  qed
qed

section \<open>The wire format\<close>

definition wire_label :: "cstr \<Rightarrow> u8 list" where
  "wire_label l = of_nat (length l) # l"

definition wire_labels :: "cstr list \<Rightarrow> u8 list" where
  "wire_labels ls = concat (map wire_label ls) @ [0]"

lemma wire_loop_labels:
  assumes "dns_labels s = Inr ls"
  shows "wire_loop s len canonical =
    (if length (wire_labels ls) \<le> len
     then Inr (wire_labels (if canonical then lower_labels ls else ls)) else Inl (Errno ENOBUFS))"
  using assms
proof (induction s arbitrary: ls len rule: measure_induct_rule [where f = length])
  case (less s)
  note unfold = wire_loop.simps [of s len]
  show ?case
  proof (cases rule: dns_labels_cases [OF less(2)])
    case 1
    then show ?thesis
      using dns_label_unescape_room [OF 1(1), of "len - 1"] by (auto simp: unfold wire_labels_def)
  next
    case (2 l s' ls')
    have "wire_loop s' (len - 1 - length l) canonical =
      (if length (wire_labels ls') \<le> len - 1 - length l
       then Inr (wire_labels (if canonical then lower_labels ls' else ls')) else Inl (Errno ENOBUFS))"
      using less(1) 2 by blast
    then show ?thesis
      using 2 dns_label_unescape_room [OF 2(1), of "len - 1"]
      by (auto simp: unfold wire_labels_def wire_label_def)
  qed
qed

section \<open>Concatenation\<close>

definition second_labels :: "cstr option \<Rightarrow> cstr list res" where
  "second_labels b = (case b of None \<Rightarrow> Inr [] | Some b \<Rightarrow> dns_labels b)"

fun append_labels :: "bool \<Rightarrow> cstr \<Rightarrow> cstr list \<Rightarrow> cstr" where
  "append_labels first ret [] = ret"
| "append_labels first ret (l # ls) =
     append_labels False (ret @ (if first then [] else [46]) @ escaped l) ls"

lemma append_labels_append:
  "append_labels first ret (ls @ ms) = append_labels (first \<and> ls = []) (append_labels first ret ls) ms"
  by (induction ls arbitrary: first ret) auto

lemma append_labels_False: "append_labels False ret ls = ret @ concat (map (\<lambda>l. 46 # escaped l) ls)"
  by (induction ls arbitrary: ret) auto

lemma append_labels_join: "append_labels True [] ls = join_labels ls"
proof (induction ls rule: join_labels.induct)
  case (3 l m ls)
  then show ?case by (simp add: append_labels_False)
qed simp_all

lemma append_labels_length: "length ret \<le> length (append_labels first ret ls)"
proof (induction ls arbitrary: first ret)
  case (Cons l ls)
  show ?case using Cons [of "ret @ (if first then [] else [46]) @ escaped l" False] by simp
qed simp

lemma grow_ok:
  assumes "0 < need" "need < 2 ^ 40"
  obtains al where "grow (\<lambda>_. True) want allocated need = Inr al"
proof -
  have u: "unat (of_nat need :: u64) = need"
    using assms by (simp add: unat_of_nat)
  have n0: "(of_nat need :: u64) \<noteq> 0"
    using u assms(1) by (metis neq0_conv unat_0)
  have "unat (of_nat need * 2 :: u64) = need * 2"
    using assms by (simp add: unat_word_ariths u)
  then have "\<not> max (of_nat need * 2) 64 < (of_nat need :: u64)"
    by (simp add: not_less le_max_iff_disj word_le_nat_alt u)
  moreover have "allocated \<noteq> 0" if "(of_nat need :: u64) \<le> allocated"
    using that n0 by auto
  ultimately have "\<exists>al. greedy_realloc (\<lambda>_. True) allocated (of_nat need) 1 = Some al"
    by (auto simp: greedy_realloc_def Let_def)
  then show thesis using that by (cases want) (auto simp: grow_def)
qed

text \<open>
  The loop appends the escaped labels of the first and then of the second string; it stops with the
  error of the first label that is malformed.
\<close>

lemma concat_loop_labels:
  assumes "length ret + 5 * length p + (case b of None \<Rightarrow> 0 | Some b \<Rightarrow> 5 * length b) < 2 ^ 39"
  shows "\<exists>al. concat_loop (\<lambda>_. True) want p b first ret allocated =
    rbind (dns_labels p) (\<lambda>ls. rbind (second_labels b) (\<lambda>ms. Inr (append_labels first ret (ls @ ms), al)))"
  using assms
proof (induction "length p + (case b of None \<Rightarrow> 0 | Some b \<Rightarrow> Suc (length b))"
    arbitrary: p b first ret allocated rule: less_induct)
  case less
  note unfold = concat_loop.simps [of "\<lambda>_. True" want p b first ret allocated] dns_labels.simps [of p]
  show ?case
  proof (cases "dns_label_unescape p 63")
    case (Inl e)
    then show ?thesis by (simp add: unfold)
  next
    case (Inr lp)
    obtain l p' where u: "dns_label_unescape p 63 = Inr (l, p')" using Inr by (cases lp) auto
    note bd = dns_label_bounds [OF u] and sh = unescape_shorter [OF u]
    show ?thesis
    proof (cases "l = []")
      case True
      then have p': "p' = []" using bd by simp
      show ?thesis
      proof (cases b)
        case None
        then show ?thesis using u True p' unfolding unfold by (simp add: second_labels_def)
      next
        case (Some q)
        obtain al where "concat_loop (\<lambda>_. True) want q None first ret allocated =
            rbind (dns_labels q) (\<lambda>ls. rbind (second_labels None) (\<lambda>ms. Inr (append_labels first ret (ls @ ms), al)))"
          using less(1) [of q None ret first allocated] less(2) Some by auto
        then show ?thesis
          using u True p' Some unfolding unfold by (cases "dns_labels q") (auto simp: second_labels_def)
      qed
    next
      case False
      let ?ret = "ret @ (if first then [] else [46]) @ escaped l"
      have len: "length ?ret + 5 * length p' \<le> length ret + 5 * length p"
        using length_escaped [of l] sh False by (cases l) auto
      have "length ret + (if first then 0 else 1) + 253 < 2 ^ 40" using less(2) by simp
      then obtain al where g: "grow (\<lambda>_. True) want allocated (length ret + (if first then 0 else 1) + 253) = Inr al"
        by (rule grow_ok [rotated]) simp_all
      have e: "dns_label_escape l 253 = Inr (escaped l)"
        using False bd by (intro dns_label_escape_escaped) auto
      obtain al' where "concat_loop (\<lambda>_. True) want p' b False ?ret al =
          rbind (dns_labels p') (\<lambda>ls. rbind (second_labels b) (\<lambda>ms. Inr (append_labels False ?ret (ls @ ms), al')))"
        using less(1) [of p' b ?ret False al] less(2) len unescape_progress [OF u False]
        by (auto split: option.splits)
      then show ?thesis
        using u False g e by (cases "dns_labels p'") (auto simp: unfold)
    qed
  qed
qed

lemma concat_labels:
  assumes "5 * length p + (case b of None \<Rightarrow> 0 | Some b \<Rightarrow> 5 * length b) < 2 ^ 39"
  shows "dns_name_concat (\<lambda>_. True) want (Some p) b =
    rbind (dns_labels p) (\<lambda>ls. rbind (second_labels b) (\<lambda>ms.
      let s = join_labels (ls @ ms) in
      if 253 < length s then Inl (Errno EINVAL) else if s = [] then Inr [46] else Inr s))"
proof -
  obtain al where c: "concat_loop (\<lambda>_. True) want p b True [] 0 =
      rbind (dns_labels p) (\<lambda>ls. rbind (second_labels b) (\<lambda>ms. Inr (append_labels True [] (ls @ ms), al)))"
    using concat_loop_labels [of "[]" p b want True 0] assms by auto
  obtain g where g: "grow (\<lambda>_. True) want al 2 = Inr g" using grow_ok [of 2 want al] by auto
  have h: "\<exists>h. grow (\<lambda>_. True) want al (Suc n) = Inr h" if "\<not> 253 < n" for n
    using grow_ok [of "Suc n" want al] that by auto
  show ?thesis
  proof (cases "dns_labels p")
    case (Inr ls)
    show ?thesis
    proof (cases "second_labels b")
      case ms: (Inr ms)
      show ?thesis
        using Inr ms c g h [of "length (join_labels (ls @ ms))"]
        by (auto simp: dns_name_concat_def append_labels_join Let_def)
    qed (simp add: dns_name_concat_def c Inr)
  qed (simp add: dns_name_concat_def c)
qed

lemma join_labels_eq_Nil: "list_all valid_label ls \<Longrightarrow> join_labels ls = [] \<longleftrightarrow> ls = []"
proof (cases ls rule: join_labels.cases)
  case (2 l)
  assume "list_all valid_label ls"
  then show ?thesis using 2 length_escaped [of l] by (cases l) (auto simp: valid_label_def)
qed auto

lemma normalize_labels:
  assumes "length s < 2 ^ 32"
  shows "dns_name_normalize (\<lambda>_. True) s =
    rbind (dns_labels s) (\<lambda>ls.
      if 253 < length (join_labels ls) then Inl (Errno EINVAL)
      else if ls = [] then Inr [46] else Inr (join_labels ls))"
  using concat_labels [of s None True] assms
  by (cases "dns_labels s")
    (auto simp: dns_name_normalize_def second_labels_def Let_def dest: dns_labels_valid join_labels_eq_Nil)

section \<open>Reverse names\<close>

lemma escaped_proper: "list_all is_proper l \<Longrightarrow> escaped l = l"
proof (induction l)
  case (Cons c l)
  then show ?case using is_proper_normal [of c] by (simp add: escaped_char_def)
qed simp

lemma unescape_proper:
  assumes "list_all is_proper l" "l \<noteq> []" "length l \<le> 63" "length l \<le> sz"
  shows "dns_label_unescape (l @ 46 # rest) sz = Inr (l, rest)"
  using dns_label_unescape_escaped [of l sz "46 # rest"] assms by (simp add: escaped_proper)

lemma dotted_Cons: "dotted (l # ls) = l @ 46 # dotted ls"
  by (simp add: dotted_def)

lemma dotted_join:
  "list_all (list_all is_proper) ls \<Longrightarrow> ms \<noteq> [] \<Longrightarrow> dotted ls @ join_labels ms = join_labels (ls @ ms)"
proof (induction ls)
  case (Cons l ls)
  obtain k ks where "ls @ ms = k # ks" using Cons.prems(2) by (cases "ls @ ms") auto
  then show ?case using Cons by (simp add: dotted_Cons escaped_proper)
qed (simp add: dotted_def)

lemma dec_proper: "list_all is_proper (dec n)"
  using dec_digits [of _ n] by (auto simp: list_all_iff is_proper_def)

lemma length_dec: "n < 10 ^ Suc k \<Longrightarrow> length (dec n) \<le> Suc k"
proof (induction k arbitrary: n)
  case 0
  then show ?case by (simp add: dec.simps)
next
  case (Suc k)
  then have "n div 10 < 10 ^ Suc k" by (simp add: less_mult_imp_div_less mult.commute)
  then show ?case using Suc.IH [of "n div 10"] by (simp add: dec.simps [of n])
qed

lemma length_dec_u8: "length (dec (unat (b :: u8))) \<le> 3"
  using length_dec [of "unat b" 2] unat_u8_less [of b] by simp

abbreviation (input) in_addr_arpa :: "cstr list" where "in_addr_arpa \<equiv> [lit ''in-addr'', lit ''arpa'']"
abbreviation (input) ip6_arpa :: "cstr list" where "ip6_arpa \<equiv> [lit ''ip6'', lit ''arpa'']"

lemmas lit_simps = lit_def is_proper_def between_def valid_label_def

lemma arpa_proper:
  "list_all is_proper (lit ''in-addr'')" "list_all is_proper (lit ''arpa'')" "list_all is_proper (lit ''ip6'')"
  by (simp_all add: lit_simps)

lemma arpa_join: "lit ''in-addr.arpa'' = join_labels in_addr_arpa" "lit ''ip6.arpa'' = join_labels ip6_arpa"
  using arpa_proper by (simp_all add: escaped_proper) (simp_all add: lit_def)

lemma arpa_valid: "list_all valid_label in_addr_arpa" "list_all valid_label ip6_arpa"
  by (simp_all add: lit_simps)

lemma arpa_labels:
  "dns_labels (lit ''in-addr.arpa'') = Inr in_addr_arpa" "dns_labels (lit ''ip6.arpa'') = Inr ip6_arpa"
  unfolding arpa_join
  using dns_labels_join [OF arpa_valid(1), of "[]"] dns_labels_join [OF arpa_valid(2), of "[]"] by simp_all

lemma address4_loop_dec:
  "address4_loop (length bs) (dotted (map (\<lambda>b. dec (unat b)) bs) @ rest) = Inr (bs, rest)"
proof (induction bs)
  case (Cons b bs)
  have "dns_label_unescape (dec (unat b) @ 46 # dotted (map (\<lambda>b. dec (unat b)) bs) @ rest) 64 =
      Inr (dec (unat b), dotted (map (\<lambda>b. dec (unat b)) bs) @ rest)"
    using length_dec_u8 [of b] dec_not_Nil [of "unat b"] by (intro unescape_proper dec_proper) auto
  moreover have t: "takeWhile (\<lambda>c. c \<noteq> 0) (dec (unat b)) = dec (unat b)"
    using dec_digits [of 0 "unat b"] by (intro takeWhile_eq_all_conv [THEN iffD2]) (auto simp: between_def)
  moreover have "safe_atou8 (dec (unat b)) = Inr b"
    using safe_atou8_dec [of "unat b"] unat_u8_less [of b] by simp
  ultimately show ?case
    using Cons length_dec_u8 [of b] dec_not_Nil [of "unat b"] by (simp add: dotted_Cons t del: takeWhile_eq_all_conv)
qed (simp add: dotted_def)

lemma hexchar_proper: "is_proper (hexchar x)"
proof -
  have "unhexchar (hexchar x) = Inr (x AND 15)" by (rule unhex_hexchar)
  then show ?thesis
    by (auto simp: unhexchar_def is_proper_def between_def word_le_nat_alt split: if_splits)
qed

definition hex_labels :: "u8 list \<Rightarrow> cstr list" where
  "hex_labels bs = concat (map (\<lambda>b. [[hexchar (b AND 0xF)], [hexchar (drop_bit 4 b)]]) bs)"

lemma address6_digit_hex: "address6_digit (hexchar x # 46 # rest) = Inr (Some (x AND 15, rest))"
  using unescape_proper [of "[hexchar x]" 64 rest]
  by (simp add: address6_digit_def hexchar_proper unhex_hexchar)

lemma address6_loop_hex:
  "address6_loop (length bs) (dotted (hex_labels bs) @ rest) = Inr (Some (rev bs, rest))"
proof (induction bs)
  case (Cons b bs)
  then show ?case
    by (simp add: hex_labels_def dotted_Cons address6_digit_hex nibbles [simplified])
qed (simp add: hex_labels_def dotted_def)

lemma be32_bytes:
  "unaligned_write_be32 w = [a, b, c, d] \<Longrightarrow>
   push_bit 24 (ucast a) OR push_bit 16 (ucast b) OR push_bit 8 (ucast c) OR ucast d = (w :: be32)"
proof -
  assume "unaligned_write_be32 w = [a, b, c, d]"
  then have "w = unaligned_read_be32 a b c d" using be32_of_write [of w "[]"] by simp
  also have "\<dots> = push_bit 24 (ucast a) OR push_bit 16 (ucast b) OR push_bit 8 (ucast c) OR ucast d"
    unfolding unaligned_read_be32_def unaligned_read_be16_def
    by (rule bit_word_eqI)
      (auto simp: bit_or_iff bit_push_bit_iff bit_ucast_iff dest: bit_imp_le_length)
  finally show ?thesis by simp
qed

lemma suffix_two: "suffix [a, b] (xs @ [c, d]) \<longleftrightarrow> a = c \<and> b = d"
  by (auto simp: suffix_def)

lemma reverse4_labels:
  fixes w :: be32
  assumes "unaligned_write_be32 w = [a, b, c, d]"
  defines "ls \<equiv> map (\<lambda>b. dec (unat b)) [d, c, b, a]"
  shows "dns_labels (dotted ls @ lit ''in-addr.arpa'') = Inr (ls @ in_addr_arpa)"
proof -
  have "list_all (list_all is_proper) ls" by (simp add: ls_def dec_proper)
  moreover have "list_all valid_label ls"
    using length_dec_u8 order_trans [OF length_dec_u8, of 63] dec_not_Nil by (simp add: ls_def valid_label_def)
  ultimately show ?thesis
    using dns_labels_join [of "ls @ in_addr_arpa" "[]"] arpa_valid(1) dotted_join [of ls in_addr_arpa]
    by (simp add: arpa_join)
qed

lemma reverse6_labels:
  "dns_labels (dotted (hex_labels bs) @ lit ''ip6.arpa'') = Inr (hex_labels bs @ ip6_arpa)"
proof -
  have "list_all (list_all is_proper) (hex_labels bs)"
    by (induction bs) (simp_all add: hex_labels_def hexchar_proper)
  moreover have "list_all valid_label (hex_labels bs)"
    by (induction bs) (simp_all add: hex_labels_def valid_label_def)
  ultimately show ?thesis
    using dns_labels_join [of "hex_labels bs @ ip6_arpa" "[]"] arpa_valid(2) dotted_join [of "hex_labels bs" ip6_arpa]
    by (simp add: arpa_join)
qed

lemma arpa_lower: "ascii_strlower_n (lit ''in-addr'') \<noteq> ascii_strlower_n (lit ''ip6'')"
  by (simp add: ascii_strlower_n_def lit_def)

lemma reverse_address4:
  assumes "dns_name_reverse alloc AF_INET u = Inr s"
  shows "dns_name_address s = Inr (Some (AF_INET, \<lparr>ua_in = ua_in u, ua_in6 = []\<rparr>))"
proof -
  obtain a b c d where w: "unaligned_write_be32 (ua_in u) = [a, b, c, d]"
    by (simp add: unaligned_write_be32_def unaligned_write_be16_def)
  let ?ls = "map (\<lambda>b. dec (unat b)) [d, c, b, a]"
  have s: "s = dotted ?ls @ lit ''in-addr.arpa''"
    using assms by (auto simp: dns_name_reverse_def w Let_def split: if_splits)
  have "dns_name_endswith s (lit ''in-addr.arpa'') = Inr True"
    unfolding dns_name_endswith_def s endswith_labels [OF reverse4_labels [OF w] arpa_labels(1)]
    by (simp add: suffix_def)
  moreover have "address4_loop 4 s = Inr ([d, c, b, a], lit ''in-addr.arpa'')"
    using address4_loop_dec [of "[d, c, b, a]" "lit ''in-addr.arpa''"]
    by (simp add: s del: address4_loop.simps) (simp add: numeral_eq_Suc)
  moreover have "dns_name_equal (lit ''in-addr.arpa'') (lit ''in-addr.arpa'') = Inr True"
    using equal_labels [OF arpa_labels(1) arpa_labels(1)] by simp
  ultimately show ?thesis
    using be32_bytes [OF w] by (simp add: dns_name_address_def)
qed

lemma reverse_address6:
  assumes "dns_name_reverse alloc AF_INET6 u = Inr s" and "length (ua_in6 u) = 16"
  shows "dns_name_address s = Inr (Some (AF_INET6, \<lparr>ua_in = 0, ua_in6 = ua_in6 u\<rparr>))"
proof -
  let ?bs = "rev (ua_in6 u)"
  have "map (\<lambda>i. [[hexchar (ua_in6 u ! i AND 0xF)], [hexchar (drop_bit 4 (ua_in6 u ! i))]]) (rev [0..<16]) =
      map (\<lambda>b. [[hexchar (b AND 0xF)], [hexchar (drop_bit 4 b)]]) (map (nth (ua_in6 u)) (rev [0..<length (ua_in6 u)]))"
    by (simp add: assms(2))
  also have "map (nth (ua_in6 u)) (rev [0..<length (ua_in6 u)]) = ?bs"
    by (simp only: rev_map [symmetric] map_nth)
  finally have s: "s = dotted (hex_labels ?bs) @ lit ''ip6.arpa''"
    using assms(1) by (auto simp: dns_name_reverse_def hex_labels_def Let_def split: if_splits)
  have no4: "dns_name_endswith s (lit ''in-addr.arpa'') = Inr False"
    unfolding dns_name_endswith_def s endswith_labels [OF reverse6_labels arpa_labels(1)]
    using arpa_lower by (simp add: suffix_two)
  have "dns_name_endswith s (lit ''ip6.arpa'') = Inr True"
    unfolding dns_name_endswith_def s endswith_labels [OF reverse6_labels arpa_labels(2)]
    by (simp add: suffix_two)
  moreover have "address6_loop 16 s = Inr (Some (ua_in6 u, lit ''ip6.arpa''))"
    using address6_loop_hex [of ?bs "lit ''ip6.arpa''"] by (simp add: s assms(2))
  moreover have "dns_name_equal (lit ''ip6.arpa'') (lit ''ip6.arpa'') = Inr True"
    using equal_labels [OF arpa_labels(2) arpa_labels(2)] by simp
  ultimately show ?thesis using no4 by (simp add: dns_name_address_def)
qed

section \<open>Properties\<close>

text \<open>
  C16.  Escaping and unescaping a label are inverse: any non-empty label of at most 63 bytes, whatever
  bytes it holds, is escaped within the 253-byte buffer, and unescaping the result, followed by the end
  of the name or by a dot and further labels, gives the label back and leaves the rest.
\<close>

theorem dns_label_escape_roundtrip:
  assumes "label \<noteq> []" and "length label \<le> 63" and "length label \<le> sz" and "rest = [] \<or> hd rest = 46"
  shows "\<exists>e. dns_label_escape label 253 = Inr e \<and> dns_label_unescape (e @ rest) sz = Inr (label, tl rest)"
  using dns_label_escape_escaped [of label] dns_label_unescape_escaped [of label sz rest] assms by simp

theorem dns_label_escape_roundtrip_witness:
  "\<exists>e. dns_label_escape [46, 0, 92, 65] 253 = Inr e
     \<and> dns_label_unescape (e @ lit ''.com'') 63 = Inr ([46, 0, 92, 65], tl (lit ''.com''))"
  by (rule dns_label_escape_roundtrip) (simp_all add: lit_def)

text \<open>
  C17.  Normalising a name succeeds exactly when its labels are well formed and its escaped form has
  at most 253 characters, and then gives that form (a single dot for the root); the result has the same
  labels, and normalising it again changes nothing.
\<close>

theorem dns_name_normalize_labels:
  assumes "length s < 2 ^ 32"
  shows "dns_name_normalize (\<lambda>_. True) s =
      rbind (dns_labels s) (\<lambda>ls.
        if 253 < length (join_labels ls) then Inl (Errno EINVAL)
        else if ls = [] then Inr [46] else Inr (join_labels ls))
    \<and> (\<forall>t. dns_name_normalize (\<lambda>_. True) s = Inr t \<longrightarrow>
         dns_labels t = dns_labels s \<and> dns_name_normalize (\<lambda>_. True) t = Inr t)"
proof (cases "dns_labels s")
  case (Inl e)
  then show ?thesis using normalize_labels [OF assms] by simp
next
  case (Inr ls)
  have v: "list_all valid_label ls" using Inr by (rule dns_labels_valid)
  have dot: "dns_labels [46] = Inr []" by (simp add: dns_labels.simps dns_label_unescape_def unescape_loop.simps)
  have ls: "dns_labels (join_labels ls) = Inr ls" using dns_labels_join [OF v, of "[]"] by simp
  show ?thesis
    using normalize_labels [OF assms] normalize_labels [of "join_labels ls"] normalize_labels [of "[46]"] Inr ls dot
    by (cases "ls = []") auto
qed

theorem dns_name_normalize_labels_witness:
  "dns_name_normalize (\<lambda>_. True) (lit ''Example.com.'') = Inr (lit ''Example.com'')"
proof -
  have "dns_labels (lit ''Example.com.'') = Inr [lit ''Example'', lit ''com'']"
    by (simp add: dns_labels.simps dns_label_unescape_def unescape_loop.simps unescape_char_def lit_def)
  then show ?thesis
    using dns_name_normalize_labels [of "lit ''Example.com.''"]
    by (simp add: lit_def escaped_char_def is_proper_def between_def)
qed

text \<open>
  C18.  On well-formed names \<open>dns_name_equal\<close> decides equality of the label sequences up to ASCII case,
  \<open>dns_name_endswith\<close> and \<open>dns_name_startswith\<close> decide the suffix and prefix relations on them, and
  equal names feed the same bytes to the hash function, as the hash tables require.
\<close>

theorem dns_name_relations:
  assumes "dns_labels x = Inr xs" and "dns_labels y = Inr ys"
  shows "dns_name_equal x y = Inr (lower_labels xs = lower_labels ys)
    \<and> dns_name_endswith x y = Inr (suffix (lower_labels ys) (lower_labels xs))
    \<and> dns_name_startswith x y = Inr (prefix (lower_labels ys) (lower_labels xs))
    \<and> (dns_name_equal x y = Inr True \<longrightarrow> dns_name_hash_func x = dns_name_hash_func y)"
  using equal_labels [OF assms] endswith_labels [OF assms] startswith_labels [OF assms]
  by (auto simp: dns_name_endswith_def hash_lower [OF assms(1)] hash_lower [OF assms(2)] simp del: map_map)

theorem dns_name_relations_witness:
  "dns_name_equal (lit ''www.Host'') (lit ''HOST'') = Inr False
   \<and> dns_name_endswith (lit ''www.Host'') (lit ''HOST'') = Inr True"
  using dns_name_relations [of "lit ''www.Host''" "[lit ''www'', lit ''Host'']" "lit ''HOST''" "[lit ''HOST'']"]
  by (simp add: dns_labels.simps dns_label_unescape_def unescape_loop.simps unescape_char_def lit_def
      ascii_strlower_n_def ascii_tolower_def between_def suffix_def)

text \<open>
  C19.  The wire format of a well-formed name is the sequence of its labels, each after its length
  byte, closed by a zero byte, in lower case when the canonical form is asked for.  It is refused with
  \<open>-ENOBUFS\<close> exactly when it does not fit into the buffer and with \<open>-EINVAL\<close> when it is longer than 255.
\<close>

theorem dns_name_to_wire_format_labels:
  assumes "dns_labels s = Inr ls"
  shows "dns_name_to_wire_format s len canonical =
    (if len < length (wire_labels ls) then Inl (Errno ENOBUFS)
     else if 255 < length (wire_labels ls) then Inl (Errno EINVAL)
     else Inr (wire_labels (if canonical then lower_labels ls else ls)))"
proof -
  have "length (wire_labels (lower_labels ls)) = length (wire_labels ls)"
    by (induction ls) (simp_all add: wire_labels_def wire_label_def)
  then show ?thesis by (simp add: dns_name_to_wire_format_def wire_loop_labels [OF assms])
qed

theorem dns_name_to_wire_format_labels_witness:
  "dns_name_to_wire_format (lit ''Ab.c'') 16 True = Inr [2, 97, 98, 1, 99, 0]"
  using dns_name_to_wire_format_labels [of "lit ''Ab.c''" "[lit ''Ab'', lit ''c'']" 16 True]
  by (simp add: dns_labels.simps dns_label_unescape_def unescape_loop.simps unescape_char_def lit_def
      ascii_strlower_n_def ascii_tolower_def between_def wire_labels_def wire_label_def)

text \<open>
  C20.  The reverse name built for an IPv4 or IPv6 address is read back as that address.
\<close>

theorem dns_name_reverse_address:
  assumes "dns_name_reverse alloc family u = Inr s" and "family = AF_INET6 \<longrightarrow> length (ua_in6 u) = 16"
  shows "\<exists>v. dns_name_address s = Inr (Some (family, v))
    \<and> (if family = AF_INET then ua_in v = ua_in u else ua_in6 v = ua_in6 u)"
proof -
  have "family = AF_INET \<or> family = AF_INET6"
    using assms(1) by (auto simp: dns_name_reverse_def split: if_splits)
  then show ?thesis
    using reverse_address4 [of alloc u s] reverse_address6 [of alloc u s] assms by auto
qed

theorem dns_name_reverse_address_witness:
  "\<exists>v. dns_name_address (lit ''9.0.168.192.in-addr.arpa'') = Inr (Some (AF_INET, v))
    \<and> (if AF_INET = AF_INET then ua_in v = 0xc0a80009 else ua_in6 v = [])"
  using dns_name_reverse_address [of "\<lambda>_. True" AF_INET "\<lparr>ua_in = 0xc0a80009, ua_in6 = []\<rparr>" "lit ''9.0.168.192.in-addr.arpa''"]
  by (simp add: dns_name_reverse_def unaligned_write_be32_def unaligned_write_be16_def lit_def dotted_def dec.simps)

end
