(* ===== verification/Dhcp_Option.thy ===== *)
theory Dhcp_Option
  imports Prelude
begin

text \<open>
  The DHCPv4 message (\<open>dhcp/dhcp-protocol.h\<close>) and the option codec of \<open>dhcp/dhcp-option.c\<close>:
  appending options to the variable part of a message, with the overload areas \<open>file\<close> and \<open>sname\<close>,
  and parsing them back through a callback.

  \<open>msg_options\<close> is the array \<open>options[0]\<close> at the end of the struct, as long as the memory that was
  allocated or received behind the fixed header.  Lengths and offsets (\<open>size_t\<close>) are natural numbers;
  they are bounded by object sizes, so sums of two of them do not reach \<open>2 ^ 64\<close>.  The one
  subtraction that could go below zero is written with its wrap-around.  An option value is the list
  of its bytes, so \<open>optlen\<close> is its length, and NULL with length 0 is the empty list.
\<close>

section \<open>Data\<close>

record DHCPMessage =
  msg_op :: u8
  msg_htype :: u8
  msg_hlen :: u8
  msg_hops :: u8
  msg_xid :: be32
  msg_secs :: be16
  msg_flags :: be16
  msg_ciaddr :: be32
  msg_yiaddr :: be32
  msg_siaddr :: be32
  msg_giaddr :: be32
  msg_chaddr :: "u8 list"
  msg_sname :: "u8 list"
  msg_file :: "u8 list"
  msg_magic :: be32
  msg_options :: "u8 list"

text \<open>The array fields have the sizes of their declarations.\<close>

definition wf_message :: "DHCPMessage \<Rightarrow> bool" where
  "wf_message m \<longleftrightarrow> length (msg_chaddr m) = 16 \<and> length (msg_sname m) = 64 \<and> length (msg_file m) = 128"

abbreviation (input) sizeof_DHCPMessage :: nat where "sizeof_DHCPMessage \<equiv> 240"
abbreviation (input) DHCP_MAGIC_COOKIE :: u32 where "DHCP_MAGIC_COOKIE \<equiv> 0x63825363"

abbreviation (input) BOOTREQUEST :: u8 where "BOOTREQUEST \<equiv> 1"
abbreviation (input) BOOTREPLY :: u8 where "BOOTREPLY \<equiv> 2"

abbreviation (input) DHCP_DISCOVER :: u8 where "DHCP_DISCOVER \<equiv> 1"
abbreviation (input) DHCP_OFFER :: u8 where "DHCP_OFFER \<equiv> 2"
abbreviation (input) DHCP_REQUEST :: u8 where "DHCP_REQUEST \<equiv> 3"
abbreviation (input) DHCP_DECLINE :: u8 where "DHCP_DECLINE \<equiv> 4"
abbreviation (input) DHCP_ACK :: u8 where "DHCP_ACK \<equiv> 5"
abbreviation (input) DHCP_NAK :: u8 where "DHCP_NAK \<equiv> 6"
abbreviation (input) DHCP_FORCERENEW :: u8 where "DHCP_FORCERENEW \<equiv> 9"

abbreviation (input) DHCP_OVERLOAD_FILE :: u8 where "DHCP_OVERLOAD_FILE \<equiv> 1"
abbreviation (input) DHCP_OVERLOAD_SNAME :: u8 where "DHCP_OVERLOAD_SNAME \<equiv> 2"

abbreviation (input) SD_DHCP_OPTION_PAD :: u8 where "SD_DHCP_OPTION_PAD \<equiv> 0"
abbreviation (input) SD_DHCP_OPTION_SUBNET_MASK :: u8 where "SD_DHCP_OPTION_SUBNET_MASK \<equiv> 1"
abbreviation (input) SD_DHCP_OPTION_ROUTER :: u8 where "SD_DHCP_OPTION_ROUTER \<equiv> 3"
abbreviation (input) SD_DHCP_OPTION_DOMAIN_NAME_SERVER :: u8 where "SD_DHCP_OPTION_DOMAIN_NAME_SERVER \<equiv> 6"
abbreviation (input) SD_DHCP_OPTION_HOST_NAME :: u8 where "SD_DHCP_OPTION_HOST_NAME \<equiv> 12"
abbreviation (input) SD_DHCP_OPTION_DOMAIN_NAME :: u8 where "SD_DHCP_OPTION_DOMAIN_NAME \<equiv> 15"
abbreviation (input) SD_DHCP_OPTION_ROOT_PATH :: u8 where "SD_DHCP_OPTION_ROOT_PATH \<equiv> 17"
abbreviation (input) SD_DHCP_OPTION_INTERFACE_MTU :: u8 where "SD_DHCP_OPTION_INTERFACE_MTU \<equiv> 26"
abbreviation (input) SD_DHCP_OPTION_BROADCAST :: u8 where "SD_DHCP_OPTION_BROADCAST \<equiv> 28"
abbreviation (input) SD_DHCP_OPTION_STATIC_ROUTE :: u8 where "SD_DHCP_OPTION_STATIC_ROUTE \<equiv> 33"
abbreviation (input) SD_DHCP_OPTION_NTP_SERVER :: u8 where "SD_DHCP_OPTION_NTP_SERVER \<equiv> 42"
abbreviation (input) SD_DHCP_OPTION_VENDOR_SPECIFIC :: u8 where "SD_DHCP_OPTION_VENDOR_SPECIFIC \<equiv> 43"
abbreviation (input) SD_DHCP_OPTION_REQUESTED_IP_ADDRESS :: u8 where "SD_DHCP_OPTION_REQUESTED_IP_ADDRESS \<equiv> 50"
abbreviation (input) SD_DHCP_OPTION_IP_ADDRESS_LEASE_TIME :: u8 where "SD_DHCP_OPTION_IP_ADDRESS_LEASE_TIME \<equiv> 51"
abbreviation (input) SD_DHCP_OPTION_OVERLOAD :: u8 where "SD_DHCP_OPTION_OVERLOAD \<equiv> 52"
abbreviation (input) SD_DHCP_OPTION_MESSAGE_TYPE :: u8 where "SD_DHCP_OPTION_MESSAGE_TYPE \<equiv> 53"
abbreviation (input) SD_DHCP_OPTION_SERVER_IDENTIFIER :: u8 where "SD_DHCP_OPTION_SERVER_IDENTIFIER \<equiv> 54"
abbreviation (input) SD_DHCP_OPTION_PARAMETER_REQUEST_LIST :: u8 where "SD_DHCP_OPTION_PARAMETER_REQUEST_LIST \<equiv> 55"
abbreviation (input) SD_DHCP_OPTION_ERROR_MESSAGE :: u8 where "SD_DHCP_OPTION_ERROR_MESSAGE \<equiv> 56"
abbreviation (input) SD_DHCP_OPTION_MAXIMUM_MESSAGE_SIZE :: u8 where "SD_DHCP_OPTION_MAXIMUM_MESSAGE_SIZE \<equiv> 57"
abbreviation (input) SD_DHCP_OPTION_RENEWAL_T1_TIME :: u8 where "SD_DHCP_OPTION_RENEWAL_T1_TIME \<equiv> 58"
abbreviation (input) SD_DHCP_OPTION_REBINDING_T2_TIME :: u8 where "SD_DHCP_OPTION_REBINDING_T2_TIME \<equiv> 59"
abbreviation (input) SD_DHCP_OPTION_VENDOR_CLASS_IDENTIFIER :: u8 where "SD_DHCP_OPTION_VENDOR_CLASS_IDENTIFIER \<equiv> 60"
abbreviation (input) SD_DHCP_OPTION_CLIENT_IDENTIFIER :: u8 where "SD_DHCP_OPTION_CLIENT_IDENTIFIER \<equiv> 61"
abbreviation (input) SD_DHCP_OPTION_FQDN :: u8 where "SD_DHCP_OPTION_FQDN \<equiv> 81"
abbreviation (input) SD_DHCP_OPTION_NEW_TZDB_TIMEZONE :: u8 where "SD_DHCP_OPTION_NEW_TZDB_TIMEZONE \<equiv> 101"
abbreviation (input) SD_DHCP_OPTION_CLASSLESS_STATIC_ROUTE :: u8 where "SD_DHCP_OPTION_CLASSLESS_STATIC_ROUTE \<equiv> 121"
abbreviation (input) SD_DHCP_OPTION_PRIVATE_BASE :: u8 where "SD_DHCP_OPTION_PRIVATE_BASE \<equiv> 224"
abbreviation (input) SD_DHCP_OPTION_PRIVATE_LAST :: u8 where "SD_DHCP_OPTION_PRIVATE_LAST \<equiv> 254"
abbreviation (input) SD_DHCP_OPTION_END :: u8 where "SD_DHCP_OPTION_END \<equiv> 255"

section \<open>Appending\<close>

definition option_append :: "u8 list \<Rightarrow> nat \<Rightarrow> nat \<Rightarrow> u8 \<Rightarrow> u8 list \<Rightarrow> (u8 list \<times> nat) res" where
  "option_append options sz offset code optval =
     (let sz = (if code \<noteq> SD_DHCP_OPTION_END then (if sz = 0 then 2 ^ 64 - 1 else sz - 1) else sz)
      in if code = SD_DHCP_OPTION_PAD \<or> code = SD_DHCP_OPTION_END then
           (if sz < offset + 1 then Inl (Errno ENOBUFS)
            else rbind (buf_write options offset [code]) (\<lambda>options. Inr (options, offset + 1)))
         else
           (if sz < offset + length optval + 2 then Inl (Errno ENOBUFS)
            else rbind (buf_write options offset ([code, of_nat (length optval)] @ optval)) (\<lambda>options.
                 Inr (options, offset + (length optval + 2)))))"

text \<open>
  The three stages of \<open>dhcp_option_append\<close>.  A stage either returns from the function (\<open>Inl\<close>, with the
  function's result) or falls through to the next one with the message and offset so far (\<open>Inr\<close>).
  A failing call leaves what it wrote in the caller's message; every caller drops the message then,
  so the error result carries no message.
\<close>

type_synonym append_result = "(DHCPMessage \<times> nat) res"

definition append_to_options ::
  "DHCPMessage \<Rightarrow> nat \<Rightarrow> nat \<Rightarrow> bool \<Rightarrow> bool \<Rightarrow> u8 \<Rightarrow> u8 list \<Rightarrow> append_result + (DHCPMessage \<times> nat)" where
  "append_to_options m sz offset file sname code optval =
     (if offset < sz then
        (case option_append (msg_options m) sz offset code optval of
           Inr (options, offset') \<Rightarrow> Inl (Inr (m\<lparr>msg_options := options\<rparr>, offset'))
         | Inl r \<Rightarrow>
             if r = Errno ENOBUFS \<and> (file \<or> sname) then
               (case option_append (msg_options m) sz offset SD_DHCP_OPTION_END [] of
                  Inl r \<Rightarrow> Inl (Inl r)
                | Inr (options, offset') \<Rightarrow> Inr (m\<lparr>msg_options := options\<rparr>, sz))
             else Inl (Inl r))
      else Inr (m, offset))"

definition append_to_file ::
  "DHCPMessage \<Rightarrow> nat \<Rightarrow> nat \<Rightarrow> bool \<Rightarrow> u8 \<Rightarrow> u8 list \<Rightarrow> append_result + (DHCPMessage \<times> nat)" where
  "append_to_file m sz offset sname code optval =
     (let file_offset = offset - sz in
      if file_offset < 128 then
        (case option_append (msg_file m) 128 file_offset code optval of
           Inr (file, file_offset') \<Rightarrow> Inl (Inr (m\<lparr>msg_file := file\<rparr>, sz + file_offset'))
         | Inl r \<Rightarrow>
             if r = Errno ENOBUFS \<and> sname then
               (case option_append (msg_options m) sz offset SD_DHCP_OPTION_END [] of
                  Inl r \<Rightarrow> Inl (Inl r)
                | Inr (options, offset') \<Rightarrow> Inr (m\<lparr>msg_options := options\<rparr>, sz + 128))
             else Inl (Inl r))
      else Inr (m, offset))"

definition append_to_sname ::
  "DHCPMessage \<Rightarrow> nat \<Rightarrow> nat \<Rightarrow> bool \<Rightarrow> u8 \<Rightarrow> u8 list \<Rightarrow> append_result + (DHCPMessage \<times> nat)" where
  "append_to_sname m sz offset file code optval =
     (let sname_offset = offset - sz - (if file then 128 else 0) in
      if sname_offset < 64 then
        (case option_append (msg_sname m) 64 sname_offset code optval of
           Inr (sname, sname_offset') \<Rightarrow>
             Inl (Inr (m\<lparr>msg_sname := sname\<rparr>, sz + (if file then 128 else 0) + sname_offset'))
         | Inl r \<Rightarrow> Inl (Inl r))
      else Inr (m, offset))"

definition dhcp_option_append ::
  "DHCPMessage \<Rightarrow> nat \<Rightarrow> nat \<Rightarrow> u8 \<Rightarrow> u8 \<Rightarrow> u8 list \<Rightarrow> append_result" where
  "dhcp_option_append message sz offset overload code optval =
     (let file = (overload AND DHCP_OVERLOAD_FILE \<noteq> 0);
          sname = (overload AND DHCP_OVERLOAD_SNAME \<noteq> 0)
      in case append_to_options message sz offset file sname code optval of
           Inl r \<Rightarrow> r
         | Inr (message, offset) \<Rightarrow>
             (case (if file then append_to_file message sz offset sname code optval
                    else Inr (message, offset)) of
                Inl r \<Rightarrow> r
              | Inr (message, offset) \<Rightarrow>
                  (case (if sname then append_to_sname message sz offset file code optval
                         else Inr (message, offset)) of
                     Inl r \<Rightarrow> r
                   | Inr (message, offset) \<Rightarrow> Inl (Errno ENOBUFS))))"

section \<open>Parsing\<close>

text \<open>
  The out-parameters of \<open>parse_options\<close> and the callback's user data.  \<open>po_error_message\<close> is the
  C string without its terminator.
\<close>

record 'u popts =
  po_overload :: u8
  po_message_type :: u8
  po_error_message :: "u8 list option"
  po_userdata :: 'u

text \<open>
  A callback gets the code and the value bytes, updates the user data and returns 0 (\<open>None\<close>) or a
  negated errno, which the parser ignores; \<open>Inl\<close> is a callback that does not return normally.
\<close>

type_synonym 'u option_cb = "u8 \<Rightarrow> u8 list \<Rightarrow> 'u \<Rightarrow> ('u \<times> errno option) res"

definition ascii_is_valid :: "u8 list \<Rightarrow> bool" where
  "ascii_is_valid str = (\<forall>b \<in> set str. b < 128)"

definition parse_error_message :: "alloc \<Rightarrow> u8 list \<Rightarrow> u8 list res" where
  "parse_error_message alloc option =
     (if option = [] then Inl (Errno EINVAL)
      else if 0 \<in> set (butlast option) then Inl (Errno EINVAL)
      else let string = takeWhile (\<lambda>b. b \<noteq> 0) option in
        if \<not> alloc (length string + 1) then Inl (Errno ENOMEM)
        else if \<not> ascii_is_valid string then Inl (Errno EINVAL)
        else Inr string)"

definition parse_option ::
  "alloc \<Rightarrow> 'u option_cb option \<Rightarrow> bool \<Rightarrow> u8 \<Rightarrow> u8 list \<Rightarrow> 'u popts \<Rightarrow> 'u popts res" where
  "parse_option alloc cb want_overload code option st =
     (if code = SD_DHCP_OPTION_MESSAGE_TYPE then
        (case option of [t] \<Rightarrow> Inr (st\<lparr>po_message_type := t\<rparr>) | _ \<Rightarrow> Inl (Errno EINVAL))
      else if code = SD_DHCP_OPTION_ERROR_MESSAGE then
        rbind (parse_error_message alloc option) (\<lambda>string. Inr (st\<lparr>po_error_message := Some string\<rparr>))
      else if code = SD_DHCP_OPTION_OVERLOAD then
        (case option of
           [o'] \<Rightarrow> Inr (if want_overload then st\<lparr>po_overload := o'\<rparr> else st)
         | _ \<Rightarrow> Inl (Errno EINVAL))
      else
        (case cb of
           None \<Rightarrow> Inr st
         | Some f \<Rightarrow> rbind (f code option (po_userdata st)) (\<lambda>(u, r). Inr (st\<lparr>po_userdata := u\<rparr>))))"

text \<open>
  The loop over the buffer.  The check \<open>offset < buflen\<close> behind the loop of the source cannot
  succeed, since the loop is left only when it fails.
\<close>

function parse_options ::
  "alloc \<Rightarrow> 'u option_cb option \<Rightarrow> bool \<Rightarrow> u8 list \<Rightarrow> nat \<Rightarrow> 'u popts \<Rightarrow> 'u popts res" where
  "parse_options alloc cb want_overload options offset st =
     (if offset < length options then
        (let code = options ! offset; offset1 = offset + 1 in
         if code = SD_DHCP_OPTION_PAD then parse_options alloc cb want_overload options offset1 st
         else if code = SD_DHCP_OPTION_END then Inr st
         else if length options < offset1 + 1 then Inl (Errno ENOBUFS)
         else
           (let len = unat (options ! offset1); offset2 = offset1 + 1 in
            if length options < offset2 + len then Inl (Errno EINVAL)
            else
              rbind (parse_option alloc cb want_overload code (take len (drop offset2 options)) st)
                (\<lambda>st. parse_options alloc cb want_overload options (offset2 + len) st)))
      else Inr st)"
  by pat_completeness auto
termination
  by (relation "measure (\<lambda>(alloc, cb, want_overload, options, offset, st). length options - offset)") auto

declare parse_options.simps [simp del]

definition dhcp_option_parse ::
  "alloc \<Rightarrow> DHCPMessage \<Rightarrow> nat \<Rightarrow> 'u option_cb option \<Rightarrow> 'u \<Rightarrow> (u8 \<times> 'u \<times> u8 list option) res" where
  "dhcp_option_parse alloc message len cb userdata =
     (if len < sizeof_DHCPMessage then Inl (Errno EINVAL)
      else if length (msg_options message) < len - sizeof_DHCPMessage then Inl OutOfBounds
      else
        rbind (parse_options alloc cb True (take (len - sizeof_DHCPMessage) (msg_options message)) 0
                 \<lparr>po_overload = 0, po_message_type = 0, po_error_message = None, po_userdata = userdata\<rparr>) (\<lambda>st.
        rbind (if po_overload st AND DHCP_OVERLOAD_FILE \<noteq> 0
               then parse_options alloc cb False (msg_file message) 0 st else Inr st) (\<lambda>st'.
        rbind (if po_overload st AND DHCP_OVERLOAD_SNAME \<noteq> 0
               then parse_options alloc cb False (msg_sname message) 0 st' else Inr st') (\<lambda>st''.
        if po_message_type st'' = 0 then Inl (Errno ENOMSG)
        else Inr (po_message_type st'', po_userdata st'',
                  if po_message_type st'' = DHCP_NAK \<or> po_message_type st'' = DHCP_DECLINE
                  then po_error_message st'' else None)))))"

section \<open>Reference: the tag-length-value grammar\<close>

text \<open>
  \<open>split_tlv\<close> is the grammar of RFC 2132 on a byte list: pad bytes are skipped, the end byte stops,
  anything else is a code, a length and that many value bytes.  \<open>run_options\<close> feeds a list of options
  to the handler one after the other.
\<close>

fun split_tlv :: "u8 list \<Rightarrow> (u8 \<times> u8 list) list res" where
  "split_tlv [] = Inr []"
| "split_tlv [c] = (if c = SD_DHCP_OPTION_PAD \<or> c = SD_DHCP_OPTION_END then Inr [] else Inl (Errno ENOBUFS))"
| "split_tlv (c # l # rest) =
     (if c = SD_DHCP_OPTION_PAD then split_tlv (l # rest)
      else if c = SD_DHCP_OPTION_END then Inr []
      else if length rest < unat l then Inl (Errno EINVAL)
      else rbind (split_tlv (drop (unat l) rest)) (\<lambda>ts. Inr ((c, take (unat l) rest) # ts)))"

fun run_options ::
  "alloc \<Rightarrow> 'u option_cb option \<Rightarrow> bool \<Rightarrow> (u8 \<times> u8 list) list \<Rightarrow> 'u popts \<Rightarrow> 'u popts res" where
  "run_options alloc cb ov [] st = Inr st"
| "run_options alloc cb ov ((c, v) # ts) st =
     rbind (parse_option alloc cb ov c v st) (\<lambda>st. run_options alloc cb ov ts st)"

definition encode_option :: "u8 \<times> u8 list \<Rightarrow> u8 list" where
  "encode_option t = fst t # of_nat (length (snd t)) # snd t"

definition encode_options :: "(u8 \<times> u8 list) list \<Rightarrow> u8 list" where
  "encode_options ts = concat (map encode_option ts)"

definition valid_option :: "u8 \<times> u8 list \<Rightarrow> bool" where
  "valid_option t \<longleftrightarrow> fst t \<noteq> SD_DHCP_OPTION_PAD \<and> fst t \<noteq> SD_DHCP_OPTION_END \<and> length (snd t) \<le> 255"

section \<open>Parser lemmas\<close>

lemma split_tlv_pad [simp]: "split_tlv (0 # r) = split_tlv r"
  by (cases r) auto

lemma split_tlv_end [simp]: "split_tlv (255 # r) = Inr []"
  by (cases r) auto

lemma split_tlv_short [simp]: "c \<noteq> 0 \<Longrightarrow> c \<noteq> 255 \<Longrightarrow> split_tlv [c] = Inl (Errno ENOBUFS)"
  by simp

lemma split_tlv_opt:
  "c \<noteq> 0 \<Longrightarrow> c \<noteq> 255 \<Longrightarrow> split_tlv (c # r) =
     (case r of [] \<Rightarrow> Inl (Errno ENOBUFS)
      | l # v \<Rightarrow> if length v < unat l then Inl (Errno EINVAL)
               else rbind (split_tlv (drop (unat l) v)) (\<lambda>ts. Inr ((c, take (unat l) v) # ts)))"
  by (cases r) auto

lemma parse_options_past:
  "drop offset options = [] \<Longrightarrow> parse_options alloc cb ov options offset st = Inr st"
  by (subst parse_options.simps) simp

lemma parse_options_at:
  assumes "drop offset options = c # r"
  shows "parse_options alloc cb ov options offset st =
     (if c = 0 then parse_options alloc cb ov options (offset + 1) st
      else if c = 255 then Inr st
      else case r of [] \<Rightarrow> Inl (Errno ENOBUFS)
        | l # v \<Rightarrow> if length v < unat l then Inl (Errno EINVAL)
                 else rbind (parse_option alloc cb ov c (take (unat l) v) st)
                        (\<lambda>st. parse_options alloc cb ov options (Suc (Suc (offset + unat l))) st))"
proof -
  note c = drop_ConsD [OF assms]
  show ?thesis
  proof (cases r)
    case Nil
    with c have "length options \<le> Suc offset" by simp
    with c Nil show ?thesis
      by (subst parse_options.simps) simp
  next
    case (Cons l v)
    then have "drop (Suc offset) options = l # v" using c by simp
    note l = drop_ConsD [OF this]
    moreover have "length v = length options - Suc (Suc offset)"
      using l by auto
    ultimately show ?thesis
      using c Cons by (subst parse_options.simps) (auto simp: Let_def)
  qed
qed

lemma parse_options_iff:
  "parse_options alloc cb ov options offset st = Inr st' \<longleftrightarrow>
     (\<exists>ts. split_tlv (drop offset options) = Inr ts \<and> run_options alloc cb ov ts st = Inr st')"
proof (induction "length options - offset" arbitrary: offset st rule: less_induct)
  case less
  show ?case
  proof (cases "drop offset options")
    case Nil
    then show ?thesis by (simp add: parse_options_past)
  next
    case (Cons c r)
    note c = drop_ConsD [OF this]
    show ?thesis
    proof (cases "c = 0 \<or> c = 255 \<or> r = []")
      case True
      with less [of "offset + 1" st] c Cons show ?thesis
        by (auto simp: parse_options_at)
    next
      case False
      then obtain l v where lv: "r = l # v" by (cases r) auto
      have "drop (unat l) (drop (Suc (Suc offset)) options) = drop (unat l) v"
        using c(3) lv drop_ConsD(3) by metis
      then have rest: "drop (Suc (Suc (offset + unat l))) options = drop (unat l) v"
        by (simp add: add.commute)
      have ih: "parse_options alloc cb ov options (Suc (Suc (offset + unat l))) st2 = Inr st' \<longleftrightarrow>
          (\<exists>ts. split_tlv (drop (unat l) v) = Inr ts \<and> run_options alloc cb ov ts st2 = Inr st')" for st2
        using less [of "Suc (Suc (offset + unat l))" st2] c(1) unfolding rest by simp
      show ?thesis
        unfolding Cons parse_options_at [OF Cons] using False lv
        by (auto simp: split_tlv_opt rbind_Inr_iff ih)
    qed
  qed
qed

lemma unat_length_byte: "n \<le> 255 \<Longrightarrow> unat (of_nat n :: u8) = n"
  by (simp add: unat_of_nat)

lemma split_tlv_encode:
  "list_all valid_option ts \<Longrightarrow> split_tlv (encode_options ts @ 255 # rest) = Inr ts"
proof (induction ts)
  case Nil
  then show ?case by (simp add: encode_options_def)
next
  case (Cons t ts)
  then show ?case
    by (cases t) (simp add: encode_options_def encode_option_def valid_option_def unat_length_byte)
qed

lemma encode_options_append: "encode_options (xs @ ys) = encode_options xs @ encode_options ys"
  by (simp add: encode_options_def)

lemma encode_options_single: "encode_options [t] = encode_option t"
  by (simp add: encode_options_def)

lemma length_encode_option: "length (encode_option t) = length (snd t) + 2"
  by (simp add: encode_option_def)

lemma run_options_append:
  "run_options alloc cb ov (xs @ ys) st =
     rbind (run_options alloc cb ov xs st) (run_options alloc cb ov ys)"
proof (induction xs arbitrary: st)
  case Nil
  then show ?case by simp
next
  case (Cons t xs)
  then show ?case
    by (cases t; cases "parse_option alloc cb ov (fst t) (snd t) st") auto
qed

lemma parse_options_encode:
  assumes "list_all valid_option ts"
  shows "parse_options alloc cb ov (pre @ encode_options ts @ 255 # rest) (length pre) st =
    run_options alloc cb ov ts st"
  using assms
proof (induction ts arbitrary: pre st)
  case Nil
  then show ?case by (simp add: encode_options_def parse_options_at)
next
  case (Cons t ts)
  obtain c v where t: "t = (c, v)" by fastforce
  with Cons.prems have "valid_option (c, v)" and ts: "list_all valid_option ts"
    by simp_all
  then have c: "c \<noteq> 0" "c \<noteq> 255" and v: "unat (of_nat (length v) :: u8) = length v"
    by (simp_all add: valid_option_def unat_length_byte)
  let ?buf = "pre @ encode_options (t # ts) @ 255 # rest"
  have d: "drop (length pre) ?buf = c # of_nat (length v) # v @ encode_options ts @ 255 # rest"
    by (simp add: t encode_options_def encode_option_def)
  have "parse_options alloc cb ov ?buf (Suc (Suc (length pre + length v))) st2 =
      run_options alloc cb ov ts st2" for st2
    using Cons.IH [OF ts, of "pre @ encode_option t" st2]
    by (simp add: t encode_options_def encode_option_def)
  then show ?case
    unfolding parse_options_at [OF d] using c v
    by (cases "parse_option alloc cb ov c v st") (simp_all add: t)
qed

section \<open>Appending lemmas\<close>

lemma option_append_Inr:
  assumes "option_append opts sz off code val = Inr (opts', off')" and "code \<noteq> 0" and "code \<noteq> 255" and "0 < sz"
  shows "off' = off + length val + 2" and "off' < sz" and "length opts' = length opts"
    and "take off' opts' = take off opts @ encode_option (code, val)"
  using assms
  by (auto simp: option_append_def Let_def rbind_Inr_iff encode_option_def
      dest: buf_write_length buf_write_prefix split: if_splits)

lemma option_append_end:
  assumes "option_append opts sz off 255 val = Inr (opts', off')"
  shows "off' = off + 1" and "off' \<le> sz" and "length opts' = length opts"
    and "take off' opts' = take off opts @ [255]"
  using assms
  by (auto simp: option_append_def Let_def rbind_Inr_iff
      dest: buf_write_length buf_write_prefix split: if_splits)

lemma option_append_safe:
  "0 < sz \<Longrightarrow> sz \<le> length opts \<Longrightarrow> option_append opts sz off code val = Inl e \<Longrightarrow> e = Errno ENOBUFS"
  by (auto simp: option_append_def Let_def rbind_Inl_iff buf_write_def split: if_splits)

lemma option_append_length:
  "option_append opts sz off code val = Inr (opts', off') \<Longrightarrow> length opts' = length opts"
  by (auto simp: option_append_def Let_def rbind_Inr_iff dest: buf_write_length split: if_splits)

lemma option_append_offset:
  "0 < sz \<Longrightarrow> option_append opts sz off code val = Inr (opts', off') \<Longrightarrow> off < off' \<and> off' \<le> sz"
  by (auto simp: option_append_def Let_def rbind_Inr_iff split: if_splits)

lemma option_append_no_room:
  assumes "code \<noteq> 0" and "code \<noteq> 255" and "0 < sz" and "sz < off + length val + 3"
  shows "option_append opts sz off code val = Inl (Errno ENOBUFS)"
  using assms by (cases sz) (auto simp: option_append_def Let_def)

text \<open>Without overload the call is \<open>option_append\<close> on the options area.\<close>

lemma dhcp_option_append_plain:
  "dhcp_option_append m sz off 0 code val =
     (if off < sz then
        rbind (option_append (msg_options m) sz off code val)
          (\<lambda>(options, off'). Inr (m\<lparr>msg_options := options\<rparr>, off'))
      else Inl (Errno ENOBUFS))"
  by (auto simp: dhcp_option_append_def append_to_options_def split: sum.splits)

text \<open>\<open>built m off ts\<close>: the options area of \<open>m\<close> holds exactly the options \<open>ts\<close> up to \<open>off\<close>.\<close>

definition built :: "DHCPMessage \<Rightarrow> nat \<Rightarrow> (u8 \<times> u8 list) list \<Rightarrow> bool" where
  "built m off ts \<longleftrightarrow> take off (msg_options m) = encode_options ts"

lemma built_Nil [simp]: "built m 0 []"
  by (simp add: built_def encode_options_def)

lemma dhcp_option_append_built:
  assumes "dhcp_option_append m sz off 0 code val = Inr (m', off')" and "built m off ts"
    and "code \<noteq> 0" and "code \<noteq> 255"
  shows "built m' off' (ts @ [(code, val)])" and "off' = off + length val + 2" and "off' < sz"
    and "length (msg_options m') = length (msg_options m)"
    and "m' = m\<lparr>msg_options := msg_options m'\<rparr>"
  using assms
  by (auto simp: dhcp_option_append_plain rbind_Inr_iff built_def encode_options_append
      encode_options_single dest: option_append_Inr split: if_splits)

lemma dhcp_option_append_close:
  assumes "dhcp_option_append m sz off 0 255 val = Inr (m', off')" and "built m off ts"
  shows "take off' (msg_options m') = encode_options ts @ [255]" and "off' \<le> sz" and "off' = off + 1"
    and "length (msg_options m') = length (msg_options m)"
    and "m' = m\<lparr>msg_options := msg_options m'\<rparr>"
  using assms
  by (auto simp: dhcp_option_append_plain rbind_Inr_iff built_def
      dest: option_append_end split: if_splits)

lemma option_append_bounds:
  assumes "0 < sz" and "sz \<le> length opts"
  shows "option_append opts sz off code val = Inl (Errno ENOBUFS) \<or>
    (\<exists>opts' off'. option_append opts sz off code val = Inr (opts', off') \<and>
       length opts' = length opts \<and> off' \<le> sz)"
proof (cases "option_append opts sz off code val")
  case (Inl e)
  with option_append_safe [OF assms] show ?thesis by simp
next
  case (Inr r)
  then obtain opts' off' where "option_append opts sz off code val = Inr (opts', off')"
    by (cases r) auto
  with assms(1) option_append_length option_append_offset show ?thesis by blast
qed

text \<open>What the stages keep: the array sizes, and an offset inside the areas they use.\<close>

definition append_post :: "DHCPMessage \<Rightarrow> nat \<Rightarrow> DHCPMessage \<times> nat \<Rightarrow> bool" where
  "append_post m bound r \<longleftrightarrow>
     wf_message (fst r) \<and> length (msg_options (fst r)) = length (msg_options m) \<and> snd r \<le> bound"

lemma append_to_options_bounds:
  assumes "wf_message m" and "sz \<le> length (msg_options m)"
  shows "case append_to_options m sz off file sname code val of
      Inl (Inl e) \<Rightarrow> e = Errno ENOBUFS
    | Inl (Inr r) \<Rightarrow> append_post m sz r
    | Inr r \<Rightarrow> append_post m (max off sz) r"
proof (cases "off < sz")
  case True
  then have "0 < sz" by simp
  note b = option_append_bounds [OF this assms(2), of off code val]
    option_append_bounds [OF this assms(2), of off 255 "[]"]
  show ?thesis
    using b True assms
    by (auto simp: append_to_options_def append_post_def wf_message_def)
next
  case False
  then show ?thesis using assms by (simp add: append_to_options_def append_post_def)
qed

lemma append_to_file_bounds:
  assumes "wf_message m" and "sz \<le> length (msg_options m)" and "sz \<le> off"
  shows "case append_to_file m sz off sname code val of
      Inl (Inl e) \<Rightarrow> e = Errno ENOBUFS
    | Inl (Inr r) \<Rightarrow> append_post m (sz + 128) r
    | Inr r \<Rightarrow> append_post m off r"
proof -
  have f: "length (msg_file m) = 128" using assms(1) by (simp add: wf_message_def)
  have no_end: "option_append (msg_options m) sz off 255 [] = Inl (Errno ENOBUFS)"
    using assms(3) by (simp add: option_append_def Let_def)
  show ?thesis
    using option_append_bounds [of 128 "msg_file m" "off - sz" code val] f no_end assms
    by (auto simp: append_to_file_def append_post_def wf_message_def Let_def)
qed

lemma append_to_sname_bounds:
  assumes "wf_message m"
  shows "case append_to_sname m sz off file code val of
      Inl (Inl e) \<Rightarrow> e = Errno ENOBUFS
    | Inl (Inr r) \<Rightarrow> append_post m (sz + 128 + 64) r
    | Inr r \<Rightarrow> append_post m off r"
proof -
  have f: "length (msg_sname m) = 64" using assms(1) by (simp add: wf_message_def)
  show ?thesis
    using option_append_bounds [of 64 "msg_sname m" "off - sz - (if file then 128 else 0)" code val] f assms
    by (auto simp: append_to_sname_def append_post_def wf_message_def Let_def)
qed

section \<open>Handlers that keep an invariant\<close>

text \<open>
  The interface between the parser and its callers: a handler of single options that keeps an
  invariant of the user data.  Whatever the bytes on the wire are, parsing then keeps it too.
\<close>

locale option_handler =
  fixes cb :: "u8 \<Rightarrow> u8 list \<Rightarrow> 'u \<Rightarrow> ('u \<times> errno option) res"
    and inv :: "'u \<Rightarrow> bool"
  assumes cb_inv: "inv u \<Longrightarrow> cb code data u = Inr (u', r) \<Longrightarrow> inv u'"
begin

lemma parse_option_inv:
  "inv (po_userdata st) \<Longrightarrow> parse_option alloc (Some cb) ov code data st = Inr st' \<Longrightarrow> inv (po_userdata st')"
  by (auto simp: parse_option_def rbind_Inr_iff dest: cb_inv split: if_splits list.splits)

lemma run_options_inv:
  "inv (po_userdata st) \<Longrightarrow> run_options alloc (Some cb) ov ts st = Inr st' \<Longrightarrow> inv (po_userdata st')"
proof (induction ts arbitrary: st)
  case Nil
  then show ?case by simp
next
  case (Cons t ts)
  then show ?case
    by (cases t) (auto simp: rbind_Inr_iff dest: parse_option_inv)
qed

lemma parse_options_inv:
  "inv (po_userdata st) \<Longrightarrow> parse_options alloc (Some cb) ov options off st = Inr st' \<Longrightarrow>
    inv (po_userdata st')"
  by (auto simp: parse_options_iff dest: run_options_inv)

lemma dhcp_option_parse_inv:
  assumes "inv u" and "dhcp_option_parse alloc m len (Some cb) u = Inr (t, u', e)"
  shows "inv u'"
  using assms
  by (auto simp: dhcp_option_parse_def rbind_Inr_iff split: if_splits
      dest!: parse_options_inv [rotated])

end

section \<open>Properties\<close>


text \<open>Appending a list of options one after the other, without overload.\<close>

fun append_all :: "DHCPMessage \<Rightarrow> nat \<Rightarrow> nat \<Rightarrow> (u8 \<times> u8 list) list \<Rightarrow> append_result" where
  "append_all m sz off [] = Inr (m, off)"
| "append_all m sz off ((c, v) # ts) =
     rbind (dhcp_option_append m sz off 0 c v) (\<lambda>(m, off). append_all m sz off ts)"

lemma append_all_built:
  "append_all m sz off ts = Inr (m', off') \<Longrightarrow> built m off xs \<Longrightarrow> list_all valid_option ts \<Longrightarrow>
    built m' off' (xs @ ts)"
proof (induction ts arbitrary: m off xs)
  case Nil
  then show ?case by simp
next
  case (Cons t ts)
  obtain c v where t: "t = (c, v)" by fastforce
  with Cons.prems obtain m1 off1 where
    a: "dhcp_option_append m sz off 0 c v = Inr (m1, off1)" and rest: "append_all m1 sz off1 ts = Inr (m', off')"
    by (auto simp: rbind_Inr_iff)
  have "built m1 off1 (xs @ [(c, v)])"
    using Cons.prems(2,3) t dhcp_option_append_built(1) [OF a] by (simp add: valid_option_def)
  from Cons.IH [OF rest this] Cons.prems(3) t show ?case by simp
qed


definition blank_message :: "nat \<Rightarrow> DHCPMessage" where
  "blank_message n = \<lparr>msg_op = 0, msg_htype = 0, msg_hlen = 0, msg_hops = 0, msg_xid = 0, msg_secs = 0,
     msg_flags = 0, msg_ciaddr = 0, msg_yiaddr = 0, msg_siaddr = 0, msg_giaddr = 0,
     msg_chaddr = replicate 16 0, msg_sname = replicate 64 0, msg_file = replicate 128 0,
     msg_magic = 0, msg_options = replicate n 0\<rparr>"

lemma wf_blank_message [simp]: "wf_message (blank_message n)"
  by (simp add: blank_message_def wf_message_def)

lemma length_blank_message [simp]: "length (msg_options (blank_message n)) = n"
  by (simp add: blank_message_def)


lemma dhcp_option_append_bounds:
  assumes "wf_message m" and "sz \<le> length (msg_options m)"
  shows "case dhcp_option_append m sz off overload code val of
      Inl e \<Rightarrow> e = Errno ENOBUFS
    | Inr (m', off') \<Rightarrow>
        wf_message m' \<and> length (msg_options m') = length (msg_options m) \<and> off' \<le> sz + 128 + 64"
proof -
  let ?f = "overload AND DHCP_OVERLOAD_FILE \<noteq> 0" and ?s = "overload AND DHCP_OVERLOAD_SNAME \<noteq> 0"
  note stage1 = append_to_options_bounds [OF assms, of off ?f ?s code val]
  show ?thesis
  proof (cases "append_to_options m sz off ?f ?s code val")
    case (Inl r)
    with stage1 show ?thesis
      by (auto simp: dhcp_option_append_def append_post_def Let_def split: sum.splits)
  next
    case (Inr r)
    obtain m1 off1 where r: "r = (m1, off1)" by fastforce
    with stage1 Inr have w1: "wf_message m1" and l1: "length (msg_options m1) = length (msg_options m)"
      by (auto simp: append_post_def)
    have s1: "sz \<le> length (msg_options m1)" and off1: "sz \<le> off1"
      using Inr r l1 assms(2) by (auto simp: append_to_options_def split: if_splits sum.splits)
    define x2 where "x2 = (if ?f then append_to_file m1 sz off1 ?s code val else Inr (m1, off1))"
    have stage2: "case x2 of Inl (Inl e) \<Rightarrow> e = Errno ENOBUFS
      | Inl (Inr r) \<Rightarrow> append_post m1 (sz + 128) r | Inr r \<Rightarrow> append_post m1 off1 r"
      using append_to_file_bounds [OF w1 s1 off1, of ?s code val] w1
      by (simp add: x2_def append_post_def)
    have unfold: "dhcp_option_append m sz off overload code val =
      (case x2 of Inl r \<Rightarrow> r | Inr (m2, off2) \<Rightarrow>
         (case (if ?s then append_to_sname m2 sz off2 ?f code val else Inr (m2, off2)) of
            Inl r \<Rightarrow> r | Inr (m3, off3) \<Rightarrow> Inl (Errno ENOBUFS)))"
      using Inr r by (simp add: dhcp_option_append_def x2_def Let_def)
    show ?thesis
    proof (cases x2)
      case (Inl r2)
      with stage2 unfold l1 show ?thesis by (auto simp: append_post_def split: sum.splits)
    next
      case (Inr r2)
      obtain m2 off2 where r2: "r2 = (m2, off2)" by fastforce
      with stage2 Inr have w2: "wf_message m2" and l2: "length (msg_options m2) = length (msg_options m1)"
        by (auto simp: append_post_def)
      show ?thesis
        using append_to_sname_bounds [OF w2, of sz off2 ?f code val] unfold Inr r2 l1 l2
        by (auto simp: append_post_def split: sum.splits if_splits)
    qed
  qed
qed



text \<open>
  C7.  With both overload areas in use, an option that no longer fits the \<open>file\<close> area is refused with
  \<open>-ENOBUFS\<close> although the \<open>sname\<close> area is still free: the end marker that should close \<open>file\<close> is
  appended to the full options area instead, which always fails.
\<close>

theorem file_overflow_never_reaches_sname:
  assumes "overload AND DHCP_OVERLOAD_FILE \<noteq> 0"
    and "code \<noteq> SD_DHCP_OPTION_PAD" and "code \<noteq> SD_DHCP_OPTION_END"
    and "sz \<le> off" and "off < sz + 128" and "sz + 125 < off + length val"
  shows "dhcp_option_append m sz off overload code val = Inl (Errno ENOBUFS)"
proof -
  have "option_append (msg_file m) 128 (off - sz) code val = Inl (Errno ENOBUFS)"
    using assms by (intro option_append_no_room) auto
  moreover have "option_append (msg_options m) sz off 255 [] = Inl (Errno ENOBUFS)"
    using assms(4) by (simp add: option_append_def Let_def)
  ultimately show ?thesis
    using assms
    by (auto simp: dhcp_option_append_def append_to_options_def append_to_file_def Let_def)
qed

theorem file_overflow_never_reaches_sname_witness:
  "dhcp_option_append (blank_message 3) 3 3 3 12 (replicate 126 97) = Inl (Errno ENOBUFS)"
  by (rule file_overflow_never_reaches_sname) simp_all

end
