(* ===== verification/Dhcp_Packet.thy ===== *)
theory Dhcp_Packet
  imports Dhcp_Option
begin

text \<open>
  IP and UDP headers around a DHCP message (\<open>dhcp/dhcp-packet.c\<close>): initialising a message, the
  Internet checksum, filling in the headers of an outgoing packet and verifying those of an incoming
  one.  \<open>packet_bytes\<close> is the packet as it lies in memory; the checksum reads it byte by byte, with
  the multi-byte loads of a little-endian host.
\<close>

section \<open>Data\<close>

record iphdr =
  ip_version :: u8
  ip_ihl :: u8
  ip_tos :: u8
  ip_tot_len :: be16
  ip_id :: be16
  ip_frag_off :: be16
  ip_ttl :: u8
  ip_protocol :: u8
  ip_check :: be16
  ip_saddr :: be32
  ip_daddr :: be32

record udphdr =
  udp_source :: be16
  udp_dest :: be16
  udp_len :: be16
  udp_check :: be16

record DHCPPacket =
  pkt_ip :: iphdr
  pkt_udp :: udphdr
  pkt_dhcp :: DHCPMessage

abbreviation (input) DHCP_IP_SIZE :: nat where "DHCP_IP_SIZE \<equiv> 20"
abbreviation (input) DHCP_IP_UDP_SIZE :: nat where "DHCP_IP_UDP_SIZE \<equiv> 28"
abbreviation (input) sizeof_DHCPPacket :: nat where "sizeof_DHCPPacket \<equiv> 268"
abbreviation (input) DHCP_PORT_SERVER :: u16 where "DHCP_PORT_SERVER \<equiv> 67"
abbreviation (input) DHCP_PORT_CLIENT :: u16 where "DHCP_PORT_CLIENT \<equiv> 68"
abbreviation (input) ARPHRD_ETHER :: u16 where "ARPHRD_ETHER \<equiv> 1"
abbreviation (input) ARPHRD_INFINIBAND :: u16 where "ARPHRD_INFINIBAND \<equiv> 32"
abbreviation (input) IPVERSION :: u8 where "IPVERSION \<equiv> 4"
abbreviation (input) IPTOS_CLASS_CS6 :: u8 where "IPTOS_CLASS_CS6 \<equiv> 0xc0"
abbreviation (input) IPPROTO_UDP :: u8 where "IPPROTO_UDP \<equiv> 17"
abbreviation (input) IPDEFTTL :: u8 where "IPDEFTTL \<equiv> 64"

text \<open>The two nibbles of the first byte of an IP header are four-bit fields of the struct.\<close>

definition wf_packet :: "DHCPPacket \<Rightarrow> bool" where
  "wf_packet p \<longleftrightarrow> wf_message (pkt_dhcp p) \<and> ip_version (pkt_ip p) < 16 \<and> ip_ihl (pkt_ip p) < 16"

section \<open>The memory image\<close>

definition ip_bytes :: "iphdr \<Rightarrow> u8 list" where
  "ip_bytes ip =
     [push_bit 4 (ip_version ip) OR ip_ihl ip, ip_tos ip] @
     unaligned_write_be16 (ip_tot_len ip) @ unaligned_write_be16 (ip_id ip) @
     unaligned_write_be16 (ip_frag_off ip) @ [ip_ttl ip, ip_protocol ip] @
     unaligned_write_be16 (ip_check ip) @ unaligned_write_be32 (ip_saddr ip) @
     unaligned_write_be32 (ip_daddr ip)"

definition udp_bytes :: "udphdr \<Rightarrow> u8 list" where
  "udp_bytes udp =
     unaligned_write_be16 (udp_source udp) @ unaligned_write_be16 (udp_dest udp) @
     unaligned_write_be16 (udp_len udp) @ unaligned_write_be16 (udp_check udp)"

definition message_bytes :: "DHCPMessage \<Rightarrow> u8 list" where
  "message_bytes m =
     [msg_op m, msg_htype m, msg_hlen m, msg_hops m] @ unaligned_write_be32 (msg_xid m) @
     unaligned_write_be16 (msg_secs m) @ unaligned_write_be16 (msg_flags m) @
     unaligned_write_be32 (msg_ciaddr m) @ unaligned_write_be32 (msg_yiaddr m) @
     unaligned_write_be32 (msg_siaddr m) @ unaligned_write_be32 (msg_giaddr m) @
     msg_chaddr m @ msg_sname m @ msg_file m @ unaligned_write_be32 (msg_magic m) @ msg_options m"

definition packet_bytes :: "DHCPPacket \<Rightarrow> u8 list" where
  "packet_bytes p = ip_bytes (pkt_ip p) @ udp_bytes (pkt_udp p) @ message_bytes (pkt_dhcp p)"

lemma length_ip_bytes [simp]: "length (ip_bytes ip) = 20"
  by (simp add: ip_bytes_def)

lemma length_udp_bytes [simp]: "length (udp_bytes udp) = 8"
  by (simp add: udp_bytes_def)

lemma length_message_bytes: "wf_message m \<Longrightarrow> length (message_bytes m) = 240 + length (msg_options m)"
  by (simp add: message_bytes_def wf_message_def)

lemma length_packet_bytes: "wf_packet p \<Longrightarrow> length (packet_bytes p) = 268 + length (msg_options (pkt_dhcp p))"
  by (simp add: packet_bytes_def wf_packet_def length_message_bytes)

section \<open>Operations\<close>

definition dhcp_message_init ::
  "DHCPMessage \<Rightarrow> u8 \<Rightarrow> u32 \<Rightarrow> u8 \<Rightarrow> u16 \<Rightarrow> nat \<Rightarrow> (DHCPMessage \<times> nat) res" where
  "dhcp_message_init message op' xid type arp_type optlen =
     (if \<not> (op' = BOOTREQUEST \<or> op' = BOOTREPLY) then Inl Abort
      else if \<not> (arp_type = ARPHRD_ETHER \<or> arp_type = ARPHRD_INFINIBAND) then Inl Abort
      else
        (let message = message\<lparr>msg_op := op', msg_htype := ucast arp_type,
               msg_hlen := (if arp_type = ARPHRD_ETHER then 6 else 0),
               msg_xid := xid, msg_magic := DHCP_MAGIC_COOKIE\<rparr>
         in dhcp_option_append message optlen 0 0 SD_DHCP_OPTION_MESSAGE_TYPE [type]))"

text \<open>A load of up to eight bytes on a little-endian host.\<close>

fun le_nat :: "u8 list \<Rightarrow> nat" where
  "le_nat [] = 0"
| "le_nat (b # bs) = unat b + 256 * le_nat bs"

definition load64 :: "u8 list \<Rightarrow> u64" where
  "load64 bs = of_nat (le_nat bs)"

definition add_carry :: "u64 \<Rightarrow> u64 \<Rightarrow> u64" where
  "add_carry acc w = (let acc = acc + w in if acc < w then acc + 1 else acc)"

fun checksum_loop :: "nat \<Rightarrow> u8 list \<Rightarrow> u64 \<Rightarrow> u64" where
  "checksum_loop 0 buf acc = acc"
| "checksum_loop (Suc n) buf acc = checksum_loop n (drop 8 buf) (add_carry acc (load64 (take 8 buf)))"

function checksum_fold :: "u64 \<Rightarrow> u64" where
  "checksum_fold acc =
     (if drop_bit 16 acc \<noteq> 0 then checksum_fold ((acc AND 0xffff) + drop_bit 16 acc) else acc)"
  by pat_completeness auto

lemma unat_low16: "unat ((w :: u64) AND 0xffff) = unat w mod 65536"
proof -
  have "(0xffff :: u64) = mask 16" by (simp add: mask_eq_exp_minus_1)
  then have "w AND 0xffff = take_bit 16 w" by (simp only: take_bit_eq_mask)
  then have "unat (w AND 0xffff) = take_bit 16 (unat w)" by (simp only: unsigned_take_bit_eq)
  then show ?thesis by (simp add: take_bit_eq_mod)
qed

lemma unat_high48: "unat (drop_bit 16 (w :: u64)) = unat w div 65536"
  by (simp only: unat_drop_bit_eq) (simp add: drop_bit_eq_div)

lemma unat_u64_less: "unat (w :: u64) < 18446744073709551616"
  using unsigned_less [of w] by simp

lemma fold_step_unat:
  "unat (((acc :: u64) AND 0xffff) + drop_bit 16 acc) = unat acc mod 65536 + unat acc div 65536"
proof -
  have "unat acc div 65536 < 281474976710656"
    using unat_u64_less [of acc] by (intro less_mult_imp_div_less) simp
  moreover have "unat acc mod 65536 < 65536" by simp
  ultimately have "unat acc mod 65536 + unat acc div 65536 < 18446744073709551616" by linarith
  then show ?thesis by (simp only: unat_word_ariths unat_low16 unat_high48) simp
qed

termination checksum_fold
proof (relation "measure unat")
  fix acc :: u64
  assume "drop_bit 16 acc \<noteq> 0"
  then have "unat acc div 65536 \<noteq> 0"
    by (simp only: unat_high48 [symmetric] unsigned_eq_0_iff not_False_eq_True)
  moreover have "65536 * (unat acc div 65536) + unat acc mod 65536 = unat acc"
    by (rule mult_div_mod_eq)
  ultimately have "unat acc mod 65536 + unat acc div 65536 < unat acc" by linarith
  then show "((acc AND 0xffff) + drop_bit 16 acc, acc) \<in> measure unat"
    by (simp only: fold_step_unat in_measure)
qed simp

declare checksum_fold.simps [simp del]

text \<open>
  \<open>buf\<close> is the memory from the argument pointer to the end of the object; reading past it is an error.
\<close>

definition dhcp_packet_checksum :: "u8 list \<Rightarrow> nat \<Rightarrow> u16 res" where
  "dhcp_packet_checksum buf len =
     (if length buf < len then Inl OutOfBounds
      else
        (let acc = checksum_loop (len div 8) buf 0;
             acc = (if len mod 8 \<noteq> 0
                    then add_carry acc (load64 (take (len mod 8) (drop (8 * (len div 8)) buf)))
                    else acc)
         in Inr (ucast (NOT (checksum_fold acc)))))"

text \<open>Storing a host-order 16-bit value in a big-endian field: its low byte comes first in memory.\<close>

definition store16 :: "u16 \<Rightarrow> be16" where
  "store16 w = unaligned_read_be16 (ucast w) (ucast (drop_bit 8 w))"

text \<open>A \<open>size_t\<close> difference, with the wrap-around of the conversion from a negative int.\<close>

definition size_diff :: "nat \<Rightarrow> nat \<Rightarrow> nat" where
  "size_diff a b = (if b \<le> a then a - b else 2 ^ 64 - (b - a))"

definition dhcp_packet_append_ip_headers ::
  "DHCPPacket \<Rightarrow> be32 \<Rightarrow> u16 \<Rightarrow> be32 \<Rightarrow> u16 \<Rightarrow> u16 \<Rightarrow> DHCPPacket res" where
  "dhcp_packet_append_ip_headers packet source_addr source_port destination_addr destination_port len =
     (let ip = (pkt_ip packet)\<lparr>ip_version := IPVERSION, ip_ihl := 5, ip_tot_len := len,
            ip_tos := IPTOS_CLASS_CS6, ip_protocol := IPPROTO_UDP,
            ip_saddr := source_addr, ip_daddr := destination_addr\<rparr>;
          udp = (pkt_udp packet)\<lparr>udp_source := source_port, udp_dest := destination_port,
            udp_len := len - 20\<rparr>;
          packet = packet\<lparr>pkt_ip := ip\<lparr>ip_check := udp_len udp\<rparr>, pkt_udp := udp\<rparr>
      in rbind (dhcp_packet_checksum (drop 8 (packet_bytes packet)) (size_diff (unat len) 8)) (\<lambda>check.
         let packet = packet\<lparr>pkt_udp := udp\<lparr>udp_check := store16 check\<rparr>,
               pkt_ip := ip\<lparr>ip_ttl := IPDEFTTL, ip_check := 0\<rparr>\<rparr>
         in rbind (dhcp_packet_checksum (packet_bytes packet) DHCP_IP_SIZE) (\<lambda>check.
            Inr (packet\<lparr>pkt_ip := (pkt_ip packet)\<lparr>ip_check := store16 check\<rparr>\<rparr>))))"

definition dhcp_packet_verify_headers :: "DHCPPacket \<Rightarrow> nat \<Rightarrow> bool \<Rightarrow> DHCPPacket res" where
  "dhcp_packet_verify_headers packet len checksum =
     (if ip_version (pkt_ip packet) \<noteq> IPVERSION then Inl (Errno EINVAL)
      else if ip_ihl (pkt_ip packet) < 5 then Inl (Errno EINVAL)
      else let hdrlen = unat (ip_ihl (pkt_ip packet)) * 4 in
      if hdrlen < 20 then Inl (Errno EINVAL)
      else if len < hdrlen then Inl (Errno EINVAL)
      else if ip_protocol (pkt_ip packet) \<noteq> IPPROTO_UDP then Inl (Errno EINVAL)
      else if len < hdrlen + unat (udp_len (pkt_udp packet)) then Inl (Errno EINVAL)
      else if udp_dest (pkt_udp packet) \<noteq> DHCP_PORT_CLIENT then Inl (Errno EINVAL)
      else rbind (dhcp_packet_checksum (packet_bytes packet) hdrlen) (\<lambda>sum.
        if sum \<noteq> 0 then Inl (Errno EINVAL)
        else if checksum \<and> udp_check (pkt_udp packet) \<noteq> 0 then
          (let packet = packet\<lparr>pkt_ip := (pkt_ip packet)\<lparr>ip_check := udp_len (pkt_udp packet), ip_ttl := 0\<rparr>\<rparr>
           in rbind (dhcp_packet_checksum (drop 8 (packet_bytes packet)) (unat (udp_len (pkt_udp packet)) + 12)) (\<lambda>sum.
              if sum \<noteq> 0 then Inl (Errno EINVAL) else Inr packet))
        else Inr packet))"

section \<open>One's complement arithmetic\<close>

text \<open>
  \<open>oc m n\<close> is the one's complement representative of \<open>n\<close> modulo \<open>m\<close>: the number congruent to \<open>n\<close>
  in \<open>1..m\<close>, or \<open>0\<close> when \<open>n\<close> is \<open>0\<close>.  The 64-bit accumulator, the folding loop and the 16-bit sum of
  RFC 1071 all compute it, at different widths.
\<close>

definition oc :: "nat \<Rightarrow> nat \<Rightarrow> nat" where
  "oc m n = (if n = 0 then 0 else (n - 1) mod m + 1)"

lemma oc_0 [simp]: "oc m 0 = 0"
  by (simp add: oc_def)

lemma oc_eq_0 [simp]: "oc m n = 0 \<longleftrightarrow> n = 0"
  by (simp add: oc_def)

lemma oc_le: "0 < m \<Longrightarrow> oc m n \<le> m"
  by (auto simp: oc_def Suc_le_eq)

lemma oc_small [simp]: "n \<le> m \<Longrightarrow> oc m n = n"
  by (cases n) (simp_all add: oc_def)

lemma oc_mod [simp]: "oc m n mod m = n mod m"
  by (cases n) (simp_all add: oc_def mod_Suc_eq)

lemma mod_Suc_cancel: "Suc a mod m = Suc b mod m \<Longrightarrow> a mod m = b mod (m :: nat)"
  by (auto simp: nat_mod_eq_iff)

lemma oc_unique:
  assumes "0 < m" "x = 0 \<longleftrightarrow> n = 0" "x \<le> m" "x mod m = n mod m"
  shows "x = oc m n"
proof (cases n)
  case 0
  then show ?thesis using assms(2) by simp
next
  case (Suc n')
  then obtain x' where x: "x = Suc x'" using assms(2) by (cases x) simp_all
  have "x' mod m = n' mod m" using assms(4) unfolding x Suc by (rule mod_Suc_cancel)
  moreover have "x' < m" using assms(3) x by simp
  ultimately show ?thesis unfolding x Suc oc_def by simp
qed

lemma oc_cong:
  assumes "0 < m" "a = 0 \<longleftrightarrow> b = 0" "a mod m = b mod m"
  shows "oc m a = oc m b"
  by (rule oc_unique) (use assms oc_le in simp_all)

lemma oc_add_left: "0 < m \<Longrightarrow> oc m (oc m a + b) = oc m (a + b)"
proof (rule oc_cong)
  show "(oc m a + b) mod m = (a + b) mod m"
    by (metis mod_add_left_eq oc_mod)
qed simp_all

lemma oc_add_right: "0 < m \<Longrightarrow> oc m (a + oc m b) = oc m (a + b)"
  using oc_add_left [of m b a] by (simp add: add.commute)

lemma oc_dvd: "d dvd m \<Longrightarrow> 0 < d \<Longrightarrow> oc d (oc m n) = oc d n"
proof (rule oc_cong)
  assume "d dvd m"
  then show "oc m n mod d = n mod d"
    by (metis mod_mod_cancel oc_mod)
qed simp_all

lemma oc_minus:
  assumes "0 < m" "m < s" "s \<le> 2 * m"
  shows "s - m = oc m s"
  using assms by (intro oc_unique) (auto simp: le_mod_geq)

lemma unat_add_carry: "unat (add_carry a w) = oc 18446744073709551615 (unat a + unat w)"
proof (cases "unat a + unat w < 18446744073709551616")
  case True
  then have "unat (a + w) = unat a + unat w"
    by (subst unat_add_lem [symmetric]) simp
  then show ?thesis using True by (simp add: add_carry_def word_less_nat_alt)
next
  case False
  have b: "unat a < 18446744073709551616" "unat w < 18446744073709551616"
    by (rule unat_u64_less)+
  have s: "unat (a + w) = unat a + unat w - 18446744073709551616"
    using False b by (simp add: unat_word_ariths mod_if)
  have lt: "a + w < w" using False b by (simp add: word_less_nat_alt s)
  have "unat (a + w + 1) = (unat (a + w) + 1) mod 18446744073709551616"
    using unat_word_ariths(1) [of "a + w" 1] by simp
  also have "\<dots> = unat (a + w) + 1" using b s False by (intro mod_less) linarith
  finally have "unat (add_carry a w) = unat a + unat w - 18446744073709551615"
    using lt s False by (simp add: add_carry_def)
  then show ?thesis using oc_minus [of 18446744073709551615 "unat a + unat w"] False b by simp
qed

lemma unat_checksum_fold: "unat (checksum_fold acc) = oc 65535 (unat acc)"
proof (induction acc rule: checksum_fold.induct)
  case (1 acc)
  define q r where "q = unat acc div 65536" and "r = unat acc mod 65536"
  have a: "unat acc = 65536 * q + r" by (simp add: q_def r_def)
  show ?case
  proof (cases "drop_bit 16 acc = 0")
    case True
    then have "q = 0" by (simp only: q_def unat_high48 [symmetric] unat_0)
    moreover have "r < 65536" by (simp add: r_def)
    ultimately show ?thesis using True a by (subst checksum_fold.simps) simp
  next
    case False
    have "unat acc = (r + q) + q * 65535" using a by simp
    then have "(r + q) mod 65535 = unat acc mod 65535" by (simp only: mod_mult_self1)
    then have "oc 65535 (r + q) = oc 65535 (unat acc)"
      using a by (intro oc_cong) auto
    then show ?thesis using False 1
      by (subst checksum_fold.simps) (simp add: fold_step_unat q_def r_def)
  qed
qed

section \<open>The checksum against RFC 1071\<close>

text \<open>
  The reference: the bytes as 16-bit words in memory order, the last one padded with a zero byte,
  added with end-around carry at width 16.
\<close>

fun words16 :: "u8 list \<Rightarrow> nat list" where
  "words16 (a # b # bs) = (unat a + 256 * unat b) # words16 bs"
| "words16 [a] = [unat a]"
| "words16 [] = []"

definition add16 :: "nat \<Rightarrow> nat \<Rightarrow> nat" where
  "add16 a b = (if a + b < 65536 then a + b else a + b - 65535)"

definition rfc1071_sum :: "u8 list \<Rightarrow> nat" where
  "rfc1071_sum bs = fold add16 (words16 bs) 0"

lemma words16_less: "w \<in> set (words16 bs) \<Longrightarrow> w \<le> 65535"
proof (induction bs rule: words16.induct)
  case (1 a b bs)
  then show ?case using unat_u8_less [of a] unat_u8_less [of b] by auto
next
  case (2 a)
  then show ?case using unat_u8_less [of a] by auto
qed simp

lemma add16_oc: "a \<le> 65535 \<Longrightarrow> b \<le> 65535 \<Longrightarrow> add16 a b = oc 65535 (a + b)"
  using oc_minus [of 65535 "a + b"] by (simp add: add16_def)

lemma fold_add16:
  "a \<le> 65535 \<Longrightarrow> \<forall>w\<in>set ws. w \<le> 65535 \<Longrightarrow> fold add16 ws a = oc 65535 (a + sum_list ws)"
proof (induction ws arbitrary: a)
  case (Cons w ws)
  then have "fold add16 (w # ws) a = oc 65535 (oc 65535 (a + w) + sum_list ws)"
    by (simp add: add16_oc oc_le add.commute)
  then show ?case by (simp add: oc_add_left add.assoc)
qed simp

lemma rfc1071_sum_oc: "rfc1071_sum bs = oc 65535 (sum_list (words16 bs))"
  using fold_add16 [of 0 "words16 bs"] words16_less by (simp add: rfc1071_sum_def)

lemma words16_append: "even (length xs) \<Longrightarrow> words16 (xs @ ys) = words16 xs @ words16 ys"
  by (induction xs rule: words16.induct) auto

lemma oc_le_nat: "oc 65535 (le_nat bs) = oc 65535 (sum_list (words16 bs))"
proof (induction bs rule: words16.induct)
  case (1 a b bs)
  let ?w = "unat a + 256 * unat b" and ?l = "le_nat bs"
  have l: "le_nat (a # b # bs) = (?w + ?l) + ?l * 65535" by simp
  have "oc 65535 (le_nat (a # b # bs)) = oc 65535 (?w + ?l)"
    unfolding l by (rule oc_cong) (simp_all only: mod_mult_self1, auto)
  also have "\<dots> = oc 65535 (?w + oc 65535 ?l)" by (simp only: oc_add_right zero_less_numeral)
  also have "\<dots> = oc 65535 (sum_list (words16 (a # b # bs)))"
    unfolding 1 by (simp only: oc_add_right zero_less_numeral words16.simps sum_list.Cons)
  finally show ?case .
qed simp_all

lemma le_nat_less: "le_nat bs < 256 ^ length bs"
proof (induction bs)
  case (Cons b bs)
  then show ?case using unat_u8_less [of b] by simp
qed simp

lemma unat_load64: "length bs \<le> 8 \<Longrightarrow> unat (load64 bs) = le_nat bs"
proof -
  assume "length bs \<le> 8"
  then have "(256 :: nat) ^ length bs \<le> 256 ^ 8" by (rule power_increasing) simp
  then have "le_nat bs < 18446744073709551616"
    using le_nat_less [of bs] by simp
  then show ?thesis by (simp add: load64_def unat_of_nat)
qed

lemma oc_add_load:
  assumes "length bs \<le> 8"
  shows "oc 65535 (unat (add_carry acc (load64 bs))) = oc 65535 (unat acc + sum_list (words16 bs))"
proof -
  have "oc 65535 (unat (add_carry acc (load64 bs))) = oc 65535 (unat acc + le_nat bs)"
    unfolding unat_add_carry unat_load64 [OF assms] by (rule oc_dvd) simp_all
  also have "\<dots> = oc 65535 (unat acc + oc 65535 (le_nat bs))" by (simp only: oc_add_right zero_less_numeral)
  finally show ?thesis by (simp only: oc_le_nat oc_add_right zero_less_numeral)
qed

lemma oc_checksum_loop:
  "8 * n \<le> length buf \<Longrightarrow>
   oc 65535 (unat (checksum_loop n buf acc)) = oc 65535 (unat acc + sum_list (words16 (take (8 * n) buf)))"
proof (induction n arbitrary: buf acc)
  case (Suc n)
  let ?b = "take 8 buf" and ?r = "take (8 * n) (drop 8 buf)"
  have split: "take (8 * Suc n) buf = ?b @ ?r" by (simp add: take_add)
  have "words16 (?b @ ?r) = words16 ?b @ words16 ?r"
    using Suc.prems by (intro words16_append) simp
  then have sum: "sum_list (words16 (take (8 * Suc n) buf)) = sum_list (words16 ?b) + sum_list (words16 ?r)"
    by (simp only: split sum_list.append)
  have "oc 65535 (unat (checksum_loop (Suc n) buf acc)) =
      oc 65535 (oc 65535 (unat (add_carry acc (load64 ?b))) + sum_list (words16 ?r))"
    using Suc by (simp add: oc_add_left)
  then show ?case unfolding sum by (simp add: oc_add_load oc_add_left add.assoc)
qed simp

lemma not_ucast_u64:
  assumes "unat (w :: u64) \<le> 65535"
  shows "(ucast (NOT w) :: u16) = NOT (of_nat (unat w))"
proof -
  have "(ucast (NOT w) :: u16) = NOT (ucast w)"
    by (rule bit_word_eqI) (auto simp: bit_ucast_iff bit_not_iff)
  then show ?thesis by (simp)
qed

lemma checksum_eq:
  "dhcp_packet_checksum buf len =
     (if len \<le> length buf then Inr (NOT (of_nat (rfc1071_sum (take len buf)))) else Inl OutOfBounds)"
proof (cases "len \<le> length buf")
  case True
  let ?n = "8 * (len div 8)" and ?t = "take (len mod 8) (drop (8 * (len div 8)) buf)"
  define acc where "acc = (if len mod 8 \<noteq> 0
       then add_carry (checksum_loop (len div 8) buf 0) (load64 ?t)
       else checksum_loop (len div 8) buf 0)"
  have n: "?n \<le> length buf" using True by (rule order_trans [rotated]) simp
  have t: "length ?t \<le> 8" by simp
  have split: "take len buf = take ?n buf @ ?t"
    by (metis mult_div_mod_eq take_add)
  have sum: "sum_list (words16 (take len buf)) = sum_list (words16 (take ?n buf)) + sum_list (words16 ?t)"
    unfolding split using n by (subst words16_append) (simp_all add: min_def)
  have loop: "oc 65535 (unat (checksum_loop (len div 8) buf 0)) = oc 65535 (sum_list (words16 (take ?n buf)))"
    using oc_checksum_loop [OF n, of 0] by simp
  have "oc 65535 (unat acc) = oc 65535 (sum_list (words16 (take len buf)))"
  proof (cases "len mod 8 = 0")
    case True
    then show ?thesis unfolding sum acc_def using loop by simp
  next
    case False
    then have "oc 65535 (unat acc) =
        oc 65535 (oc 65535 (unat (checksum_loop (len div 8) buf 0)) + sum_list (words16 ?t))"
      unfolding acc_def using oc_add_load [OF t] by (simp add: oc_add_left)
    then show ?thesis unfolding sum loop by (simp add: oc_add_left)
  qed
  then have "unat (checksum_fold acc) = rfc1071_sum (take len buf)"
    by (simp only: unat_checksum_fold rfc1071_sum_oc)
  moreover have "unat (checksum_fold acc) \<le> 65535"
    unfolding unat_checksum_fold by (rule oc_le) simp
  ultimately have "ucast (NOT (checksum_fold acc)) = (NOT (of_nat (rfc1071_sum (take len buf))) :: u16)"
    by (simp add: not_ucast_u64)
  then show ?thesis using True
    by (simp only: dhcp_packet_checksum_def acc_def Let_def not_less if_True if_False) simp
qed (simp add: dhcp_packet_checksum_def)

text \<open>
  C8.  For every buffer and length, the checksum routine, with its 64-bit accumulator, its unaligned
  tail and its folding loop, returns the complement of the 16-bit one's complement sum of RFC 1071; it
  reads outside the buffer exactly when the length exceeds it.
\<close>

theorem dhcp_packet_checksum_rfc1071:
  "dhcp_packet_checksum buf len =
     (if len \<le> length buf then Inr (NOT (of_nat (rfc1071_sum (take len buf)))) else Inl OutOfBounds)"
  by (rule checksum_eq)

section \<open>Headers\<close>

lemma rfc1071_sum_le: "rfc1071_sum bs \<le> 65535"
  unfolding rfc1071_sum_oc by (rule oc_le) simp

lemma unat_not_of_nat: "n \<le> 65535 \<Longrightarrow> unat (NOT (of_nat n :: u16)) = 65535 - n"
proof -
  assume n: "n \<le> 65535"
  have "NOT (of_nat n :: u16) = of_nat (65535 - n)"
    using n by (simp add: not_eq_complement of_nat_diff)
  then have "unat (NOT (of_nat n :: u16)) = (65535 - n) mod 2 ^ LENGTH(16)"
    by (simp only: unat_of_nat)
  then show ?thesis using n by simp
qed

lemma checksum_zero:
  assumes "len \<le> length buf"
  shows "dhcp_packet_checksum buf len = Inr 0 \<longleftrightarrow> rfc1071_sum (take len buf) = 65535"
proof -
  let ?s = "rfc1071_sum (take len buf)"
  have "NOT (of_nat ?s :: u16) = 0 \<longleftrightarrow> unat (NOT (of_nat ?s :: u16)) = 0"
    by (simp only: unsigned_eq_0_iff)
  then show ?thesis
    using assms rfc1071_sum_le [of "take len buf"] by (simp add: checksum_eq unat_not_of_nat)
qed

lemma checksum_in_bounds: "len \<le> length buf \<Longrightarrow> \<exists>c. dhcp_packet_checksum buf len = Inr c"
  by (simp add: checksum_eq)

lemma unat_bytes16: "unat (ucast (c :: u16) :: u8) + 256 * unat (ucast (drop_bit 8 c) :: u8) = unat c"
proof -
  have c: "unat c < 65536" using unsigned_less [of c] by simp
  have "unat (ucast c :: u8) = unat c mod 256" by (simp add: unsigned_ucast_eq take_bit_eq_mod)
  moreover have "unat (ucast (drop_bit 8 c) :: u8) = (unat c div 256) mod 256"
    by (simp only: unsigned_ucast_eq unat_drop_bit_eq) (simp add: drop_bit_eq_div take_bit_eq_mod)
  moreover have "(unat c div 256) mod 256 = unat c div 256"
    using c by (intro mod_less less_mult_imp_div_less) simp
  ultimately show ?thesis by simp
qed

text \<open>
  Storing the checksum computed over a zeroed field into that field makes the sum all ones, which is
  what a receiver tests.
\<close>

lemma rfc1071_sum_fill:
  assumes "even (length xs)" and "c = NOT (of_nat (rfc1071_sum (xs @ [0, 0] @ ys)))"
  shows "rfc1071_sum (xs @ unaligned_write_be16 (store16 c) @ ys) = 65535"
proof -
  let ?S = "sum_list (words16 xs) + sum_list (words16 ys)"
  have "rfc1071_sum (xs @ [0, 0] @ ys) = oc 65535 ?S"
    using assms(1) by (simp add: rfc1071_sum_oc words16_append)
  then have c: "unat c = 65535 - oc 65535 ?S"
    unfolding assms(2) using oc_le [of 65535 ?S] by (simp only: unat_not_of_nat zero_less_numeral)
  have "rfc1071_sum (xs @ unaligned_write_be16 (store16 c) @ ys) = oc 65535 (?S + unat c)"
    using assms(1) unat_bytes16 [of c]
    by (simp add: rfc1071_sum_oc words16_append store16_def add.commute add.left_commute)
  also have "\<dots> = oc 65535 (oc 65535 ?S + unat c)" by (simp only: oc_add_left zero_less_numeral)
  also have "oc 65535 ?S + unat c = 65535" using c oc_le [of 65535 ?S] by simp
  finally show ?thesis by simp
qed

lemma write_be16_0: "unaligned_write_be16 0 = [0, 0]"
  by (simp add: unaligned_write_be16_def)

lemma ip_bytes_check:
  "ip_bytes (ip\<lparr>ip_check := c\<rparr>) = take 10 (ip_bytes ip) @ unaligned_write_be16 c @ drop 12 (ip_bytes ip)"
  by (simp add: ip_bytes_def unaligned_write_be16_def unaligned_write_be32_def)

lemma udp_bytes_check:
  "udp_bytes (udp\<lparr>udp_check := c\<rparr>) = take 6 (udp_bytes udp) @ unaligned_write_be16 c"
  by (simp add: udp_bytes_def unaligned_write_be16_def)

lemma ip_checksum_filled:
  assumes "dhcp_packet_checksum (ip_bytes (ip\<lparr>ip_check := 0\<rparr>) @ rest) 20 = Inr c"
  shows "dhcp_packet_checksum (ip_bytes (ip\<lparr>ip_check := store16 c\<rparr>) @ rest) 20 = Inr 0"
  using assms rfc1071_sum_fill [of "take 10 (ip_bytes ip)" c "drop 12 (ip_bytes ip)"]
  by (simp add: checksum_zero) (simp add: checksum_eq ip_bytes_check write_be16_0)

lemma udp_checksum_filled:
  assumes "dhcp_packet_checksum (drop 8 (ip_bytes ip) @ udp_bytes (udp\<lparr>udp_check := 0\<rparr>) @ rest) n = Inr c"
    and "20 \<le> n"
  shows "dhcp_packet_checksum (drop 8 (ip_bytes ip) @ udp_bytes (udp\<lparr>udp_check := store16 c\<rparr>) @ rest) n = Inr 0"
proof -
  have n: "n - 20 \<le> length rest"
    using assms by (auto simp: checksum_eq split: if_splits)
  let ?xs = "drop 8 (ip_bytes ip) @ take 6 (udp_bytes udp)"
  have "rfc1071_sum (?xs @ unaligned_write_be16 (store16 c) @ take (n - 20) rest) = 65535"
    using assms n by (intro rfc1071_sum_fill) (simp_all add: checksum_eq udp_bytes_check write_be16_0 take_Cons' split: if_splits)
  then show ?thesis using n assms(2) by (simp add: checksum_zero udp_bytes_check)
qed

lemma append_headers_verify:
  assumes wf: "wf_packet p" and ttl: "ip_ttl (pkt_ip p) = 0" and chk0: "udp_check (pkt_udp p) = 0"
    and len: "28 \<le> unat len" "unat len \<le> 268 + length (msg_options (pkt_dhcp p))"
  shows "\<exists>q r. dhcp_packet_append_ip_headers p source_addr source_port destination_addr 68 len = Inr q
    \<and> dhcp_packet_verify_headers q (unat len) checksum = Inr r
    \<and> pkt_dhcp q = pkt_dhcp p \<and> pkt_dhcp r = pkt_dhcp p"
proof -
  define ip where "ip = (pkt_ip p)\<lparr>ip_version := 4, ip_ihl := 5, ip_tot_len := len, ip_tos := 0xc0,
      ip_protocol := 17, ip_saddr := source_addr, ip_daddr := destination_addr\<rparr>"
  define udp where "udp = (pkt_udp p)\<lparr>udp_source := source_port, udp_dest := 68, udp_len := len - 20\<rparr>"
  define m where "m = message_bytes (pkt_dhcp p)"
  have udp0: "udp\<lparr>udp_check := 0\<rparr> = udp" using chk0 by (simp add: udp_def)
  have ul: "unat (len - 20) = unat len - 20" using len(1) by (simp add: unat_sub word_le_nat_alt)
  have m: "unat len \<le> 28 + length m"
    using wf len(2) by (simp add: m_def wf_packet_def length_message_bytes)
  then have m8: "unat len - 8 \<le> 20 + length m" by linarith
  let ?ip1 = "ip\<lparr>ip_check := len - 20\<rparr>" and ?ip2 = "ip\<lparr>ip_ttl := 64\<rparr>"
  obtain c where c: "dhcp_packet_checksum (drop 8 (ip_bytes ?ip1) @ udp_bytes udp @ m) (unat len - 8) = Inr c"
    using m8 checksum_in_bounds [of "unat len - 8" "drop 8 (ip_bytes ?ip1) @ udp_bytes udp @ m"] by auto
  let ?udp = "udp\<lparr>udp_check := store16 c\<rparr>"
  obtain d where d: "dhcp_packet_checksum (ip_bytes (?ip2\<lparr>ip_check := 0\<rparr>) @ udp_bytes ?udp @ m) 20 = Inr d"
    by (simp add: checksum_eq)
  let ?q = "p\<lparr>pkt_ip := ?ip2\<lparr>ip_check := store16 d\<rparr>, pkt_udp := ?udp\<rparr>"
  have q: "dhcp_packet_append_ip_headers p source_addr source_port destination_addr 68 len = Inr ?q"
    using c d len(1) unfolding ip_def udp_def m_def
    by (simp add: dhcp_packet_append_ip_headers_def packet_bytes_def size_diff_def Let_def)
  have v1: "dhcp_packet_checksum (ip_bytes (?ip2\<lparr>ip_check := store16 d\<rparr>) @ udp_bytes ?udp @ m) 20 = Inr 0"
    using d by (rule ip_checksum_filled)
  have ttl0: "?ip1\<lparr>ip_ttl := 0\<rparr> = ?ip1" by (rule iphdr.equality) (simp_all add: ip_def ttl)
  have v2: "dhcp_packet_checksum (drop 8 (ip_bytes (?ip1\<lparr>ip_ttl := 0\<rparr>)) @ udp_bytes ?udp @ m) (unat len - 8) = Inr 0"
    unfolding ttl0 using c len(1) by (intro udp_checksum_filled) (simp_all add: udp0)
  have "\<exists>r. dhcp_packet_verify_headers ?q (unat len) checksum = Inr r \<and> pkt_dhcp r = pkt_dhcp p"
    using v1 v2 len(1) ul ttl unfolding ip_def udp_def m_def
    by (simp add: dhcp_packet_verify_headers_def Let_def packet_bytes_def)
  then show ?thesis using q by (rule_tac x = ?q in exI) auto
qed

text \<open>
  C9.  A packet with zeroed headers, completed by \<open>dhcp_packet_append_ip_headers\<close> for the client port,
  is accepted by \<open>dhcp_packet_verify_headers\<close>, with and without the UDP checksum, and the DHCP message
  inside is the one put in.
\<close>

theorem dhcp_packet_headers_roundtrip:
  assumes "wf_packet p" and "ip_ttl (pkt_ip p) = 0" and "udp_check (pkt_udp p) = 0"
    and "28 \<le> unat len" and "unat len \<le> 268 + length (msg_options (pkt_dhcp p))"
  shows "\<exists>q r. dhcp_packet_append_ip_headers p source_addr source_port destination_addr 68 len = Inr q
    \<and> dhcp_packet_verify_headers q (unat len) checksum = Inr r
    \<and> pkt_dhcp q = pkt_dhcp p \<and> pkt_dhcp r = pkt_dhcp p"
  using assms by (rule append_headers_verify)

definition blank_packet :: "nat \<Rightarrow> DHCPPacket" where
  "blank_packet n =
     \<lparr>pkt_ip = \<lparr>ip_version = 0, ip_ihl = 0, ip_tos = 0, ip_tot_len = 0, ip_id = 0, ip_frag_off = 0,
        ip_ttl = 0, ip_protocol = 0, ip_check = 0, ip_saddr = 0, ip_daddr = 0\<rparr>,
      pkt_udp = \<lparr>udp_source = 0, udp_dest = 0, udp_len = 0, udp_check = 0\<rparr>,
      pkt_dhcp = blank_message n\<rparr>"

lemma wf_blank_packet [simp]: "wf_packet (blank_packet n)"
  by (simp add: wf_packet_def blank_packet_def wf_blank_message)

theorem dhcp_packet_headers_roundtrip_witness:
  "\<exists>q r. dhcp_packet_append_ip_headers (blank_packet 308) 0xc0a80001 67 0xc0a80064 68 576 = Inr q
    \<and> dhcp_packet_verify_headers q (unat (576 :: u16)) True = Inr r
    \<and> pkt_dhcp q = pkt_dhcp (blank_packet 308) \<and> pkt_dhcp r = pkt_dhcp (blank_packet 308)"
  by (rule dhcp_packet_headers_roundtrip)
    (simp_all, simp_all add: blank_packet_def length_blank_message)

lemma verify_headers_Inr:
  assumes "dhcp_packet_verify_headers p len checksum = Inr r"
  shows "ip_version (pkt_ip p) = 4" and "20 \<le> unat (ip_ihl (pkt_ip p)) * 4"
    and "unat (ip_ihl (pkt_ip p)) * 4 + unat (udp_len (pkt_udp p)) \<le> len"
    and "udp_dest (pkt_udp p) = 68" and "pkt_dhcp r = pkt_dhcp p"
    and "dhcp_packet_checksum (packet_bytes p) (unat (ip_ihl (pkt_ip p)) * 4) = Inr 0"
  using assms
  by (auto simp: dhcp_packet_verify_headers_def Let_def rbind_Inr_iff split: if_splits)

lemma verify_headers_Inl:
  assumes "wf_packet p" and "len \<le> 268 + length (msg_options (pkt_dhcp p))"
    and "dhcp_packet_verify_headers p len checksum = Inl e"
  shows "e = Errno EINVAL"
proof -
  have b: "length (packet_bytes p) = 268 + length (msg_options (pkt_dhcp p))"
    "length (packet_bytes (p\<lparr>pkt_ip := ip\<rparr>)) = 268 + length (msg_options (pkt_dhcp p))" for ip
    using assms(1) by (simp_all add: packet_bytes_def wf_packet_def length_message_bytes)
  show ?thesis
    using assms(2,3)
    by (auto simp: dhcp_packet_verify_headers_def Let_def rbind_Inl_iff checksum_eq b split: if_splits)
qed

text \<open>
  C10.  On a packet received into a buffer of at least \<open>len\<close> bytes, header verification reads inside the
  buffer whatever the header length and UDP length fields of the packet say: it either rejects the
  packet with \<open>-EINVAL\<close> or accepts it, and then the IP header sum is the all-ones value RFC 1071
  requires, the UDP datagram lies within the received bytes and is addressed to the client port.
\<close>

theorem dhcp_packet_verify_headers_sound:
  assumes "wf_packet p" and "len \<le> 268 + length (msg_options (pkt_dhcp p))"
  shows "case dhcp_packet_verify_headers p len checksum of
      Inl e \<Rightarrow> e = Errno EINVAL
    | Inr r \<Rightarrow> pkt_dhcp r = pkt_dhcp p \<and> udp_dest (pkt_udp p) = 68
        \<and> unat (ip_ihl (pkt_ip p)) * 4 + unat (udp_len (pkt_udp p)) \<le> len
        \<and> rfc1071_sum (take (unat (ip_ihl (pkt_ip p)) * 4) (packet_bytes p)) = 65535"
proof (cases "dhcp_packet_verify_headers p len checksum")
  case (Inl e)
  then show ?thesis using verify_headers_Inl [OF assms] by simp
next
  case (Inr r)
  note v = verify_headers_Inr [OF Inr]
  have "unat (ip_ihl (pkt_ip p)) * 4 \<le> length (packet_bytes p)"
    using v(3) assms by (simp add: length_packet_bytes)
  then show ?thesis using Inr v by (simp add: checksum_zero)
qed

theorem dhcp_packet_verify_headers_sound_witness:
  "case dhcp_packet_verify_headers (blank_packet 308) 300 True of
      Inl e \<Rightarrow> e = Errno EINVAL
    | Inr r \<Rightarrow> pkt_dhcp r = pkt_dhcp (blank_packet 308) \<and> udp_dest (pkt_udp (blank_packet 308)) = 68
        \<and> unat (ip_ihl (pkt_ip (blank_packet 308))) * 4 + unat (udp_len (pkt_udp (blank_packet 308))) \<le> 300
        \<and> rfc1071_sum (take (unat (ip_ihl (pkt_ip (blank_packet 308))) * 4) (packet_bytes (blank_packet 308))) = 65535"
  by (rule dhcp_packet_verify_headers_sound)
    (simp_all, simp_all add: blank_packet_def length_blank_message)

end
