(* ===== verification/Dhcp_Lease.thy ===== *)
theory Dhcp_Lease
  imports Dhcp_Packet Linked_List Dns_Domain
begin

text \<open>
  The DHCP lease (\<open>dhcp/sd-dhcp-lease.c\<close>, \<open>dhcp/dhcp-lease-internal.h\<close>): the parsers of the option
  values, the callback that stores an option in a lease, the sorted list of private options, the
  accessors and the reference count.

  A pointer to a string or a block of bytes is an option; the size field of an array is the length of
  its list.  The private options are nodes of a linked list in an explicit store; \<open>le_brk\<close> is the next
  address the allocator hands out.
\<close>

section \<open>Data\<close>

record sd_dhcp_route =
  r_dst_addr :: be32
  r_gw_addr :: be32
  r_dst_prefixlen :: u8

record sd_dhcp_raw_option =
  o_tag :: u8
  o_length :: u8
  o_data :: "u8 list"

record sd_dhcp_lease =
  le_n_ref :: u32
  le_t1 :: u32
  le_t2 :: u32
  le_lifetime :: u32
  le_address :: be32
  le_server_address :: be32
  le_router :: be32
  le_next_server :: be32
  le_have_subnet_mask :: bool
  le_subnet_mask :: be32
  le_have_broadcast :: bool
  le_broadcast :: be32
  le_dns :: "be32 list"
  le_ntp :: "be32 list"
  le_static_route :: "sd_dhcp_route list"
  le_static_route_allocated :: u64
  le_mtu :: u16
  le_domainname :: "cstr option"
  le_hostname :: "cstr option"
  le_root_path :: "cstr option"
  le_client_id :: "u8 list option"
  le_client_id_len :: nat
  le_vendor_specific :: "u8 list option"
  le_vendor_specific_len :: nat
  le_timezone :: "cstr option"
  le_private_options :: "nat option"
  le_heap :: "sd_dhcp_raw_option lheap"
  le_brk :: nat

abbreviation (input) sizeof_sd_dhcp_lease :: nat where "sizeof_sd_dhcp_lease \<equiv> 184"
abbreviation (input) sizeof_sd_dhcp_route :: u64 where "sizeof_sd_dhcp_route \<equiv> 12"
abbreviation (input) sizeof_sd_dhcp_raw_option :: nat where "sizeof_sd_dhcp_raw_option \<equiv> 32"

definition dhcp_lease_new :: "alloc \<Rightarrow> sd_dhcp_lease res" where
  "dhcp_lease_new alloc =
     (if \<not> alloc sizeof_sd_dhcp_lease then Inl (Errno ENOMEM)
      else Inr \<lparr>le_n_ref = 1, le_t1 = 0, le_t2 = 0, le_lifetime = 0, le_address = 0,
        le_server_address = 0, le_router = 0, le_next_server = 0, le_have_subnet_mask = False,
        le_subnet_mask = 0, le_have_broadcast = False, le_broadcast = 0, le_dns = [], le_ntp = [],
        le_static_route = [], le_static_route_allocated = 0, le_mtu = 0, le_domainname = None,
        le_hostname = None, le_root_path = None, le_client_id = None, le_client_id_len = 0,
        le_vendor_specific = None, le_vendor_specific_len = 0, le_timezone = None,
        le_private_options = None, le_heap = Map.empty, le_brk = 0\<rparr>)"

section \<open>Option values\<close>

definition lease_parse_u32 :: "u8 list \<Rightarrow> u32 \<Rightarrow> u32 res" where
  "lease_parse_u32 option min' =
     (if length option \<noteq> 4 then Inl (Errno EINVAL) else Inr (max (be32_of_bytes option) min'))"

definition lease_parse_u16 :: "u8 list \<Rightarrow> u16 \<Rightarrow> u16 res" where
  "lease_parse_u16 option min' =
     (if length option \<noteq> 2 then Inl (Errno EINVAL) else Inr (max (be16_of_bytes option) min'))"

definition lease_parse_be32 :: "u8 list \<Rightarrow> be32 res" where
  "lease_parse_be32 option =
     (if length option \<noteq> 4 then Inl (Errno EINVAL) else Inr (be32_of_bytes option))"

definition lease_parse_string :: "alloc \<Rightarrow> u8 list \<Rightarrow> cstr option res" where
  "lease_parse_string alloc option =
     (if option = [] then Inr None
      else if 0 \<in> set (butlast option) then Inl (Errno EINVAL)
      else
        (let string = takeWhile (\<lambda>b. b \<noteq> 0) option
         in if \<not> alloc (length string + 1) then Inl (Errno ENOMEM) else Inr (Some string)))"

definition lease_parse_domain :: "alloc \<Rightarrow> u8 list \<Rightarrow> cstr option res" where
  "lease_parse_domain alloc option =
     rbind (lease_parse_string alloc option) (\<lambda>name.
       case name of
         None \<Rightarrow> Inr None
       | Some name \<Rightarrow>
           rbind (dns_name_normalize alloc name) (\<lambda>normalized.
             if is_localhost normalized then Inl (Errno EINVAL)
             else if dns_name_is_root normalized then Inl (Errno EINVAL)
             else Inr (Some normalized)))"

fun be32_array :: "u8 list \<Rightarrow> be32 list" where
  "be32_array (a # b # c # d # bs) = unaligned_read_be32 a b c d # be32_array bs"
| "be32_array _ = []"

definition lease_parse_in_addrs :: "alloc \<Rightarrow> u8 list \<Rightarrow> be32 list res" where
  "lease_parse_in_addrs alloc option =
     (if option = [] then Inr []
      else if length option mod 4 \<noteq> 0 then Inl (Errno EINVAL)
      else if \<not> alloc (length option) then Inl (Errno ENOMEM)
      else Inr (be32_array option))"

text \<open>
  The loop of \<open>lease_parse_routes\<close>.  When the destination has no class-based prefix length the source
  says \<open>continue\<close> without moving on in the option, so the loop runs on the same bytes again.
\<close>

partial_function (option) routes_loop :: "u8 list \<Rightarrow> sd_dhcp_route list \<Rightarrow> sd_dhcp_route list option" where
  "routes_loop option routes =
     (if length option < 8 then Some routes
      else case in_addr_default_prefixlen (take 4 option) of
        Inl _ \<Rightarrow> routes_loop option routes
      | Inr prefixlen \<Rightarrow>
          routes_loop (drop 8 option)
            (routes @ [\<lparr>r_dst_addr = inet_makeaddr (inet_netof (be32_of_bytes option)) 0,
                        r_gw_addr = be32_of_bytes (drop 4 option), r_dst_prefixlen = prefixlen\<rparr>]))"

definition lease_parse_routes ::
  "alloc \<Rightarrow> u8 list \<Rightarrow> sd_dhcp_route list \<Rightarrow> u64 \<Rightarrow> (sd_dhcp_route list \<times> u64) res" where
  "lease_parse_routes alloc option routes allocated =
     (if option = [] then Inr (routes, allocated)
      else if length option mod 8 \<noteq> 0 then Inl (Errno EINVAL)
      else case greedy_realloc alloc allocated (of_nat (length routes + length option div 8)) sizeof_sd_dhcp_route of
        None \<Rightarrow> Inl (Errno ENOMEM)
      | Some allocated \<Rightarrow>
          (case routes_loop option routes of
             None \<Rightarrow> Inl Diverges
           | Some routes \<Rightarrow> Inr (routes, allocated)))"

text \<open>
  Classless routes (RFC 3442).  The routes read before an error stay in the array, so the result is
  the array together with the error, if any.
\<close>

definition be32_padded :: "u8 list \<Rightarrow> be32" where
  "be32_padded bs = be32_of_bytes (bs @ replicate (4 - length bs) 0)"

function classless_loop ::
  "alloc \<Rightarrow> u8 list \<Rightarrow> sd_dhcp_route list \<Rightarrow> u64 \<Rightarrow> sd_dhcp_route list \<times> u64 \<times> errno option" where
  "classless_loop alloc option routes allocated =
     (case option of
        [] \<Rightarrow> (routes, allocated, None)
      | width # option \<Rightarrow>
          (case greedy_realloc alloc allocated (of_nat (length routes + 1)) sizeof_sd_dhcp_route of
             None \<Rightarrow> (routes, allocated, Some ENOMEM)
           | Some allocated \<Rightarrow>
               (let dst_octets = (if width = 0 then 0 else (unat width - 1) div 8 + 1) in
                if 4 < dst_octets \<or> length option < dst_octets then (routes, allocated, Some EINVAL)
                else
                  (let dst = be32_padded (take dst_octets option); option = drop dst_octets option in
                   if length option < 4 then (routes, allocated, Some EINVAL)
                   else classless_loop alloc (drop 4 option)
                     (routes @ [\<lparr>r_dst_addr = dst, r_gw_addr = be32_of_bytes option, r_dst_prefixlen = width\<rparr>])
                     allocated))))"
  by pat_completeness auto
termination
  by (relation "measure (\<lambda>(_, option, _, _). length option)") auto

declare classless_loop.simps [simp del]

definition lease_parse_classless_routes ::
  "alloc \<Rightarrow> u8 list \<Rightarrow> sd_dhcp_route list \<Rightarrow> u64 \<Rightarrow> sd_dhcp_route list \<times> u64 \<times> errno option" where
  "lease_parse_classless_routes alloc option routes allocated = classless_loop alloc option routes allocated"

section \<open>Private options\<close>

text \<open>
  The search for the place of a tag: \<open>Inl ()\<close> when the tag is already there, otherwise the node the
  new option goes before (\<open>None\<close> at the end).  Not returning is the outer \<open>None\<close>.
\<close>

partial_function (option) find_private ::
  "sd_dhcp_raw_option lheap \<Rightarrow> nat option \<Rightarrow> u8 \<Rightarrow> (unit + nat option) res option" where
  "find_private h cur tag =
     (case cur of
        None \<Rightarrow> Some (Inr (Inr None))
      | Some a \<Rightarrow>
          (case h a of
             None \<Rightarrow> Some (Inl UseAfterFree)
           | Some n \<Rightarrow>
               if tag < o_tag (l_item n) then Some (Inr (Inr cur))
               else if tag = o_tag (l_item n) then Some (Inr (Inl ()))
               else find_private h (l_next n) tag))"

definition dhcp_lease_insert_private_option ::
  "alloc \<Rightarrow> sd_dhcp_lease \<Rightarrow> u8 \<Rightarrow> u8 list \<Rightarrow> (sd_dhcp_lease \<times> errno option) res" where
  "dhcp_lease_insert_private_option alloc lease tag data =
     rbind (case find_private (le_heap lease) (le_private_options lease) tag of
              None \<Rightarrow> Inl Diverges | Some r \<Rightarrow> r) (\<lambda>place.
       case place of
         Inl _ \<Rightarrow> Inr (lease, None)
       | Inr cur \<Rightarrow>
           if \<not> alloc sizeof_sd_dhcp_raw_option then Inr (lease, Some ENOMEM)
           else if \<not> alloc (length data) then Inr (lease, Some ENOMEM)
           else
             (let a = le_brk lease;
                  node = \<lparr>l_next = None, l_prev = None,
                    l_item = \<lparr>o_tag = tag, o_length = of_nat (length data), o_data = data\<rparr>\<rparr>
              in rbind (LIST_INSERT_BEFORE ((le_heap lease)(a \<mapsto> node)) (le_private_options lease) cur a) (\<lambda>(h, head).
                   Inr (lease\<lparr>le_heap := h, le_private_options := head, le_brk := a + 1\<rparr>, None))))"

section \<open>Storing options\<close>

text \<open>A failed parse is logged and ignored; anything but an errno ends the callback.\<close>

definition ignoring :: "sd_dhcp_lease \<Rightarrow> sd_dhcp_lease res \<Rightarrow> (sd_dhcp_lease \<times> errno option) res" where
  "ignoring lease m =
     (case m of
        Inr lease' \<Rightarrow> Inr (lease', None)
      | Inl (Errno _) \<Rightarrow> Inr (lease, None)
      | Inl f \<Rightarrow> Inl f)"

definition parse_timezone_option :: "alloc \<Rightarrow> (cstr \<Rightarrow> bool) \<Rightarrow> u8 list \<Rightarrow> sd_dhcp_lease \<Rightarrow> sd_dhcp_lease" where
  "parse_timezone_option alloc zoneinfo option lease =
     (case lease_parse_string alloc option of
        Inl _ \<Rightarrow> lease
      | Inr tz \<Rightarrow> if \<not> timezone_is_valid zoneinfo tz then lease else lease\<lparr>le_timezone := tz\<rparr>)"

definition parse_vendor_option :: "alloc \<Rightarrow> u8 list \<Rightarrow> sd_dhcp_lease \<Rightarrow> sd_dhcp_lease \<times> errno option" where
  "parse_vendor_option alloc option lease =
     (if option = [] then (lease\<lparr>le_vendor_specific := None, le_vendor_specific_len := 0\<rparr>, None)
      else if \<not> alloc (length option) then (lease, Some ENOMEM)
      else (lease\<lparr>le_vendor_specific := Some option, le_vendor_specific_len := length option\<rparr>, None))"

definition dhcp_lease_parse_options ::
  "alloc \<Rightarrow> (cstr \<Rightarrow> bool) \<Rightarrow> u8 \<Rightarrow> u8 list \<Rightarrow> sd_dhcp_lease \<Rightarrow> (sd_dhcp_lease \<times> errno option) res" where
  "dhcp_lease_parse_options alloc zoneinfo code option lease =
     (if code = SD_DHCP_OPTION_IP_ADDRESS_LEASE_TIME then
        ignoring lease (rbind (lease_parse_u32 option 1) (\<lambda>v. Inr (lease\<lparr>le_lifetime := v\<rparr>)))
      else if code = SD_DHCP_OPTION_SERVER_IDENTIFIER then
        ignoring lease (rbind (lease_parse_be32 option) (\<lambda>v. Inr (lease\<lparr>le_server_address := v\<rparr>)))
      else if code = SD_DHCP_OPTION_SUBNET_MASK then
        ignoring lease (rbind (lease_parse_be32 option) (\<lambda>v.
          Inr (lease\<lparr>le_subnet_mask := v, le_have_subnet_mask := True\<rparr>)))
      else if code = SD_DHCP_OPTION_BROADCAST then
        ignoring lease (rbind (lease_parse_be32 option) (\<lambda>v.
          Inr (lease\<lparr>le_broadcast := v, le_have_broadcast := True\<rparr>)))
      else if code = SD_DHCP_OPTION_ROUTER then
        (if 4 \<le> length option
         then ignoring lease (rbind (lease_parse_be32 (take 4 option)) (\<lambda>v. Inr (lease\<lparr>le_router := v\<rparr>)))
         else Inr (lease, None))
      else if code = SD_DHCP_OPTION_DOMAIN_NAME_SERVER then
        ignoring lease (rbind (lease_parse_in_addrs alloc option) (\<lambda>v. Inr (lease\<lparr>le_dns := v\<rparr>)))
      else if code = SD_DHCP_OPTION_NTP_SERVER then
        ignoring lease (rbind (lease_parse_in_addrs alloc option) (\<lambda>v. Inr (lease\<lparr>le_ntp := v\<rparr>)))
      else if code = SD_DHCP_OPTION_STATIC_ROUTE then
        ignoring lease (rbind (lease_parse_routes alloc option (le_static_route lease) (le_static_route_allocated lease))
          (\<lambda>(routes, allocated). Inr (lease\<lparr>le_static_route := routes, le_static_route_allocated := allocated\<rparr>)))
      else if code = SD_DHCP_OPTION_INTERFACE_MTU then
        ignoring lease (rbind (lease_parse_u16 option 68) (\<lambda>v. Inr (lease\<lparr>le_mtu := v\<rparr>)))
      else if code = SD_DHCP_OPTION_DOMAIN_NAME then
        ignoring lease (rbind (lease_parse_domain alloc option) (\<lambda>v. Inr (lease\<lparr>le_domainname := v\<rparr>)))
      else if code = SD_DHCP_OPTION_HOST_NAME then
        ignoring lease (rbind (lease_parse_domain alloc option) (\<lambda>v. Inr (lease\<lparr>le_hostname := v\<rparr>)))
      else if code = SD_DHCP_OPTION_ROOT_PATH then
        ignoring lease (rbind (lease_parse_string alloc option) (\<lambda>v. Inr (lease\<lparr>le_root_path := v\<rparr>)))
      else if code = SD_DHCP_OPTION_RENEWAL_T1_TIME then
        ignoring lease (rbind (lease_parse_u32 option 1) (\<lambda>v. Inr (lease\<lparr>le_t1 := v\<rparr>)))
      else if code = SD_DHCP_OPTION_REBINDING_T2_TIME then
        ignoring lease (rbind (lease_parse_u32 option 1) (\<lambda>v. Inr (lease\<lparr>le_t2 := v\<rparr>)))
      else if code = SD_DHCP_OPTION_CLASSLESS_STATIC_ROUTE then
        (let (routes, allocated, r) =
           lease_parse_classless_routes alloc option (le_static_route lease) (le_static_route_allocated lease)
         in Inr (lease\<lparr>le_static_route := routes, le_static_route_allocated := allocated\<rparr>, None))
      else if code = SD_DHCP_OPTION_NEW_TZDB_TIMEZONE then
        Inr (parse_timezone_option alloc zoneinfo option lease, None)
      else if code = SD_DHCP_OPTION_VENDOR_SPECIFIC then
        Inr (parse_vendor_option alloc option lease)
      else if SD_DHCP_OPTION_PRIVATE_BASE \<le> code \<and> code \<le> SD_DHCP_OPTION_PRIVATE_LAST then
        dhcp_lease_insert_private_option alloc lease code option
      else Inr (lease, None))"

section \<open>Accessors\<close>

definition sd_dhcp_lease_get_address :: "sd_dhcp_lease option \<Rightarrow> be32 res" where
  "sd_dhcp_lease_get_address lease =
     (case lease of None \<Rightarrow> Inl (Errno EINVAL)
      | Some l \<Rightarrow> if le_address l = 0 then Inl (Errno ENODATA) else Inr (le_address l))"

definition sd_dhcp_lease_get_broadcast :: "sd_dhcp_lease option \<Rightarrow> be32 res" where
  "sd_dhcp_lease_get_broadcast lease =
     (case lease of None \<Rightarrow> Inl (Errno EINVAL)
      | Some l \<Rightarrow> if \<not> le_have_broadcast l then Inl (Errno ENODATA) else Inr (le_broadcast l))"

definition sd_dhcp_lease_get_lifetime :: "sd_dhcp_lease option \<Rightarrow> u32 res" where
  "sd_dhcp_lease_get_lifetime lease =
     (case lease of None \<Rightarrow> Inl (Errno EINVAL)
      | Some l \<Rightarrow> if le_lifetime l \<le> 0 then Inl (Errno ENODATA) else Inr (le_lifetime l))"

definition sd_dhcp_lease_get_t1 :: "sd_dhcp_lease option \<Rightarrow> u32 res" where
  "sd_dhcp_lease_get_t1 lease =
     (case lease of None \<Rightarrow> Inl (Errno EINVAL)
      | Some l \<Rightarrow> if le_t1 l \<le> 0 then Inl (Errno ENODATA) else Inr (le_t1 l))"

definition sd_dhcp_lease_get_t2 :: "sd_dhcp_lease option \<Rightarrow> u32 res" where
  "sd_dhcp_lease_get_t2 lease =
     (case lease of None \<Rightarrow> Inl (Errno EINVAL)
      | Some l \<Rightarrow> if le_t2 l \<le> 0 then Inl (Errno ENODATA) else Inr (le_t2 l))"

definition sd_dhcp_lease_get_mtu :: "sd_dhcp_lease option \<Rightarrow> u16 res" where
  "sd_dhcp_lease_get_mtu lease =
     (case lease of None \<Rightarrow> Inl (Errno EINVAL)
      | Some l \<Rightarrow> if le_mtu l \<le> 0 then Inl (Errno ENODATA) else Inr (le_mtu l))"

definition sd_dhcp_lease_get_dns :: "sd_dhcp_lease option \<Rightarrow> be32 list res" where
  "sd_dhcp_lease_get_dns lease =
     (case lease of None \<Rightarrow> Inl (Errno EINVAL)
      | Some l \<Rightarrow> if le_dns l = [] then Inl (Errno ENODATA) else Inr (le_dns l))"

definition sd_dhcp_lease_get_ntp :: "sd_dhcp_lease option \<Rightarrow> be32 list res" where
  "sd_dhcp_lease_get_ntp lease =
     (case lease of None \<Rightarrow> Inl (Errno EINVAL)
      | Some l \<Rightarrow> if le_ntp l = [] then Inl (Errno ENODATA) else Inr (le_ntp l))"

definition get_pointer :: "'a option \<Rightarrow> 'a res" where
  "get_pointer p = (case p of None \<Rightarrow> Inl (Errno ENODATA) | Some x \<Rightarrow> Inr x)"

definition sd_dhcp_lease_get_domainname :: "sd_dhcp_lease option \<Rightarrow> cstr res" where
  "sd_dhcp_lease_get_domainname lease =
     (case lease of None \<Rightarrow> Inl (Errno EINVAL) | Some l \<Rightarrow> get_pointer (le_domainname l))"

definition sd_dhcp_lease_get_hostname :: "sd_dhcp_lease option \<Rightarrow> cstr res" where
  "sd_dhcp_lease_get_hostname lease =
     (case lease of None \<Rightarrow> Inl (Errno EINVAL) | Some l \<Rightarrow> get_pointer (le_hostname l))"

definition sd_dhcp_lease_get_root_path :: "sd_dhcp_lease option \<Rightarrow> cstr res" where
  "sd_dhcp_lease_get_root_path lease =
     (case lease of None \<Rightarrow> Inl (Errno EINVAL) | Some l \<Rightarrow> get_pointer (le_root_path l))"

definition sd_dhcp_lease_get_timezone :: "sd_dhcp_lease option \<Rightarrow> cstr res" where
  "sd_dhcp_lease_get_timezone lease =
     (case lease of None \<Rightarrow> Inl (Errno EINVAL) | Some l \<Rightarrow> get_pointer (le_timezone l))"

definition sd_dhcp_lease_get_router :: "sd_dhcp_lease option \<Rightarrow> be32 res" where
  "sd_dhcp_lease_get_router lease =
     (case lease of None \<Rightarrow> Inl (Errno EINVAL)
      | Some l \<Rightarrow> if le_router l = 0 then Inl (Errno ENODATA) else Inr (le_router l))"

definition sd_dhcp_lease_get_netmask :: "sd_dhcp_lease option \<Rightarrow> be32 res" where
  "sd_dhcp_lease_get_netmask lease =
     (case lease of None \<Rightarrow> Inl (Errno EINVAL)
      | Some l \<Rightarrow> if \<not> le_have_subnet_mask l then Inl (Errno ENODATA) else Inr (le_subnet_mask l))"

definition sd_dhcp_lease_get_server_identifier :: "sd_dhcp_lease option \<Rightarrow> be32 res" where
  "sd_dhcp_lease_get_server_identifier lease =
     (case lease of None \<Rightarrow> Inl (Errno EINVAL)
      | Some l \<Rightarrow> if le_server_address l = 0 then Inl (Errno ENODATA) else Inr (le_server_address l))"

definition sd_dhcp_lease_get_next_server :: "sd_dhcp_lease option \<Rightarrow> be32 res" where
  "sd_dhcp_lease_get_next_server lease =
     (case lease of None \<Rightarrow> Inl (Errno EINVAL)
      | Some l \<Rightarrow> if le_next_server l = 0 then Inl (Errno ENODATA) else Inr (le_next_server l))"

definition sd_dhcp_lease_get_routes :: "alloc \<Rightarrow> sd_dhcp_lease option \<Rightarrow> sd_dhcp_route list res" where
  "sd_dhcp_lease_get_routes alloc lease =
     (case lease of None \<Rightarrow> Inl (Errno EINVAL)
      | Some l \<Rightarrow>
          if le_static_route l = [] then Inl (Errno ENODATA)
          else if \<not> alloc (8 * length (le_static_route l)) then Inl (Errno ENOMEM)
          else Inr (le_static_route l))"

definition sd_dhcp_lease_get_vendor_specific :: "sd_dhcp_lease option \<Rightarrow> (u8 list option \<times> nat) res" where
  "sd_dhcp_lease_get_vendor_specific lease =
     (case lease of None \<Rightarrow> Inl (Errno EINVAL)
      | Some l \<Rightarrow> if le_vendor_specific_len l = 0 then Inl (Errno ENODATA)
          else Inr (le_vendor_specific l, le_vendor_specific_len l))"

definition sd_dhcp_lease_get_client_id :: "sd_dhcp_lease option \<Rightarrow> (u8 list \<times> nat) res" where
  "sd_dhcp_lease_get_client_id lease =
     (case lease of None \<Rightarrow> Inl (Errno EINVAL)
      | Some l \<Rightarrow> (case le_client_id l of None \<Rightarrow> Inl (Errno ENODATA) | Some c \<Rightarrow> Inr (c, le_client_id_len l)))"

definition dhcp_lease_set_client_id :: "alloc \<Rightarrow> sd_dhcp_lease option \<Rightarrow> u8 list \<Rightarrow> sd_dhcp_lease res" where
  "dhcp_lease_set_client_id alloc lease client_id =
     (case lease of None \<Rightarrow> Inl (Errno EINVAL)
      | Some l \<Rightarrow>
          if client_id = [] then Inr (l\<lparr>le_client_id := None\<rparr>)
          else if \<not> alloc (length client_id) then Inl (Errno ENOMEM)
          else Inr (l\<lparr>le_client_id := Some client_id, le_client_id_len := length client_id\<rparr>))"

definition dhcp_lease_set_default_subnet_mask :: "sd_dhcp_lease \<Rightarrow> sd_dhcp_lease res" where
  "dhcp_lease_set_default_subnet_mask lease =
     (if le_address lease = 0 then Inl (Errno ENODATA)
      else rbind (in_addr_default_subnet_mask (le_address lease)) (\<lambda>mask.
        Inr (lease\<lparr>le_subnet_mask := mask, le_have_subnet_mask := True\<rparr>)))"

section \<open>Reference count\<close>

definition sd_dhcp_lease_ref :: "sd_dhcp_lease \<Rightarrow> sd_dhcp_lease res" where
  "sd_dhcp_lease_ref lease =
     (if le_n_ref lease < 1 then Inl Abort else Inr (lease\<lparr>le_n_ref := le_n_ref lease + 1\<rparr>))"

text \<open>Unlinking and freeing the private options; a freed node leaves the store.\<close>

partial_function (option) free_private ::
  "sd_dhcp_raw_option lheap \<Rightarrow> nat option \<Rightarrow> sd_dhcp_raw_option lheap res option" where
  "free_private h head =
     (case head of
        None \<Rightarrow> Some (Inr h)
      | Some a \<Rightarrow>
          (case LIST_REMOVE h head a of
             Inl e \<Rightarrow> Some (Inl e)
           | Inr (h, head) \<Rightarrow>
               (case h a of None \<Rightarrow> Some (Inl UseAfterFree) | Some _ \<Rightarrow> free_private (h(a := None)) head)))"

text \<open>Dropping a reference: the lease that is left, or \<open>None\<close> when the last one has gone.\<close>

definition sd_dhcp_lease_unref :: "sd_dhcp_lease \<Rightarrow> sd_dhcp_lease option res" where
  "sd_dhcp_lease_unref lease =
     (if le_n_ref lease < 1 then Inl Abort
      else if le_n_ref lease - 1 > 0 then Inr (Some (lease\<lparr>le_n_ref := le_n_ref lease - 1\<rparr>))
      else case free_private (le_heap lease) (le_private_options lease) of
        None \<Rightarrow> Inl Diverges
      | Some r \<Rightarrow> rbind r (\<lambda>_. Inr None))"

end
