(* ===== verification/Dhcp_Lease_Facts.thy ===== *)
theory Dhcp_Lease_Facts
  imports Dhcp_Lease
begin

text \<open>
  Facts about the lease model of \<open>Dhcp_Lease\<close>: the list of private options as an ordered table, the
  static routes of options 33 and 121, and what any message of a server can do to a lease.
\<close>

section \<open>Private options\<close>

definition tag_at :: "sd_dhcp_raw_option lheap \<Rightarrow> nat \<Rightarrow> u8" where
  "tag_at h a = o_tag (l_item (the (h a)))"

lemma find_private_chain:
  "lseg h p i as None \<Longrightarrow>
   find_private h i tag =
     Some (Inr (case dropWhile (\<lambda>a. tag_at h a < tag) as of
       [] \<Rightarrow> Inr None
     | a # _ \<Rightarrow> if tag_at h a = tag then Inl () else Inr (Some a)))"
proof (induction as arbitrary: p i)
  case Nil
  then show ?case by (subst find_private.simps) simp
next
  case (Cons a as)
  then obtain n where n: "i = Some a" "h a = Some n" "lseg h (Some a) (l_next n) as None"
    by (auto split: option.splits)
  then show ?case
    using Cons.IH [OF n(3)] by (subst find_private.simps) (auto simp: tag_at_def)
qed

text \<open>
  \<open>private_view lease os\<close>: walking from the head of the list meets the options \<open>os\<close>, in the order of
  their tags.
\<close>

definition private_view :: "sd_dhcp_lease \<Rightarrow> sd_dhcp_raw_option list \<Rightarrow> bool" where
  "private_view lease os \<longleftrightarrow>
     (\<exists>p as. chain (le_heap lease) p (le_private_options lease) as \<and> items (le_heap lease) as = os)
     \<and> sorted_wrt (<) (map o_tag os) \<and> (\<forall>a \<in> dom (le_heap lease). a < le_brk lease)"

lemma chain_frame:
  "b \<notin> set as \<Longrightarrow> b \<notin> dom h \<Longrightarrow> chain h p head as \<Longrightarrow> chain (h(b \<mapsto> n)) p head as"
  by (auto simp: chain_def lseg_frame)

lemma chain_dom: "chain h p head as \<Longrightarrow> set as \<subseteq> dom h"
  by (auto simp: chain_def dest: lseg_dom)

lemma chain_head: "chain h p head (a # as) \<Longrightarrow> head = Some a"
  by (simp add: chain_def)

definition below :: "u8 \<Rightarrow> sd_dhcp_raw_option \<Rightarrow> bool" where
  "below tag r \<longleftrightarrow> o_tag r < tag"

text \<open>What inserting an option does to the options that can be reached.\<close>

definition insert_view ::
  "sd_dhcp_raw_option \<Rightarrow> sd_dhcp_raw_option list \<Rightarrow> sd_dhcp_raw_option list" where
  "insert_view r os =
     (if o_tag r \<in> o_tag ` set os then os
      else if os \<noteq> [] \<and> o_tag r < o_tag (hd os) then os
      else takeWhile (below (o_tag r)) os @ r # dropWhile (below (o_tag r)) os)"

lemma sorted_dropWhile_mem:
  assumes "sorted_wrt (<) (map o_tag os)"
  shows "tag \<in> o_tag ` set os \<longleftrightarrow>
    (\<exists>r rs. dropWhile (below tag) os = r # rs \<and> o_tag r = tag)"
  using assms
proof (induction os)
  case (Cons x os)
  then show ?case by (auto simp: below_def)
qed simp

lemma sorted_insert_view:
  assumes "sorted_wrt (<) (map o_tag os)"
  shows "sorted_wrt (<) (map o_tag (insert_view r os))"
proof (cases "o_tag r \<in> o_tag ` set os \<or> os \<noteq> [] \<and> o_tag r < o_tag (hd os)")
  case True
  then show ?thesis using assms by (auto simp: insert_view_def)
next
  case False
  let ?xs = "takeWhile (below (o_tag r)) os" and ?ys = "dropWhile (below (o_tag r)) os"
  have "sorted_wrt (<) (map o_tag (?xs @ ?ys))" using assms by simp
  then have s: "sorted_wrt (<) (map o_tag ?xs)" "sorted_wrt (<) (map o_tag ?ys)"
    "\<forall>x\<in>set ?xs. \<forall>y\<in>set ?ys. o_tag x < o_tag y"
    unfolding map_append sorted_wrt_append by simp_all
  have lo: "\<forall>x\<in>set ?xs. o_tag x < o_tag r"
    using set_takeWhileD [of _ "below (o_tag r)" os] by (auto simp: below_def)
  have hi: "\<forall>y\<in>set ?ys. o_tag r < o_tag y"
  proof (cases ?ys)
    case (Cons y ys')
    then have "\<not> below (o_tag r) y" using hd_dropWhile [of "below (o_tag r)" os] by simp
    moreover have "y \<in> set os" using Cons set_dropWhileD [of y "below (o_tag r)" os] by simp
    ultimately have "o_tag r < o_tag y" using False by (metis below_def image_eqI linorder_neqE)
    then show ?thesis using s(2) Cons by auto
  next
    case Nil
    show ?thesis unfolding Nil by simp
  qed
  have "sorted_wrt (<) (map o_tag (?xs @ r # ?ys))"
    using s lo hi by (auto simp: sorted_wrt_append)
  then show ?thesis using False by (auto simp: insert_view_def)
qed


lemma items_split:
  assumes "items h as = xs @ ys"
  obtains bs cs where "as = bs @ cs" "items h bs = xs" "items h cs = ys"
proof
  show "as = take (length xs) as @ drop (length xs) as" by simp
  have l: "length as = length xs + length ys" using arg_cong [OF assms, of length] by (simp add: items_def)
  show "items h (take (length xs) as) = xs" "items h (drop (length xs) as) = ys"
    using assms by (simp_all add: items_def take_map [symmetric] drop_map [symmetric])
qed

lemma dropWhile_items:
  "dropWhile (below tag) (items h as) = items h (dropWhile (\<lambda>a. tag_at h a < tag) as)"
  "takeWhile (below tag) (items h as) = items h (takeWhile (\<lambda>a. tag_at h a < tag) as)"
  by (induction as) (auto simp: items_def below_def tag_at_def)

lemma items_hd:
  "(\<exists>r rs. items h ds = r # rs \<and> o_tag r = tag) \<longleftrightarrow> (\<exists>a rest. ds = a # rest \<and> tag_at h a = tag)"
  by (cases ds) (auto simp: items_Cons tag_at_def)

definition raw_option :: "u8 \<Rightarrow> u8 list \<Rightarrow> sd_dhcp_raw_option" where
  "raw_option tag data = \<lparr>o_tag = tag, o_length = of_nat (length data), o_data = data\<rparr>"

text \<open>Linking a fresh node in at its place gives \<open>insert_view\<close>.\<close>

lemma link_private:
  assumes ch: "chain h p head as" and srt: "sorted_wrt (<) (map o_tag (items h as))"
    and a0: "a0 \<notin> set as" "p \<noteq> Some a0" and node: "h a0 = Some n" "l_item n = r"
    and new: "o_tag r \<notin> o_tag ` set (items h as)"
  shows "\<exists>h' head' p' as'. LIST_INSERT_BEFORE h head
      (case dropWhile (\<lambda>a. tag_at h a < o_tag r) as of [] \<Rightarrow> None | a # _ \<Rightarrow> Some a) a0 = Inr (h', head')
    \<and> chain h' p' head' as' \<and> dom h' = dom h \<and> items h' as' = insert_view r (items h as)"
proof -
  let ?P = "\<lambda>a. tag_at h a < o_tag r"
  have tw: "takeWhile (below (o_tag r)) (items h as) = items h (takeWhile ?P as)"
    and dw: "dropWhile (below (o_tag r)) (items h as) = items h (dropWhile ?P as)"
    by (rule dropWhile_items)+
  show ?thesis
  proof (cases "dropWhile ?P as")
    case Nil
    then have all: "\<forall>a\<in>set as. ?P a" by (simp add: dropWhile_eq_Nil_conv)
    then have tk: "takeWhile ?P as = as" by (simp add: takeWhile_eq_all_conv)
    have "\<not> (items h as \<noteq> [] \<and> o_tag r < o_tag (hd (items h as)))"
      using all by (cases as) (auto simp: items_Cons tag_at_def)
    then have "insert_view r (items h as) = items h as @ [r]"
      using new unfolding insert_view_def tw dw Nil tk by simp
    then show ?thesis
      using insert_before_append [OF ch a0(1) node(1) a0(2)] node(2) unfolding Nil list.case by metis
  next
    case (Cons a rest)
    have hi: "o_tag r < tag_at h a"
    proof -
      have "\<not> ?P a" using Cons hd_dropWhile [of ?P as] by simp
      moreover have "a \<in> set as" using Cons set_dropWhileD [of a ?P as] by simp
      ultimately show ?thesis using new by (auto simp: items_def tag_at_def not_less order.order_iff_strict)
    qed
    show ?thesis
    proof (cases "takeWhile ?P as" rule: rev_cases)
      case Nil
      then have as: "as = a # rest" using Cons takeWhile_dropWhile_id [of ?P as] by simp
      then have "insert_view r (items h as) = items h as"
        using hi by (auto simp: insert_view_def items_Cons tag_at_def)
      then show ?thesis
        using insert_before_head [of h p a rest a0 n] ch a0 node as chain_head [of h p head a rest]
        unfolding Cons list.case by metis
    next
      case (snoc zs q)
      then have as: "as = zs @ q # a # rest" using Cons takeWhile_dropWhile_id [of ?P as] by simp
      have q: "\<forall>x\<in>set (zs @ [q]). ?P x" using snoc set_takeWhileD [of _ ?P as] by metis
      have "\<not> o_tag r < o_tag (hd (items h as))"
        using q as by (cases zs) (auto simp: items_Cons items_append tag_at_def)
      then have "insert_view r (items h as) = items h (zs @ [q]) @ r # items h (a # rest)"
        using new tw dw snoc Cons by (auto simp: insert_view_def)
      then show ?thesis
        using insert_before_inner [of h p head zs q a rest a0 n] ch a0 node as
        unfolding Cons list.case by metis
    qed
  qed
qed

lemma insert_private_view:
  assumes view: "private_view lease os" and al: "alloc 32" "alloc (length data)"
  shows "\<exists>lease'. dhcp_lease_insert_private_option alloc lease tag data = Inr (lease', None)
    \<and> private_view lease' (insert_view (raw_option tag data) os)"
proof -
  let ?r = "raw_option tag data"
  define h a0 node where "h = le_heap lease" and "a0 = le_brk lease"
    and "node = \<lparr>l_next = None, l_prev = None, l_item = ?r\<rparr>"
  obtain p as where ch: "chain h p (le_private_options lease) as" and os: "items h as = os"
    and srt: "sorted_wrt (<) (map o_tag os)" and brk: "\<forall>a \<in> dom h. a < a0"
    using view by (auto simp: private_view_def h_def a0_def)
  have fresh: "a0 \<notin> dom h" using brk by auto
  then have na: "a0 \<notin> set as" "p \<noteq> Some a0" using chain_dom [OF ch] ch by (auto simp: chain_def)
  have c1: "chain (h(a0 \<mapsto> node)) p (le_private_options lease) as"
    using ch fresh na by (intro chain_frame) auto
  have i1: "items (h(a0 \<mapsto> node)) as = os" using na os by (simp add: items_frame)
  have t1: "dropWhile (\<lambda>a. tag_at (h(a0 \<mapsto> node)) a < tag) as = dropWhile (\<lambda>a. tag_at h a < tag) as"
    using na by (intro dropWhile_cong) (auto simp: tag_at_def)
  have rt: "o_tag ?r = tag" by (simp add: raw_option_def)
  have fp: "find_private h (le_private_options lease) tag =
     Some (Inr (case dropWhile (\<lambda>a. tag_at h a < tag) as of [] \<Rightarrow> Inr None
       | a # _ \<Rightarrow> if tag_at h a = tag then Inl () else Inr (Some a)))"
    using ch by (intro find_private_chain) (auto simp: chain_def)
  have dw: "dropWhile (below tag) os = items h (dropWhile (\<lambda>a. tag_at h a < tag) as)"
    unfolding os [symmetric] by (rule dropWhile_items(1))
  have mem: "tag \<in> o_tag ` set os \<longleftrightarrow> (\<exists>a rest. dropWhile (\<lambda>a. tag_at h a < tag) as = a # rest \<and> tag_at h a = tag)"
    unfolding sorted_dropWhile_mem [OF srt] dw
    by (rule items_hd)
  show ?thesis
  proof (cases "tag \<in> o_tag ` set os")
    case True
    then obtain a rest where "dropWhile (\<lambda>a. tag_at h a < tag) as = a # rest" "tag_at h a = tag"
      using mem by blast
    then have "find_private h (le_private_options lease) tag = Some (Inr (Inl ()))"
      using fp by simp
    then have "dhcp_lease_insert_private_option alloc lease tag data = Inr (lease, None)"
      by (simp add: dhcp_lease_insert_private_option_def h_def)
    moreover have "insert_view ?r os = os" using True by (simp add: insert_view_def rt)
    ultimately show ?thesis using view by simp
  next
    case False
    obtain h' head' p' as' where li: "LIST_INSERT_BEFORE (h(a0 \<mapsto> node)) (le_private_options lease)
        (case dropWhile (\<lambda>a. tag_at h a < tag) as of [] \<Rightarrow> None | a # _ \<Rightarrow> Some a) a0 = Inr (h', head')"
      and c': "chain h' p' head' as'" "dom h' = dom (h(a0 \<mapsto> node))" "items h' as' = insert_view ?r os"
      using link_private [OF c1 _ na, of node ?r, unfolded i1 rt t1, OF srt] False by (auto simp: node_def)
    have "find_private h (le_private_options lease) tag =
      Some (Inr (Inr (case dropWhile (\<lambda>a. tag_at h a < tag) as of [] \<Rightarrow> None | a # _ \<Rightarrow> Some a)))"
    proof (cases "dropWhile (\<lambda>a. tag_at h a < tag) as")
      case Nil
      show ?thesis using fp unfolding Nil by simp
    next
      case (Cons a rest)
      then have "tag_at h a \<noteq> tag" using False mem by blast
      then show ?thesis using fp unfolding Cons by simp
    qed
    then have "dhcp_lease_insert_private_option alloc lease tag data =
        Inr (lease\<lparr>le_heap := h', le_private_options := head', le_brk := a0 + 1\<rparr>, None)"
      using li al by (simp add: dhcp_lease_insert_private_option_def h_def a0_def node_def raw_option_def)
    moreover have "a < a0 + 1" if "a \<in> dom h'" for a
      using that brk c'(2) by (cases "a = a0") (simp_all add: less_SucI)
    ultimately show ?thesis
      using c' sorted_insert_view [OF srt] by (auto simp: private_view_def)
  qed
qed

text \<open>A list without a lost predecessor: options inserted in the order of their tags keep it so.\<close>

definition private_list :: "sd_dhcp_lease \<Rightarrow> sd_dhcp_raw_option list \<Rightarrow> bool" where
  "private_list lease os \<longleftrightarrow>
     (\<exists>as. dlist (le_heap lease) (le_private_options lease) as \<and> items (le_heap lease) as = os)
     \<and> sorted_wrt (<) (map o_tag os) \<and> (\<forall>a \<in> dom (le_heap lease). a < le_brk lease)"

lemma insert_private_append:
  assumes list: "private_list lease os" and al: "alloc 32" "alloc (length data)"
    and above: "\<forall>r \<in> set os. o_tag r < tag"
  shows "\<exists>lease'. dhcp_lease_insert_private_option alloc lease tag data = Inr (lease', None)
    \<and> private_list lease' (os @ [raw_option tag data]) \<and> le_n_ref lease' = le_n_ref lease"
proof -
  define h a0 node where "h = le_heap lease" and "a0 = le_brk lease"
    and "node = \<lparr>l_next = None, l_prev = None, l_item = raw_option tag data\<rparr>"
  obtain as where ch: "dlist h (le_private_options lease) as" and os: "items h as = os"
    and srt: "sorted_wrt (<) (map o_tag os)" and brk: "\<forall>a \<in> dom h. a < a0"
    using list by (auto simp: private_list_def h_def a0_def)
  have fresh: "a0 \<notin> dom h" using brk by auto
  then have na: "a0 \<notin> set as" using chain_dom [OF ch] by auto
  have "dropWhile (\<lambda>a. tag_at h a < tag) as = []"
    using above os by (auto simp: dropWhile_eq_Nil_conv tag_at_def items_def)
  then have fp: "find_private h (le_private_options lease) tag = Some (Inr (Inr None))"
    using find_private_chain [of h None "le_private_options lease" as tag] ch
    unfolding chain_def by (simp only:) simp
  have c1: "dlist (h(a0 \<mapsto> node)) (le_private_options lease) as"
    using ch fresh na by (intro chain_frame) auto
  obtain h' head' where li: "LIST_INSERT_BEFORE (h(a0 \<mapsto> node)) (le_private_options lease) None a0 = Inr (h', head')"
    and c': "dlist h' head' (as @ [a0])" "dom h' = dom (h(a0 \<mapsto> node))" "items h' (as @ [a0]) = os @ [raw_option tag data]"
    using insert_before_append [OF c1 na, of node] na os by (auto simp: node_def items_frame)
  have "dhcp_lease_insert_private_option alloc lease tag data =
      Inr (lease\<lparr>le_heap := h', le_private_options := head', le_brk := a0 + 1\<rparr>, None)"
    using li al fp by (simp add: dhcp_lease_insert_private_option_def h_def a0_def node_def raw_option_def)
  moreover have "a < a0 + 1" if "a \<in> dom h'" for a
    using that brk c'(2) by (cases "a = a0") (simp_all add: less_SucI)
  moreover have "sorted_wrt (<) (map o_tag (os @ [raw_option tag data]))"
    using srt above by (simp add: sorted_wrt_append raw_option_def)
  ultimately show ?thesis using c' by (auto simp: private_list_def simp del: map_append)
qed

lemma free_private_dlist: "dlist h head as \<Longrightarrow> \<exists>h'. free_private h head = Some (Inr h')"
proof (induction as arbitrary: h head)
  case Nil
  then show ?case by (subst free_private.simps) (simp add: chain_def)
next
  case (Cons a as)
  obtain h1 head1 where r: "LIST_REMOVE h head a = Inr (h1, head1)" "dlist h1 head1 as" "dom h1 = dom h"
    using remove_first [OF Cons.prems] by auto
  have a: "head = Some a" "a \<notin> set as" "a \<in> dom h"
    using Cons.prems chain_dom [OF Cons.prems] by (auto simp: chain_def)
  have "dlist (h1(a := None)) head1 as" using r(2) a(2) by (auto simp: chain_def lseg_frame)
  then obtain h' where "free_private (h1(a := None)) head1 = Some (Inr h')" using Cons.IH by blast
  moreover obtain n where "h1 a = Some n" using a(3) r(3) by auto
  ultimately show ?case using r a by (subst free_private.simps) auto
qed

lemma free_private_lost:
  assumes "chain h (Some q) (Some a) (a # as)"
  shows "free_private h (Some a) = Some (Inl UseAfterFree)"
proof -
  obtain na nq where na: "h a = Some na" "l_prev na = Some q" and nq: "h q = Some nq" "q \<noteq> a" "q \<notin> set as"
    and rest: "lseg h (Some a) (l_next na) as None" and d: "distinct (a # as)"
    using assms by (auto simp: chain_def split: option.splits)
  have "\<exists>h'. LIST_REMOVE h (Some a) a = Inr (h', Some a) \<and> a \<in> dom h'"
  proof (cases as)
    case Nil
    then show ?thesis using na nq rest by (auto simp: LIST_REMOVE_def link_defs)
  next
    case (Cons b bs)
    then obtain nb where "h b = Some nb" "l_next na = Some b" using rest by (auto split: option.splits)
    then show ?thesis using na nq d Cons by (auto simp: LIST_REMOVE_def link_defs)
  qed
  then obtain h' where h': "LIST_REMOVE h (Some a) a = Inr (h', Some a)" "a \<in> dom h'" by blast
  have "LIST_REMOVE (h'(a := None)) (Some a) a = Inl UseAfterFree"
    by (simp add: LIST_REMOVE_def deref_def)
  then have "free_private (h'(a := None)) (Some a) = Some (Inl UseAfterFree)"
    by (subst free_private.simps) simp
  then show ?thesis using h' by (subst free_private.simps) auto
qed

fun insert_all :: "alloc \<Rightarrow> (u8 \<times> u8 list) list \<Rightarrow> sd_dhcp_lease \<Rightarrow> sd_dhcp_lease res" where
  "insert_all alloc [] lease = Inr lease"
| "insert_all alloc ((tag, data) # os) lease =
     rbind (dhcp_lease_insert_private_option alloc lease tag data) (\<lambda>(lease, _). insert_all alloc os lease)"

lemma insert_all_sorted:
  assumes "private_list lease os" "\<And>n. alloc n" "sorted_wrt (<) (map o_tag os @ map fst ts)"
  shows "\<exists>lease'. insert_all alloc ts lease = Inr lease'
    \<and> private_list lease' (os @ map (\<lambda>(t, d). raw_option t d) ts) \<and> le_n_ref lease' = le_n_ref lease"
  using assms(1,3)
proof (induction ts arbitrary: lease os)
  case (Cons td ts)
  obtain t d where td: "td = (t, d)" by force
  have "\<forall>r \<in> set os. o_tag r < t" using Cons.prems(2) td by (auto simp: sorted_wrt_append)
  then obtain lease1 where l1: "dhcp_lease_insert_private_option alloc lease t d = Inr (lease1, None)"
    "private_list lease1 (os @ [raw_option t d])" "le_n_ref lease1 = le_n_ref lease"
    using insert_private_append [OF Cons.prems(1), of alloc d t] assms(2) by blast
  have "sorted_wrt (<) (map o_tag (os @ [raw_option t d]) @ map fst ts)"
    using Cons.prems(2) td by (simp add: raw_option_def)
  then show ?case using Cons.IH [OF l1(2)] l1 td by auto
qed simp

lemma new_private_list: "dhcp_lease_new alloc = Inr lease \<Longrightarrow> private_list lease [] \<and> le_n_ref lease = 1"
  by (auto simp: dhcp_lease_new_def private_list_def chain_def items_def split: if_splits)

text \<open>
  C14.  Private options that arrive in the order of their tags are all kept, in that order, and
  dropping the last reference of the lease frees the list without touching freed memory.
\<close>

theorem private_options_in_order:
  assumes "\<And>n. alloc n" and "dhcp_lease_new alloc = Inr lease" and "sorted_wrt (<) (map fst ts)"
  shows "\<exists>lease'. insert_all alloc ts lease = Inr lease'
    \<and> private_list lease' (map (\<lambda>(t, d). raw_option t d) ts) \<and> sd_dhcp_lease_unref lease' = Inr None"
proof -
  obtain lease' where l: "insert_all alloc ts lease = Inr lease'"
    "private_list lease' (map (\<lambda>(t, d). raw_option t d) ts)" "le_n_ref lease' = 1"
    using insert_all_sorted [of lease "[]" alloc ts] new_private_list [OF assms(2)] assms by auto
  then obtain as where "dlist (le_heap lease') (le_private_options lease') as"
    by (auto simp: private_list_def)
  then obtain h' where "free_private (le_heap lease') (le_private_options lease') = Some (Inr h')"
    using free_private_dlist by blast
  then show ?thesis using l by (auto simp: sd_dhcp_lease_unref_def)
qed

theorem private_options_in_order_witness:
  "\<exists>lease'. rbind (dhcp_lease_new (\<lambda>_. True)) (insert_all (\<lambda>_. True) [(224, [1]), (230, [])]) = Inr lease'
    \<and> private_list lease' [raw_option 224 [1], raw_option 230 []] \<and> sd_dhcp_lease_unref lease' = Inr None"
proof -
  obtain lease where "dhcp_lease_new (\<lambda>_. True) = Inr lease" by (simp add: dhcp_lease_new_def)
  then show ?thesis
    using private_options_in_order [of "\<lambda>_. True" lease "[(224, [1]), (230, [])]"] by simp
qed

text \<open>
  C15.  A private option whose tag is smaller than those of the options already there is linked in
  front of the first node without moving the head of the list: it is lost, and dropping the last
  reference of the lease then uses a freed node.
\<close>

theorem private_option_lost:
  assumes list: "private_list lease os" and ne: "os \<noteq> []" and lt: "tag < o_tag (hd os)"
    and al: "alloc 32" "alloc (length data)" and ref: "le_n_ref lease = 1"
  shows "\<exists>lease'. dhcp_lease_insert_private_option alloc lease tag data = Inr (lease', None)
    \<and> private_view lease' os \<and> sd_dhcp_lease_unref lease' = Inl UseAfterFree"
proof -
  define h a0 node where "h = le_heap lease" and "a0 = le_brk lease"
    and "node = \<lparr>l_next = None, l_prev = None, l_item = raw_option tag data\<rparr>"
  obtain bs where bs: "dlist h (le_private_options lease) bs" "items h bs = os"
    and srt: "sorted_wrt (<) (map o_tag os)" and brk: "\<forall>a \<in> dom h. a < a0"
    using list by (auto simp: private_list_def h_def a0_def)
  then obtain a as where "bs = a # as" using ne by (cases bs) auto
  then have ch: "dlist h (le_private_options lease) (a # as)" and os: "items h (a # as) = os"
    using bs by simp_all
  have fresh: "a0 \<notin> dom h" using brk by auto
  then have na: "a0 \<notin> set (a # as)" using chain_dom [OF ch] by auto
  have head: "le_private_options lease = Some a" using ch by (rule chain_head)
  have ta: "tag < tag_at h a" using lt os by (auto simp: items_Cons tag_at_def)
  then have fp: "find_private h (Some a) tag = Some (Inr (Inr (Some a)))"
    using find_private_chain [of h None "Some a" "a # as" tag] ch head by (auto simp: chain_def)
  have c1: "dlist (h(a0 \<mapsto> node)) (Some a) (a # as)"
    using ch fresh na unfolding head by (intro chain_frame) auto
  obtain h' where li: "LIST_INSERT_BEFORE (h(a0 \<mapsto> node)) (Some a) (Some a) a0 = Inr (h', Some a)"
    and c': "chain h' (Some a0) (Some a) (a # as)" "dom h' = dom (h(a0 \<mapsto> node))" "items h' (a # as) = os"
    using insert_before_head [OF c1 na, of node] items_frame [OF na, of h "Some node"] os by (auto simp: node_def)
  have ins: "dhcp_lease_insert_private_option alloc lease tag data =
      Inr (lease\<lparr>le_heap := h', le_private_options := Some a, le_brk := a0 + 1\<rparr>, None)"
    using li al fp head by (simp add: dhcp_lease_insert_private_option_def h_def a0_def node_def raw_option_def)
  have "x < a0 + 1" if "x \<in> dom h'" for x
    using that brk c'(2) by (cases "x = a0") (simp_all add: less_SucI)
  then have "private_view (lease\<lparr>le_heap := h', le_private_options := Some a, le_brk := a0 + 1\<rparr>) os"
    using c' srt by (auto simp: private_view_def)
  then show ?thesis
    using ins free_private_lost [OF c'(1)] ref by (simp add: sd_dhcp_lease_unref_def)
qed

theorem private_option_lost_witness:
  "\<exists>lease lease'. rbind (dhcp_lease_new (\<lambda>_. True)) (insert_all (\<lambda>_. True) [(230, [])]) = Inr lease
    \<and> dhcp_lease_insert_private_option (\<lambda>_. True) lease 224 [] = Inr (lease', None)
    \<and> private_view lease' [raw_option 230 []] \<and> sd_dhcp_lease_unref lease' = Inl UseAfterFree"
proof -
  obtain lease0 where n: "dhcp_lease_new (\<lambda>_. True) = Inr lease0" by (simp add: dhcp_lease_new_def)
  then obtain lease where l: "insert_all (\<lambda>_. True) [(230, [])] lease0 = Inr lease"
    "private_list lease [raw_option 230 []]" "le_n_ref lease = 1"
    using insert_all_sorted [of lease0 "[]" "\<lambda>_. True" "[(230, [])]"] new_private_list [OF n] by auto
  show ?thesis
    using private_option_lost [OF l(2), of 224 "\<lambda>_. True" "[]"] l n by (auto simp: raw_option_def)
qed

section \<open>Classful routes\<close>

text \<open>The first octets of the destinations in a static route option.\<close>

fun destinations :: "u8 list \<Rightarrow> u8 list" where
  "destinations (a # b # c # d # e # f # g # h # bs) = a # destinations bs"
| "destinations _ = []"

lemma destinations_step: "\<not> length bs < 8 \<Longrightarrow> destinations bs = hd bs # destinations (drop 8 bs)"
  by (cases bs rule: destinations.cases) (simp_all add: not_less)

lemma destinations_short: "length bs < 8 \<Longrightarrow> destinations bs = []"
  by (cases bs rule: destinations.cases) simp_all

lemma destinations_nth: "set (destinations bs) = (\<lambda>i. bs ! (8 * i)) ` {..<length bs div 8}"
proof (induction bs rule: destinations.induct)
  case (1 a b c d e f g h bs)
  have "length (a # b # c # d # e # f # g # h # bs) div 8 = Suc (length bs div 8)" by simp
  then show ?case
    using 1 by (simp only: lessThan_Suc_eq_insert_0 image_insert image_image) simp
qed simp_all

lemma class_bounds: "(x :: u8) < 128 \<Longrightarrow> x < 224" "(x :: u8) < 192 \<Longrightarrow> x < 224"
  by (simp_all add: word_less_nat_alt)

lemma default_prefixlen_class:
  "in_addr_default_prefixlen (take 4 bs) = Inl e \<Longrightarrow> bs \<noteq> [] \<Longrightarrow> \<not> hd bs < 224"
  "in_addr_default_prefixlen (take 4 bs) = Inr p \<Longrightarrow> hd bs < 224 \<and> unat p \<le> 32"
  by (cases bs; simp add: in_addr_default_prefixlen_def class_bounds split: if_splits)+

lemma routes_loop_returns:
  assumes "routes_loop bs rs = Some rs'"
  shows "\<forall>a \<in> set (destinations bs). a < 224"
proof (rule routes_loop.raw_induct [OF _ assms, where P = "\<lambda>bs _ _. \<forall>a \<in> set (destinations bs). a < 224"], goal_cases)
  case (1 loop bs rs rs')
  show ?case
  proof (cases "length bs < 8")
    case True
    then show ?thesis by (simp add: destinations_short)
  next
    case False
    show ?thesis
    proof (cases "in_addr_default_prefixlen (take 4 bs)")
      case (Inl e)
      then show ?thesis using 1 False by simp
    next
      case (Inr p)
      then show ?thesis
        using 1 False default_prefixlen_class(2) [OF Inr] by (auto simp: destinations_step)
    qed
  qed
qed

lemma routes_loop_total:
  "\<forall>a \<in> set (destinations bs). a < 224 \<Longrightarrow> \<exists>rs'. routes_loop bs rs = Some rs'"
proof (induction bs arbitrary: rs rule: measure_induct_rule [where f = length])
  case (less bs)
  show ?case
  proof (cases "length bs < 8")
    case True
    then show ?thesis by (subst routes_loop.simps) simp
  next
    case False
    then have "bs \<noteq> []" "hd bs < 224" using less.prems by (auto simp: destinations_step)
    then obtain p where p: "in_addr_default_prefixlen (take 4 bs) = Inr p"
      using default_prefixlen_class(1) [of bs] by (cases "in_addr_default_prefixlen (take 4 bs)") auto
    have "\<forall>a \<in> set (destinations (drop 8 bs)). a < 224"
      using less.prems False by (simp add: destinations_step)
    then obtain rs' where "routes_loop (drop 8 bs)
        (rs @ [\<lparr>r_dst_addr = inet_makeaddr (inet_netof (be32_of_bytes bs)) 0,
                r_gw_addr = be32_of_bytes (drop 4 bs), r_dst_prefixlen = p\<rparr>]) = Some rs'"
      using less.IH [of "drop 8 bs"] False by fastforce
    then show ?thesis using p False by (subst routes_loop.simps) simp
  qed
qed

lemma routes_loop_prefix:
  assumes "routes_loop bs rs = Some rs'" "\<forall>r \<in> set rs. unat (r_dst_prefixlen r) \<le> 32"
  shows "\<forall>r \<in> set rs'. unat (r_dst_prefixlen r) \<le> 32"
proof -
  let ?Q = "\<lambda>rs. \<forall>r \<in> set rs. unat (r_dst_prefixlen r) \<le> 32"
  have "?Q rs \<longrightarrow> ?Q rs'"
  proof (rule routes_loop.raw_induct [OF _ assms(1), where P = "\<lambda>_ rs rs'. ?Q rs \<longrightarrow> ?Q rs'"], goal_cases)
  case (1 loop bs rs rs')
  show ?case
  proof (cases "length bs < 8 \<or> (\<exists>e. in_addr_default_prefixlen (take 4 bs) = Inl e)")
    case True
    then show ?thesis using 1 by (auto split: if_splits)
  next
    case False
    then obtain p where p: "in_addr_default_prefixlen (take 4 bs) = Inr p"
      by (cases "in_addr_default_prefixlen (take 4 bs)") auto
    then have "unat p \<le> 32"
      using default_prefixlen_class(2) [OF p] by simp
    then show ?thesis using 1(1) [of "drop 8 bs" "rs @ [\<lparr>r_dst_addr = inet_makeaddr (inet_netof (be32_of_bytes bs)) 0,
        r_gw_addr = be32_of_bytes (drop 4 bs), r_dst_prefixlen = p\<rparr>]" rs'] 1(2) False p by auto
  qed
  qed
  then show ?thesis using assms(2) by blast
qed

text \<open>
  C12.  Parsing a static route option never returns exactly when its length is a multiple of eight,
  the array can be grown and one of the destinations is a class D or E address (first octet 224 or
  more); every other option ends with the routes or an error.
\<close>

theorem lease_parse_routes_diverges:
  "lease_parse_routes alloc option routes allocated = Inl Diverges \<longleftrightarrow>
     length option mod 8 = 0
     \<and> greedy_realloc alloc allocated (of_nat (length routes + length option div 8)) 12 \<noteq> None
     \<and> (\<exists>i < length option div 8. 224 \<le> option ! (8 * i))"
proof -
  have d: "routes_loop option routes = None \<longleftrightarrow> (\<exists>i < length option div 8. 224 \<le> option ! (8 * i))"
  proof -
    have "routes_loop option routes = None \<longleftrightarrow> \<not> (\<forall>a \<in> set (destinations option). a < 224)"
      using routes_loop_returns [of option routes] routes_loop_total [of option routes]
      by (cases "routes_loop option routes") auto
    then show ?thesis unfolding destinations_nth by (auto simp: not_less)
  qed
  show ?thesis
  proof (cases "option = []")
    case False
    then show ?thesis
      using d by (auto simp: lease_parse_routes_def split: option.splits)
  qed (simp add: lease_parse_routes_def)
qed

section \<open>Classless routes\<close>

definition dst_octets :: "u8 \<Rightarrow> nat" where
  "dst_octets width = (if width = 0 then 0 else (unat width - 1) div 8 + 1)"

lemma dst_octets_le: "dst_octets width \<le> 4 \<longleftrightarrow> unat width \<le> 32"
proof (cases "width = 0")
  case False
  then have "0 < unat width" by (simp add: unat_gt_0)
  then show ?thesis using False by (auto simp: dst_octets_def)
qed (simp add: dst_octets_def)

text \<open>The RFC 3442 encoding of a route: prefix length, significant octets of the destination, gateway.\<close>

definition encode_route :: "sd_dhcp_route \<Rightarrow> u8 list" where
  "encode_route r =
     r_dst_prefixlen r # take (dst_octets (r_dst_prefixlen r)) (unaligned_write_be32 (r_dst_addr r))
       @ unaligned_write_be32 (r_gw_addr r)"

definition valid_route :: "sd_dhcp_route \<Rightarrow> bool" where
  "valid_route r \<longleftrightarrow> unat (r_dst_prefixlen r) \<le> 32
     \<and> be32_padded (take (dst_octets (r_dst_prefixlen r)) (unaligned_write_be32 (r_dst_addr r))) = r_dst_addr r"

lemma four_bytes: "length bs = 4 \<Longrightarrow> \<exists>a b c d. bs = [a, b, c, d]"
  by (simp add: numeral_eq_Suc length_Suc_conv) blast

lemma be32_padded_write:
  assumes "length bs = n" "n \<le> 4"
  shows "take n (unaligned_write_be32 (be32_padded bs)) = bs"
proof -
  obtain a b c d where "bs @ replicate (4 - length bs) 0 = [a, b, c, d]"
    using four_bytes [of "bs @ replicate (4 - length bs) 0"] assms by auto
  then have "unaligned_write_be32 (be32_padded bs) = bs @ replicate (4 - length bs) 0"
    by (simp add: be32_padded_def)
  then show ?thesis using assms by simp
qed

lemma write_be32_of_bytes: "4 \<le> length bs \<Longrightarrow> unaligned_write_be32 (be32_of_bytes bs) = take 4 bs"
  using four_bytes [of "take 4 bs"] append_take_drop_id [of 4 bs]
  by (metis (no_types, lifting) append_Cons append_Nil be32_of_bytes.simps(1) length_take min.absorb2 write_be32_read)

lemma greedy_realloc_ok:
  assumes "0 < need" "need < 2 ^ 40"
  obtains al where "greedy_realloc (\<lambda>_. True) allocated (of_nat need) 12 = Some al"
proof -
  have u: "unat (of_nat need :: u64) = need" using assms by (simp add: unat_of_nat)
  have n0: "(of_nat need :: u64) \<noteq> 0" using u assms(1) by (metis neq0_conv unat_0)
  have t: "unat (of_nat need * 2 :: u64) = need * 2" using assms by (simp add: unat_word_ariths u)
  define m where "m = max (of_nat need * 2) (64 div 12 :: u64)"
  have um: "unat m \<le> 2 * need + 5" "need \<le> unat m"
    by (auto simp: m_def max_def word_le_nat_alt t unat_div)
  have "unat (m * 12) = unat m * 12" using um assms by (simp add: unat_word_ariths)
  moreover have "unat (12 * of_nat need :: u64) = 12 * need" using assms by (simp add: unat_word_ariths u)
  ultimately have "\<not> m * 12 < 12 * of_nat need" using um by (simp add: word_less_nat_alt)
  moreover have "allocated \<noteq> 0" if "(of_nat need :: u64) \<le> allocated" using that n0 by auto
  ultimately have "\<exists>al. greedy_realloc (\<lambda>_. True) allocated (of_nat need) 12 = Some al"
    by (auto simp: greedy_realloc_def Let_def m_def)
  then show thesis using that by blast
qed

lemma classless_loop_encode:
  assumes "list_all valid_route rs" "length routes + length rs < 2 ^ 40"
  shows "\<exists>al. classless_loop (\<lambda>_. True) (concat (map encode_route rs)) routes allocated = (routes @ rs, al, None)"
  using assms
proof (induction rs arbitrary: routes allocated)
  case Nil
  then show ?case by (simp add: classless_loop.simps)
next
  case (Cons r rs)
  let ?o = "dst_octets (r_dst_prefixlen r)"
  obtain al where al: "greedy_realloc (\<lambda>_. True) allocated (of_nat (length routes + 1)) 12 = Some al"
    using greedy_realloc_ok [of "length routes + 1" allocated] Cons.prems(2) by auto
  have o4: "?o \<le> 4" and dst: "be32_padded (take ?o (unaligned_write_be32 (r_dst_addr r))) = r_dst_addr r"
    using Cons.prems(1) by (simp_all add: valid_route_def dst_octets_le)
  have r: "\<lparr>r_dst_addr = r_dst_addr r, r_gw_addr = r_gw_addr r, r_dst_prefixlen = r_dst_prefixlen r\<rparr> = r"
    by simp
  have "classless_loop (\<lambda>_. True) (concat (map encode_route (r # rs))) routes allocated =
      classless_loop (\<lambda>_. True) (concat (map encode_route rs)) (routes @ [r]) al"
    using al o4 dst
    by (subst classless_loop.simps) (simp add: encode_route_def dst_octets_def [symmetric] Let_def r)
  then show ?case using Cons.IH [of "routes @ [r]" al] Cons.prems by auto
qed

lemma classless_loop_valid:
  assumes "classless_loop alloc option routes allocated = (routes', al, e)"
  shows "\<exists>rs. routes' = routes @ rs \<and> list_all valid_route rs \<and> (e = None \<longrightarrow> option = concat (map encode_route rs))"
  using assms
proof (induction option arbitrary: routes allocated rule: measure_induct_rule [where f = length])
  case (less option)
  show ?case
  proof (cases option)
    case Nil
    then show ?thesis using less.prems by (auto simp: classless_loop.simps intro!: exI [of _ "[]"])
  next
    case (Cons w bs)
    note unfold = classless_loop.simps [of alloc option routes allocated]
    show ?thesis
    proof (cases "(\<exists>al. greedy_realloc alloc allocated (of_nat (length routes + 1)) 12 = Some al)
        \<and> dst_octets w \<le> 4 \<and> dst_octets w + 4 \<le> length bs")
      case False
      then have "routes' = routes \<and> e \<noteq> None"
        using less.prems Cons unfolding unfold
        by (auto simp: dst_octets_def [symmetric] Let_def not_le split: option.splits if_splits)
      then show ?thesis by auto
    next
      case True
      then obtain al1 where al1: "greedy_realloc alloc allocated (of_nat (length routes + 1)) 12 = Some al1" by blast
      let ?n = "dst_octets w"
      let ?r = "\<lparr>r_dst_addr = be32_padded (take ?n bs), r_gw_addr = be32_of_bytes (drop ?n bs), r_dst_prefixlen = w\<rparr>"
      have n: "\<not> 4 < ?n" "\<not> length bs < ?n" "\<not> length (drop ?n bs) < 4" using True by auto
      have "classless_loop alloc (drop 4 (drop ?n bs)) (routes @ [?r]) al1 = (routes', al, e)"
        using less.prems Cons al1 n unfolding unfold by (simp only: dst_octets_def [symmetric] Let_def) simp
      then obtain rs where rs: "routes' = (routes @ [?r]) @ rs" "list_all valid_route rs"
        "e = None \<longrightarrow> drop 4 (drop ?n bs) = concat (map encode_route rs)"
        using less.IH [of "drop 4 (drop ?n bs)"] Cons by fastforce
      have w: "take ?n (unaligned_write_be32 (be32_padded (take ?n bs))) = take ?n bs"
        using n by (intro be32_padded_write) simp_all
      then have "valid_route ?r"
        using True by (simp add: valid_route_def dst_octets_le [symmetric])
      moreover have "encode_route ?r @ drop 4 (drop ?n bs) = w # bs"
        using w n write_be32_of_bytes [of "drop ?n bs"]
        by (simp add: encode_route_def del: drop_drop)
      ultimately show ?thesis using rs Cons by (intro exI [of _ "?r # rs"]) auto
    qed
  qed
qed

text \<open>
  C13.  The classless static route option is decoded by the inverse of the RFC 3442 encoding: the
  encoding of any valid routes is read back as those routes, and an option is accepted only if it is
  the encoding of the routes that were read.  Every route stored, also before an error, has a prefix
  length of at most 32 and no destination bits outside the octets it was sent with.
\<close>

theorem lease_parse_classless_routes_encoding:
  assumes "length routes + length rs < 2 ^ 40"
  shows "(list_all valid_route rs \<longrightarrow>
      (\<exists>al. lease_parse_classless_routes (\<lambda>_. True) (concat (map encode_route rs)) routes allocated
         = (routes @ rs, al, None)))
    \<and> (\<forall>alloc option routes' al e. lease_parse_classless_routes alloc option routes allocated = (routes', al, e) \<longrightarrow>
         (\<exists>rs'. routes' = routes @ rs' \<and> list_all valid_route rs'
            \<and> (e = None \<longrightarrow> option = concat (map encode_route rs'))))"
  using classless_loop_encode [OF _ assms] classless_loop_valid
  unfolding lease_parse_classless_routes_def by blast

theorem lease_parse_classless_routes_encoding_witness:
  "\<exists>al. lease_parse_classless_routes (\<lambda>_. True) [24, 10, 1, 2, 192, 168, 0, 1] [] 0
     = ([\<lparr>r_dst_addr = 0x0a010200, r_gw_addr = 0xc0a80001, r_dst_prefixlen = 24\<rparr>], al, None)"
proof -
  let ?r = "\<lparr>r_dst_addr = 0x0a010200, r_gw_addr = 0xc0a80001, r_dst_prefixlen = 24\<rparr> :: sd_dhcp_route"
  have "valid_route ?r" and "concat (map encode_route [?r]) = [24, 10, 1, 2, 192, 168, 0, 1]"
    by (simp_all add: valid_route_def encode_route_def dst_octets_def be32_padded_def unaligned_write_be32_def
        unaligned_write_be16_def unaligned_read_be32_def unaligned_read_be16_def)
  then show ?thesis
    using lease_parse_classless_routes_encoding [of "[]" "[?r]" 0] by simp
qed

section \<open>The lease under arbitrary options\<close>

lemma errno_only_unescape_char: "s \<noteq> [] \<Longrightarrow> errno_only (unescape_char s)"
  by (auto simp: unescape_char_def faults_in_def is_errno_def split: list.splits if_splits)

lemma errno_only_unescape_loop: "errno_only (unescape_loop n sz r)"
proof (induction n sz r rule: unescape_loop.induct)
  case (1 n sz r)
  then show ?case
    by (subst unescape_loop.simps) (auto intro!: faults_in_rbind errno_only_unescape_char)
qed

lemma errno_only_unescape: "errno_only (dns_label_unescape n sz)"
  unfolding dns_label_unescape_def
  by (rule faults_in_rbind [OF errno_only_unescape_loop]) auto

lemma errno_only_escape_loop: "errno_only (escape_loop l sz)"
  by (induction l sz rule: escape_loop.induct) (auto intro!: faults_in_rbind)

lemma errno_only_escape: "errno_only (dns_label_escape l sz)"
  by (simp add: dns_label_escape_def errno_only_escape_loop)

lemma errno_only_grow: "errno_only (grow alloc want al need)"
  by (simp add: grow_def split: option.splits)

lemma errno_only_concat_loop: "errno_only (concat_loop alloc want p b first ret al)"
proof (induction alloc want p b first ret al rule: concat_loop.induct)
  case (1 alloc want p b first ret al)
  show ?case
  proof (subst concat_loop.simps, rule faults_in_rbind [OF errno_only_unescape], goal_cases)
    case (1 x)
    then show ?case
      using "1.IH"
      by (cases x) (auto intro!: faults_in_rbind errno_only_grow errno_only_escape split: option.splits)
  qed
qed

lemma errno_only_normalize: "errno_only (dns_name_normalize alloc s)"
  unfolding dns_name_normalize_def dns_name_concat_def
  by (auto intro!: faults_in_rbind errno_only_concat_loop errno_only_grow)

lemma errno_only_string: "errno_only (lease_parse_string alloc bs)"
  by (simp add: lease_parse_string_def Let_def)

lemma errno_only_domain: "errno_only (lease_parse_domain alloc bs)"
  unfolding lease_parse_domain_def
  by (auto intro!: faults_in_rbind errno_only_string errno_only_normalize split: option.splits)

lemma errno_only_values:
  "errno_only (lease_parse_u32 bs n)" "errno_only (lease_parse_u16 bs m)" "errno_only (lease_parse_be32 bs)"
  "errno_only (lease_parse_in_addrs alloc bs)"
  by (simp_all add: lease_parse_u32_def lease_parse_u16_def lease_parse_be32_def lease_parse_in_addrs_def)

lemma ignoring_errno_only:
  "errno_only m \<Longrightarrow> P lease \<Longrightarrow> (\<And>l. m = Inr l \<Longrightarrow> P l) \<Longrightarrow> \<exists>l. ignoring lease m = Inr (l, None) \<and> P l"
  by (cases m) (auto simp: faults_in_def is_errno_def ignoring_def split: sum.splits fault.splits)

definition vendor_ok :: "u8 list option \<Rightarrow> nat \<Rightarrow> bool" where
  "vendor_ok v n \<longleftrightarrow> (case v of None \<Rightarrow> n = 0 | Some d \<Rightarrow> d \<noteq> [] \<and> n = length d)"

text \<open>What always holds of a lease that options from the network have been stored in.\<close>

definition wf_lease :: "sd_dhcp_lease \<Rightarrow> bool" where
  "wf_lease l \<longleftrightarrow>
     (\<exists>os. private_view l os) \<and> 0 < le_n_ref l
     \<and> (\<forall>r \<in> set (le_static_route l). unat (r_dst_prefixlen r) \<le> 32)
     \<and> (le_mtu l = 0 \<or> 68 \<le> le_mtu l)
     \<and> vendor_ok (le_vendor_specific l) (le_vendor_specific_len l)
     \<and> (\<forall>s. le_domainname l = Some s \<or> le_hostname l = Some s \<longrightarrow> \<not> is_localhost s \<and> \<not> dns_name_is_root s)
     \<and> (\<forall>s. le_root_path l = Some s \<or> le_timezone l = Some s \<longrightarrow> cstring s)"

lemma wf_lease_new: "dhcp_lease_new alloc = Inr l \<Longrightarrow> wf_lease l"
  by (auto simp: dhcp_lease_new_def wf_lease_def vendor_ok_def private_view_def chain_def items_def
      split: if_splits intro!: exI [of _ "[]"])

lemma private_view_update [simp]:
  "private_view (l\<lparr>le_lifetime := a\<rparr>) os = private_view l os"
  "private_view (l\<lparr>le_t1 := a\<rparr>) os = private_view l os"
  "private_view (l\<lparr>le_t2 := a\<rparr>) os = private_view l os"
  "private_view (l\<lparr>le_server_address := b\<rparr>) os = private_view l os"
  "private_view (l\<lparr>le_subnet_mask := b, le_have_subnet_mask := c\<rparr>) os = private_view l os"
  "private_view (l\<lparr>le_broadcast := b, le_have_broadcast := c\<rparr>) os = private_view l os"
  "private_view (l\<lparr>le_router := b\<rparr>) os = private_view l os"
  "private_view (l\<lparr>le_dns := bs\<rparr>) os = private_view l os"
  "private_view (l\<lparr>le_ntp := bs\<rparr>) os = private_view l os"
  "private_view (l\<lparr>le_static_route := rs, le_static_route_allocated := n\<rparr>) os = private_view l os"
  "private_view (l\<lparr>le_mtu := m\<rparr>) os = private_view l os"
  "private_view (l\<lparr>le_domainname := s\<rparr>) os = private_view l os"
  "private_view (l\<lparr>le_hostname := s\<rparr>) os = private_view l os"
  "private_view (l\<lparr>le_root_path := s\<rparr>) os = private_view l os"
  "private_view (l\<lparr>le_timezone := s\<rparr>) os = private_view l os"
  "private_view (l\<lparr>le_vendor_specific := v, le_vendor_specific_len := k\<rparr>) os = private_view l os"
  by (simp_all add: private_view_def)

lemma parse_string_cstring: "lease_parse_string alloc bs = Inr (Some s) \<Longrightarrow> cstring s"
  by (auto simp: lease_parse_string_def cstring_def Let_def split: if_splits dest: set_takeWhileD)

lemma parse_domain_ok: "lease_parse_domain alloc bs = Inr (Some s) \<Longrightarrow> \<not> is_localhost s \<and> \<not> dns_name_is_root s"
  by (auto simp: lease_parse_domain_def rbind_Inr_iff split: option.splits if_splits)

lemma parse_u16_min: "lease_parse_u16 bs m = Inr v \<Longrightarrow> m \<le> v"
  by (auto simp: lease_parse_u16_def split: if_splits)

lemma insert_private_frame:
  assumes "dhcp_lease_insert_private_option alloc l tag bs = Inr (l', e)"
  shows "\<exists>h hd' b. l' = l\<lparr>le_heap := h, le_private_options := hd', le_brk := b\<rparr>"
proof -
  have id: "l = l\<lparr>le_heap := le_heap l, le_private_options := le_private_options l, le_brk := le_brk l\<rparr>" by simp
  obtain place :: "unit + nat option" where place: "(case place of
      Inl _ \<Rightarrow> Inr (l, None)
    | Inr cur \<Rightarrow>
        if \<not> alloc 32 then Inr (l, Some ENOMEM)
        else if \<not> alloc (length bs) then Inr (l, Some ENOMEM)
        else let a = le_brk l;
            node = \<lparr>l_next = None, l_prev = None, l_item = \<lparr>o_tag = tag, o_length = of_nat (length bs), o_data = bs\<rparr>\<rparr>
          in rbind (LIST_INSERT_BEFORE ((le_heap l)(a \<mapsto> node)) (le_private_options l) cur a) (\<lambda>(h, head).
            Inr (l\<lparr>le_heap := h, le_private_options := head, le_brk := a + 1\<rparr>, None))) = Inr (l', e)"
    using assms unfolding dhcp_lease_insert_private_option_def rbind_Inr_iff by blast
  show ?thesis
  proof (cases "l' = l")
    case True
    then show ?thesis using id by metis
  next
    case False
    then obtain h hd' where "l' = l\<lparr>le_heap := h, le_private_options := hd', le_brk := le_brk l + 1\<rparr>"
      using place by (auto simp: Let_def rbind_Inr_iff split: sum.splits if_splits)
    then show ?thesis by auto
  qed
qed

lemma find_private_view: "private_view l os \<Longrightarrow> \<exists>r. find_private (le_heap l) (le_private_options l) tag = Some (Inr r)"
  using find_private_chain by (fastforce simp: private_view_def chain_def)

lemma insert_private_wf:
  assumes "wf_lease l"
  shows "\<exists>l' e. dhcp_lease_insert_private_option alloc l tag bs = Inr (l', e) \<and> wf_lease l'"
proof -
  obtain os where os: "private_view l os" using assms by (auto simp: wf_lease_def)
  show ?thesis
  proof (cases "alloc 32 \<and> alloc (length bs)")
    case True
    then obtain l' where l': "dhcp_lease_insert_private_option alloc l tag bs = Inr (l', None)"
      "private_view l' (insert_view (raw_option tag bs) os)"
      using insert_private_view [OF os] by blast
    then have "wf_lease l'"
      using insert_private_frame [OF l'(1)] assms by (auto simp: wf_lease_def)
    then show ?thesis using l' by blast
  next
    case False
    then have "\<exists>e. dhcp_lease_insert_private_option alloc l tag bs = Inr (l, e)"
      using find_private_view [OF os, of tag]
      by (auto simp: dhcp_lease_insert_private_option_def split: sum.splits)
    then show ?thesis using assms by blast
  qed
qed

lemma parse_routes_wf:
  assumes "wf_lease l"
  shows "\<exists>l' e. ignoring l (rbind (lease_parse_routes alloc bs (le_static_route l) (le_static_route_allocated l))
        (\<lambda>(routes, allocated). Inr (l\<lparr>le_static_route := routes, le_static_route_allocated := allocated\<rparr>))) = Inr (l', e)
      \<and> wf_lease l'
    \<or> lease_parse_routes alloc bs (le_static_route l) (le_static_route_allocated l) = Inl Diverges"
proof -
  let ?m = "lease_parse_routes alloc bs (le_static_route l) (le_static_route_allocated l)"
  have ok: "\<forall>r \<in> set (le_static_route l). unat (r_dst_prefixlen r) \<le> 32" using assms by (simp add: wf_lease_def)
  show ?thesis
  proof (cases ?m)
    case (Inl f)
    then have "f = Diverges \<or> (\<exists>e. f = Errno e)"
      by (auto simp: lease_parse_routes_def split: if_splits option.splits)
    then show ?thesis using Inl assms by (auto simp: ignoring_def)
  next
    case (Inr ra)
    then have "\<forall>r \<in> set (fst ra). unat (r_dst_prefixlen r) \<le> 32"
      using ok routes_loop_prefix [of bs "le_static_route l"]
      by (auto simp: lease_parse_routes_def split: if_splits option.splits)
    then show ?thesis using Inr assms by (cases ra) (auto simp: ignoring_def wf_lease_def)
  qed
qed

lemma classless_wf:
  assumes "wf_lease l" "lease_parse_classless_routes alloc bs (le_static_route l) (le_static_route_allocated l) = (rs, al, e)"
  shows "wf_lease (l\<lparr>le_static_route := rs, le_static_route_allocated := al\<rparr>)"
proof -
  obtain rs' where "rs = le_static_route l @ rs'" "list_all valid_route rs'"
    using classless_loop_valid assms(2) unfolding lease_parse_classless_routes_def by blast
  then show ?thesis using assms(1) by (auto simp: wf_lease_def list_all_iff valid_route_def)
qed

text \<open>
  Storing one option keeps the lease well formed; the only way it can fail to return is a static
  route option with a class D or E destination.
\<close>

definition stored :: "u8 \<Rightarrow> (sd_dhcp_lease \<times> errno option) res \<Rightarrow> bool" where
  "stored code m \<longleftrightarrow> (\<exists>l e. m = Inr (l, e) \<and> wf_lease l) \<or> m = Inl Diverges \<and> code = 33"

lemma stored_if: "(c \<Longrightarrow> stored code a) \<Longrightarrow> (\<not> c \<Longrightarrow> stored code b) \<Longrightarrow> stored code (if c then a else b)"
  by simp

lemma stored_ignoring:
  assumes "wf_lease l" "errno_only m" "\<And>v. m = Inr v \<Longrightarrow> wf_lease (f v)"
  shows "stored code (ignoring l (rbind m (\<lambda>v. Inr (f v))))"
  using assms by (cases m) (auto simp: stored_def ignoring_def faults_in_def is_errno_def)

lemma stored_routes:
  "wf_lease l \<Longrightarrow> code = 33 \<Longrightarrow>
   stored code (ignoring l (rbind (lease_parse_routes alloc bs (le_static_route l) (le_static_route_allocated l))
     (\<lambda>(routes, allocated). Inr (l\<lparr>le_static_route := routes, le_static_route_allocated := allocated\<rparr>))))"
  using parse_routes_wf [of l alloc bs] by (auto simp: stored_def ignoring_def)

lemma parse_options_wf:
  assumes wf: "wf_lease l"
  shows "stored code (dhcp_lease_parse_options alloc zoneinfo code bs l)"
proof -
  have tz: "wf_lease (parse_timezone_option alloc zoneinfo bs l)"
    using wf parse_string_cstring [of alloc bs]
    by (auto simp: parse_timezone_option_def wf_lease_def split: sum.splits)
  have vs: "stored code (Inr (parse_vendor_option alloc bs l))"
    using wf by (auto simp: parse_vendor_option_def stored_def wf_lease_def vendor_ok_def)
  have cl: "stored code (let (routes, allocated, r) =
      lease_parse_classless_routes alloc bs (le_static_route l) (le_static_route_allocated l)
      in Inr (l\<lparr>le_static_route := routes, le_static_route_allocated := allocated\<rparr>, None))"
    using classless_wf [OF wf, of alloc bs] by (auto simp: stored_def split: prod.splits)
  have pr: "stored code (dhcp_lease_insert_private_option alloc l code bs)"
    using insert_private_wf [OF wf, of alloc code bs] by (auto simp: stored_def)
  have un: "stored code (Inr (l, None))" using wf by (simp add: stored_def)
  have tz': "stored code (Inr (parse_timezone_option alloc zoneinfo bs l, None))"
    using tz by (simp add: stored_def)
  show ?thesis
    unfolding dhcp_lease_parse_options_def
    by (intro stored_if stored_ignoring wf un tz' vs cl pr stored_routes errno_only_values errno_only_domain errno_only_string)
      (use wf parse_u16_min [of bs 68] parse_domain_ok [of alloc bs] parse_string_cstring [of alloc bs]
        in \<open>auto simp: wf_lease_def\<close>)
qed

section \<open>Parsing whole messages into a lease\<close>

text \<open>
  The interface of handlers that may fail to return: besides keeping an invariant, a handler ends only
  in the faults a client can name.
\<close>

locale faulting_handler = option_handler cb inv
  for cb :: "u8 \<Rightarrow> u8 list \<Rightarrow> 'u \<Rightarrow> ('u \<times> errno option) res" and inv :: "'u \<Rightarrow> bool" +
  fixes may :: "u8 \<Rightarrow> fault \<Rightarrow> bool"
  assumes cb_fault: "inv u \<Longrightarrow> cb code data u = Inl f \<Longrightarrow> may code f"
begin

definition ok_fault :: "fault \<Rightarrow> bool" where
  "ok_fault f \<longleftrightarrow> (\<exists>code. may code f) \<or> is_errno f"

lemma ok_Errno: "ok_fault (Errno e)"
  by (simp add: ok_fault_def)

lemma parse_option_faults:
  assumes "inv (po_userdata st)"
  shows "faults_in ok_fault (parse_option alloc (Some cb) ov code data st)"
proof -
  have "faults_in ok_fault (cb code data (po_userdata st))"
    using cb_fault [OF assms] by (auto simp: faults_in_def ok_fault_def)
  then show ?thesis
    by (auto simp: parse_option_def parse_error_message_def Let_def ok_Errno
        intro!: faults_in_rbind split: list.splits)
qed

lemma parse_options_faults:
  "inv (po_userdata st) \<Longrightarrow> faults_in ok_fault (parse_options alloc (Some cb) ov options off st)"
proof (induction "length options - off" arbitrary: off st rule: less_induct)
  case less
  have step: "faults_in ok_fault (parse_options alloc (Some cb) ov options n st')"
    if "inv (po_userdata st')" "off < n" "off < length options" for n st'
    using less.hyps [of n st'] that by simp
  show ?case
    using parse_option_faults [OF less.prems] parse_option_inv [OF less.prems] less.prems
    by (subst parse_options.simps)
      (auto simp: Let_def ok_Errno intro!: faults_in_if faults_in_rbind step)
qed

lemma dhcp_option_parse_faults:
  assumes "inv u" "len \<le> 240 + length (msg_options m)"
  shows "faults_in ok_fault (dhcp_option_parse alloc m len (Some cb) u)"
proof -
  have opt: "faults_in ok_fault (if c then parse_options alloc (Some cb) ov bs 0 st else Inr st)"
    if "inv (po_userdata st)" for c ov bs st
    using that parse_options_faults by simp
  have inv: "inv (po_userdata st')"
    if "inv (po_userdata st)" "(if c then parse_options alloc (Some cb) ov bs 0 st else Inr st) = Inr st'" for c ov bs st st'
    using that parse_options_inv [of st alloc ov bs 0 st'] by (simp split: if_splits)
  have inv0: "inv (po_userdata st')"
    if "parse_options alloc (Some cb) ov bs 0 st = Inr st'" "inv (po_userdata st)" for ov bs st st'
    using that parse_options_inv [of st alloc ov bs 0 st'] by simp
  show ?thesis
    unfolding dhcp_option_parse_def
    by (intro faults_in_if faults_in_rbind opt parse_options_faults)
      (use assms in \<open>auto simp: ok_Errno dest!: inv0 split: if_splits\<close>)
qed

end

interpretation lease_handler: faulting_handler
  "dhcp_lease_parse_options alloc zoneinfo" wf_lease "\<lambda>code f. f = Diverges \<and> code = 33" for alloc zoneinfo
proof unfold_locales
  fix u u' code data r
  assume "wf_lease u" "dhcp_lease_parse_options alloc zoneinfo code data u = Inr (u', r)"
  then show "wf_lease u'" using parse_options_wf [of u code alloc zoneinfo data] by (auto simp: stored_def)
next
  fix u code data f
  assume "wf_lease u" "dhcp_lease_parse_options alloc zoneinfo code data u = Inl f"
  then show "f = Diverges \<and> code = 33" using parse_options_wf [of u code alloc zoneinfo data] by (auto simp: stored_def)
qed



end
