(* ===== verification/Siphash.thy ===== *)
theory Siphash
  imports String_Util
begin

text \<open>
  SipHash-2-4 (\<open>basic/siphash24.c\<close>).  The state of a hash in progress keeps the bytes of an incomplete
  block in \<open>padding\<close>; reading past the end of the input is a fault.
\<close>

section \<open>Model\<close>

definition unaligned_read_le32 :: "u8 list \<Rightarrow> u32 res" where
  "unaligned_read_le32 u =
     (if length u < 4 then Inl OutOfBounds
      else Inr (push_bit 24 (ucast (u ! 3)) OR push_bit 16 (ucast (u ! 2)) OR
                push_bit 8 (ucast (u ! 1)) OR ucast (u ! 0)))"

definition unaligned_read_le64 :: "u8 list \<Rightarrow> u64 res" where
  "unaligned_read_le64 u =
     rbind (unaligned_read_le32 (drop 4 u)) (\<lambda>hi.
     rbind (unaligned_read_le32 u) (\<lambda>lo. Inr (push_bit 32 (ucast hi) OR ucast lo)))"

record siphash =
  sh_v0 :: u64
  sh_v1 :: u64
  sh_v2 :: u64
  sh_v3 :: u64
  sh_padding :: u64
  sh_inlen :: u64

definition rotate_left :: "u64 \<Rightarrow> nat \<Rightarrow> u64" where
  "rotate_left x b = push_bit b x OR drop_bit (64 - b) x"

definition sipround :: "siphash \<Rightarrow> siphash" where
  "sipround state =
     (let state = state\<lparr>sh_v0 := sh_v0 state + sh_v1 state\<rparr>;
          state = state\<lparr>sh_v1 := rotate_left (sh_v1 state) 13\<rparr>;
          state = state\<lparr>sh_v1 := sh_v1 state XOR sh_v0 state\<rparr>;
          state = state\<lparr>sh_v0 := rotate_left (sh_v0 state) 32\<rparr>;
          state = state\<lparr>sh_v2 := sh_v2 state + sh_v3 state\<rparr>;
          state = state\<lparr>sh_v3 := rotate_left (sh_v3 state) 16\<rparr>;
          state = state\<lparr>sh_v3 := sh_v3 state XOR sh_v2 state\<rparr>;
          state = state\<lparr>sh_v0 := sh_v0 state + sh_v3 state\<rparr>;
          state = state\<lparr>sh_v3 := rotate_left (sh_v3 state) 21\<rparr>;
          state = state\<lparr>sh_v3 := sh_v3 state XOR sh_v0 state\<rparr>;
          state = state\<lparr>sh_v2 := sh_v2 state + sh_v1 state\<rparr>;
          state = state\<lparr>sh_v1 := rotate_left (sh_v1 state) 17\<rparr>;
          state = state\<lparr>sh_v1 := sh_v1 state XOR sh_v2 state\<rparr>;
          state = state\<lparr>sh_v2 := rotate_left (sh_v2 state) 32\<rparr>
      in state)"

definition siphash24_init :: "u8 list \<Rightarrow> siphash res" where
  "siphash24_init k =
     rbind (unaligned_read_le64 k) (\<lambda>k0.
     rbind (unaligned_read_le64 (drop 8 k)) (\<lambda>k1.
     Inr \<lparr>sh_v0 = 0x736f6d6570736575 XOR k0, sh_v1 = 0x646f72616e646f6d XOR k1,
          sh_v2 = 0x6c7967656e657261 XOR k0, sh_v3 = 0x7465646279746573 XOR k1,
          sh_padding = 0, sh_inlen = 0\<rparr>))"

text \<open>One word of input, mixed in with two rounds.\<close>

definition mix_word :: "u64 \<Rightarrow> siphash \<Rightarrow> siphash" where
  "mix_word m state =
     (let state = sipround (sipround (state\<lparr>sh_v3 := sh_v3 state XOR m\<rparr>))
      in state\<lparr>sh_v0 := sh_v0 state XOR m\<rparr>)"

fun fill_padding :: "u64 \<Rightarrow> nat \<Rightarrow> u8 list \<Rightarrow> u64 \<times> nat \<times> u8 list" where
  "fill_padding pad left [] = (pad, left, [])"
| "fill_padding pad left (b # bs) =
     (if left < 8 then fill_padding (pad OR push_bit (left * 8) (ucast b)) (left + 1) bs
      else (pad, left, b # bs))"

text \<open>\<open>n\<close> is the distance to the end of the whole words.\<close>

function mix_words :: "nat \<Rightarrow> u8 list \<Rightarrow> siphash \<Rightarrow> (u8 list \<times> siphash) res" where
  "mix_words n bs state =
     (if n = 0 then Inr (bs, state)
      else rbind (unaligned_read_le64 bs) (\<lambda>m. mix_words (n - 8) (drop 8 bs) (mix_word m state)))"
  by pat_completeness auto
termination
  by (relation "measure fst") auto

fun pad_rest :: "nat \<Rightarrow> u8 list \<Rightarrow> u64 \<Rightarrow> u64 res" where
  "pad_rest 0 bs pad = Inr pad"
| "pad_rest (Suc i) bs pad =
     (if length bs \<le> i then Inl OutOfBounds
      else pad_rest i bs (pad OR push_bit (8 * i) (ucast (bs ! i))))"

definition compress_words :: "u8 list \<Rightarrow> siphash \<Rightarrow> siphash res" where
  "compress_words bs state =
     rbind (mix_words (length bs - unat (sh_inlen state mod 8)) bs state) (\<lambda>(bs, state).
     rbind (pad_rest (unat (sh_inlen state AND 7)) bs (sh_padding state)) (\<lambda>pad.
     Inr (state\<lparr>sh_padding := pad\<rparr>)))"

definition siphash24_compress :: "u8 list \<Rightarrow> siphash \<Rightarrow> siphash res" where
  "siphash24_compress bs state =
     (let left = unat (sh_inlen state AND 7);
          state = state\<lparr>sh_inlen := sh_inlen state + of_nat (length bs)\<rparr>
      in if 0 < left then
           (case fill_padding (sh_padding state) left bs of (pad, left, bs) \<Rightarrow>
              if bs = [] \<and> left < 8 then Inr (state\<lparr>sh_padding := pad\<rparr>)
              else compress_words bs (mix_word pad state\<lparr>sh_padding := 0\<rparr>))
         else compress_words bs state)"

definition siphash24_finalize :: "siphash \<Rightarrow> u64" where
  "siphash24_finalize state =
     (let b = sh_padding state OR push_bit 56 (sh_inlen state);
          state = mix_word b state;
          state = state\<lparr>sh_v2 := sh_v2 state XOR 0xff\<rparr>;
          state = sipround (sipround (sipround (sipround state)))
      in sh_v0 state XOR sh_v1 state XOR sh_v2 state XOR sh_v3 state)"

definition siphash24 :: "u8 list \<Rightarrow> u8 list \<Rightarrow> u64 res" where
  "siphash24 bs k =
     rbind (siphash24_init k) (\<lambda>state.
     rbind (siphash24_compress bs state) (\<lambda>state. Inr (siphash24_finalize state)))"

section \<open>Words and blocks of the input\<close>

fun le_word :: "u8 list \<Rightarrow> u64" where
  "le_word [] = 0"
| "le_word (b # bs) = ucast b OR push_bit 8 (le_word bs)"

lemma le_word_append: "le_word (xs @ ys) = le_word xs OR push_bit (8 * length xs) (le_word ys)"
  by (induction xs) (simp_all add: push_bit_or push_bit_push_bit or.assoc algebra_simps)

lemma le_word_snoc: "le_word (xs @ [b]) = le_word xs OR push_bit (8 * length xs) (ucast b)"
  by (simp add: le_word_append)

lemma ucast_or: "ucast (a OR b :: u32) = (ucast a OR ucast b :: u64)"
  by (rule bit_word_eqI) (auto simp: bit_or_iff bit_ucast_iff)

lemma ucast_push_byte:
  assumes "n \<le> 24" shows "ucast (push_bit n (ucast (b :: u8)) :: u32) = (push_bit n (ucast b) :: u64)"
  using assms by (intro bit_word_eqI) (auto simp: bit_push_bit_iff bit_ucast_iff dest: bit_imp_le_length)

lemma ucast_ucast_byte: "ucast (ucast (b :: u8) :: u32) = (ucast b :: u64)"
  using ucast_push_byte [of 0 b] by simp

lemma read_le64:
  assumes "8 \<le> length bs" shows "unaligned_read_le64 bs = Inr (le_word (take 8 bs))"
proof -
  obtain a b c d e f g h r where "bs = a # b # c # d # e # f # g # h # r"
    using assms by (auto simp: numeral_eq_Suc Suc_le_length_iff)
  then show ?thesis
    unfolding unaligned_read_le64_def unaligned_read_le32_def
    by (simp add: ucast_or ucast_push_byte ucast_ucast_byte push_bit_or or.assoc or.commute or.left_commute)
qed

lemma fill_padding_eq:
  "length xs \<le> 8 \<Longrightarrow>
   fill_padding (le_word xs) (length xs) bs =
     (le_word (take 8 (xs @ bs)), min 8 (length xs + length bs), drop (8 - length xs) bs)"
proof (induction bs arbitrary: xs)
  case (Cons b bs)
  show ?case
  proof (cases "length xs < 8")
    case True
    then show ?thesis using Cons.IH [of "xs @ [b]"]
      by (simp add: le_word_snoc mult.commute Suc_diff_Suc [symmetric] min_def)
  qed (use Cons.prems in simp)
qed simp

lemma pad_rest_eq: "n \<le> length bs \<Longrightarrow> pad_rest n bs pad = Inr (pad OR le_word (take n bs))"
  by (induction n arbitrary: pad)
    (simp_all add: take_Suc_conv_app_nth le_word_snoc or.assoc or.commute or.left_commute)

function words :: "u8 list \<Rightarrow> siphash \<Rightarrow> siphash" where
  "words bs s = (if length bs < 8 then s else words (drop 8 bs) (mix_word (le_word (take 8 bs)) s))"
  by pat_completeness auto
termination
  by (relation "measure (length \<circ> fst)") auto

declare words.simps [simp del]

definition rest :: "u8 list \<Rightarrow> u8 list" where
  "rest bs = drop (8 * (length bs div 8)) bs"

lemma length_rest [simp]: "length (rest bs) = length bs mod 8"
  by (simp add: rest_def minus_mult_div_eq_mod)

lemma rest_short [simp]: "length bs < 8 \<Longrightarrow> rest bs = bs"
  by (simp add: rest_def)

lemma rest_step: "8 \<le> length bs \<Longrightarrow> rest (drop 8 bs) = rest bs"
  by (simp add: rest_def le_div_geq algebra_simps)

lemma rest_append: "rest (xs @ ys) = rest (rest xs @ ys)"
proof (induction xs rule: measure_induct_rule [of length])
  case (less xs)
  show ?case
  proof (cases "length xs < 8")
    case False
    then show ?thesis
      using less.IH [of "drop 8 xs"] rest_step [of "xs @ ys"] by (simp add: rest_step)
  qed simp
qed

lemma words_append: "words (xs @ ys) s = words (rest xs @ ys) (words xs s)"
proof (induction xs s rule: words.induct)
  case (1 xs s)
  show ?case
  proof (cases "length xs < 8")
    case False
    then show ?thesis
      using 1 words.simps [of "xs @ ys" s] words.simps [of xs s] by (simp add: rest_step)
  qed (simp add: words.simps [of xs s])
qed

lemma mix_word_frame [simp]:
  "sh_padding (mix_word m s) = sh_padding s" "sh_inlen (mix_word m s) = sh_inlen s"
  "mix_word m (s\<lparr>sh_padding := p\<rparr>) = mix_word m s\<lparr>sh_padding := p\<rparr>"
  "mix_word m (s\<lparr>sh_inlen := n\<rparr>) = mix_word m s\<lparr>sh_inlen := n\<rparr>"
  by (simp_all add: mix_word_def sipround_def Let_def)

lemma words_fields:
  "sh_padding (words bs s) = sh_padding s \<and> sh_inlen (words bs s) = sh_inlen s \<and>
   words bs (s\<lparr>sh_padding := p\<rparr>) = words bs s\<lparr>sh_padding := p\<rparr> \<and>
   words bs (s\<lparr>sh_inlen := n\<rparr>) = words bs s\<lparr>sh_inlen := n\<rparr>"
proof (induction bs s rule: words.induct)
  case (1 bs s)
  show ?case
  proof (cases "length bs < 8")
    case False
    then show ?thesis
      using 1 words.simps [of bs s] words.simps [of bs "s\<lparr>sh_padding := p\<rparr>"]
        words.simps [of bs "s\<lparr>sh_inlen := n\<rparr>"] by simp
  qed (simp add: words.simps [of bs])
qed

lemma words_frame [simp]:
  "sh_padding (words bs s) = sh_padding s" "sh_inlen (words bs s) = sh_inlen s"
  "words bs (s\<lparr>sh_padding := p\<rparr>) = words bs s\<lparr>sh_padding := p\<rparr>"
  "words bs (s\<lparr>sh_inlen := n\<rparr>) = words bs s\<lparr>sh_inlen := n\<rparr>"
  using words_fields by blast+

section \<open>The state after a prefix of the input\<close>

definition sip_state :: "siphash \<Rightarrow> u8 list \<Rightarrow> siphash" where
  "sip_state s bs = words bs s\<lparr>sh_padding := le_word (rest bs), sh_inlen := of_nat (length bs)\<rparr>"

lemma mix_words_eq: "mix_words (length bs - length bs mod 8) bs s = Inr (rest bs, words bs s)"
proof (induction bs s rule: words.induct)
  case (1 bs s)
  show ?case
  proof (cases "length bs < 8")
    case False
    then have "length bs - length bs mod 8 - 8 = length (drop 8 bs) - length (drop 8 bs) mod 8"
      by (simp add: le_mod_geq)
    moreover have "length bs - length bs mod 8 \<noteq> 0"
      using False mod_less_divisor [of 8 "length bs"] by linarith
    ultimately show ?thesis
      using False 1
      by (subst mix_words.simps) (simp add: read_le64 rest_step words.simps [of bs s])
  qed (simp add: words.simps [of bs s] mix_words.simps)
qed

declare mix_words.simps [simp del]

lemma mod8_word: "unat (of_nat n mod 8 :: u64) = n mod 8" "unat (of_nat n AND 7 :: u64) = n mod 8"
proof -
  have m: "n mod 2 ^ 64 mod 8 = n mod 8" by (rule mod_mod_cancel) simp
  then show "unat (of_nat n mod 8 :: u64) = n mod 8"
    by (simp add: unat_mod unat_of_nat)
  have "of_nat n AND (7 :: u64) = take_bit 3 (of_nat n)"
    by (simp add: take_bit_eq_mask mask_eq_exp_minus_1)
  then show "unat (of_nat n AND 7 :: u64) = n mod 8"
    using m by (simp add: take_bit_eq_mod unat_mod unat_of_nat)
qed

lemma compress_words_eq:
  assumes "sh_inlen s = of_nat n" "n mod 8 = length bs mod 8"
  shows "compress_words bs s = Inr (words bs s\<lparr>sh_padding := sh_padding s OR le_word (rest bs)\<rparr>)"
  using assms by (simp add: compress_words_def mod8_word mix_words_eq pad_rest_eq)

lemma siphash24_compress_unfold:
  "siphash24_compress xs (sip_state s bs) =
    (let st = words bs s\<lparr>sh_padding := le_word (rest bs), sh_inlen := of_nat (length bs + length xs)\<rparr>
     in if 0 < length (rest bs) then
          (case fill_padding (le_word (rest bs)) (length (rest bs)) xs of (pad, left, ys) \<Rightarrow>
             if ys = [] \<and> left < 8 then Inr (st\<lparr>sh_padding := pad\<rparr>)
             else compress_words ys (mix_word pad st\<lparr>sh_padding := 0\<rparr>))
        else compress_words xs st)"
proof -
  have "unat (sh_inlen (sip_state s bs) AND 7) = length (rest bs)"
    by (simp add: sip_state_def mod8_word)
  then show ?thesis
    unfolding siphash24_compress_def Let_def by (simp only: sip_state_def) (simp split: prod.split)
qed

lemma siphash24_compress_state: "siphash24_compress xs (sip_state s bs) = Inr (sip_state s (bs @ xs))"
proof -
  let ?left = "length (rest bs)"
  let ?n = "length bs + length xs"
  have lt: "?left < 8" by simp
  consider (empty) "?left = 0" | (short) "0 < ?left" "?left + length xs < 8" | (full) "0 < ?left" "8 \<le> ?left + length xs"
    by linarith
  then show ?thesis
  proof cases
    case empty
    then have r: "rest bs = []" by (simp del: length_rest)
    have "?n mod 8 = length xs mod 8"
      using empty mod_add_left_eq [of "length bs" 8 "length xs"] by simp
    then show ?thesis
      unfolding siphash24_compress_unfold
      unfolding sip_state_def words_append [of bs] rest_append [of bs] r
      by (simp add: compress_words_eq [of _ ?n])
  next
    case short
    have w: "words (rest bs @ xs) (words bs s) = words bs s"
      using short by (subst words.simps) simp
    have f: "fill_padding (le_word (rest bs)) ?left xs = (le_word (rest bs @ xs), ?left + length xs, [])"
      using fill_padding_eq [of "rest bs" xs] short lt by simp
    show ?thesis
      unfolding siphash24_compress_unfold
      unfolding sip_state_def words_append [of bs] rest_append [of bs] w f
      using short by simp
  next
    case full
    let ?ys = "drop (8 - ?left) xs"
    have d: "drop 8 (rest bs @ xs) = ?ys" using lt by simp
    have r: "rest (rest bs @ xs) = rest ?ys"
      using rest_step [of "rest bs @ xs"] full d by simp
    have w: "words (rest bs @ xs) (words bs s) = words ?ys (mix_word (le_word (take 8 (rest bs @ xs))) (words bs s))"
      using full d by (subst words.simps) simp
    have n: "?n = 8 * (length bs div 8 + 1) + length ?ys" using full lt by simp
    have m: "?n mod 8 = length ?ys mod 8" unfolding n by (rule mod_mult_self4)
    have f: "fill_padding (le_word (rest bs)) ?left xs = (le_word (take 8 (rest bs @ xs)), 8, ?ys)"
      using fill_padding_eq [of "rest bs" xs] full lt by simp
    show ?thesis
      unfolding siphash24_compress_unfold
      unfolding sip_state_def words_append [of bs] rest_append [of bs] r w f Let_def
      using full m by (simp add: compress_words_eq [of _ ?n] del: length_rest)
  qed
qed

section \<open>Reference function and streaming\<close>

text \<open>
  The message as the SipHash paper pads it: zero bytes up to the last byte of a block, which holds the
  length modulo 256.
\<close>

function blocks :: "u8 list \<Rightarrow> u8 list list" where
  "blocks bs = (if bs = [] then [] else take 8 bs # blocks (drop 8 bs))"
  by pat_completeness auto
termination
  by (relation "measure length") auto

declare blocks.simps [simp del]

definition padded :: "u8 list \<Rightarrow> u8 list" where
  "padded bs = bs @ replicate (7 - length bs mod 8) 0 @ [of_nat (length bs)]"

definition sip_init :: "u64 \<Rightarrow> u64 \<Rightarrow> siphash" where
  "sip_init k0 k1 =
     \<lparr>sh_v0 = 0x736f6d6570736575 XOR k0, sh_v1 = 0x646f72616e646f6d XOR k1,
      sh_v2 = 0x6c7967656e657261 XOR k0, sh_v3 = 0x7465646279746573 XOR k1, sh_padding = 0, sh_inlen = 0\<rparr>"

definition sip_result :: "siphash \<Rightarrow> u64" where
  "sip_result s =
     (let s = (sipround ^^ 4) (s\<lparr>sh_v2 := sh_v2 s XOR 0xff\<rparr>) in sh_v0 s XOR sh_v1 s XOR sh_v2 s XOR sh_v3 s)"

definition sip_run :: "u8 list \<Rightarrow> u8 list \<Rightarrow> u64" where
  "sip_run k bs =
     sip_result (fold (mix_word \<circ> le_word) (blocks (padded bs)) (sip_init (le_word (take 8 k)) (le_word (drop 8 k))))"

lemma words_blocks: "8 dvd length bs \<Longrightarrow> words bs s = fold (mix_word \<circ> le_word) (blocks bs) s"
proof (induction bs s rule: words.induct)
  case (1 bs s)
  show ?case
  proof (cases "length bs < 8")
    case True
    with "1.prems" have "bs = []" by (auto dest: dvd_imp_le)
    then show ?thesis by (simp add: words.simps [of "[]"] blocks.simps [of "[]"])
  next
    case False
    then show ?thesis
      using "1.IH" "1.prems" words.simps [of bs s] blocks.simps [of bs] by (auto simp: dvd_minus_self)
  qed
qed

lemma length_padded: "length (padded bs) = 8 * (length bs div 8 + 1)"
proof -
  define q r where "q = length bs div 8" and "r = length bs mod 8"
  then have "length bs = 8 * q + r" "r < 8" by simp_all
  then show ?thesis by (simp add: padded_def q_def [symmetric] r_def [symmetric] del: length_greater_0_conv)
qed

lemma le_word_zeros [simp]: "le_word (replicate n 0) = 0"
  by (induction n) auto

lemma last_word:
  "le_word (rest bs @ replicate (7 - length bs mod 8) 0 @ [of_nat (length bs)]) =
     le_word (rest bs) OR push_bit 56 (of_nat (length bs))"
proof -
  have m: "length bs mod 8 < 8" by simp
  have "push_bit 56 (ucast (of_nat n :: u8)) = push_bit 56 (of_nat n :: u64)" for n
    by (rule bit_word_eqI)
      (auto simp: unsigned_of_nat take_bit_of_nat [symmetric] bit_push_bit_iff bit_take_bit_iff)
  moreover have "8 * (length bs mod 8) + 8 * (7 - length bs mod 8) = 56"
    using m by simp
  ultimately show ?thesis
    by (simp add: le_word_append push_bit_push_bit)
qed

lemma sipround_frame:
  "sipround (s\<lparr>sh_padding := p\<rparr>) = sipround s\<lparr>sh_padding := p\<rparr>"
  "sipround (s\<lparr>sh_inlen := n\<rparr>) = sipround s\<lparr>sh_inlen := n\<rparr>"
  by (simp_all add: sipround_def Let_def)

lemma sip_result_frame [simp]:
  "sip_result (s\<lparr>sh_padding := p\<rparr>) = sip_result s" "sip_result (s\<lparr>sh_inlen := n\<rparr>) = sip_result s"
proof -
  have [simp]: "s\<lparr>sh_padding := p, sh_v2 := x\<rparr> = s\<lparr>sh_v2 := x, sh_padding := p\<rparr>"
    "s\<lparr>sh_inlen := n, sh_v2 := x\<rparr> = s\<lparr>sh_v2 := x, sh_inlen := n\<rparr>" for x by simp_all
  show "sip_result (s\<lparr>sh_padding := p\<rparr>) = sip_result s" "sip_result (s\<lparr>sh_inlen := n\<rparr>) = sip_result s"
    by (simp_all add: sip_result_def Let_def numeral_eq_Suc sipround_frame)
qed

lemma finalize_result:
  "siphash24_finalize s = sip_result (mix_word (sh_padding s OR push_bit 56 (sh_inlen s)) s)"
  by (simp add: siphash24_finalize_def sip_result_def Let_def numeral_eq_Suc)

lemma finalize_state: "siphash24_finalize (sip_state s bs) = sip_result (words (padded bs) s)"
proof -
  let ?b = "rest bs @ replicate (7 - length bs mod 8) 0 @ [of_nat (length bs)]"
  have l: "length ?b = 8"
    using mod_less_divisor [of 8 "length bs"] by (simp del: mod_less_divisor)
  have "words (padded bs) s = words ?b (words bs s)"
    unfolding padded_def by (rule words_append)
  also have "\<dots> = mix_word (le_word ?b) (words bs s)"
    using l by (subst words.simps) (simp add: words.simps [of "[]"])
  finally show ?thesis
    by (simp add: last_word finalize_result sip_state_def)
qed

lemma init_ok: "length k = 16 \<Longrightarrow> siphash24_init k = Inr (sip_init (le_word (take 8 k)) (le_word (drop 8 k)))"
  by (simp add: siphash24_init_def read_le64 sip_init_def)

lemma sip_init_state: "sip_init k0 k1 = sip_state (sip_init k0 k1) []"
  by (simp add: sip_state_def words.simps [of "[]"] rest_def sip_init_def)

lemma siphash24_run:
  assumes "length k = 16" shows "siphash24 bs k = Inr (sip_run k bs)"
proof -
  let ?s = "sip_init (le_word (take 8 k)) (le_word (drop 8 k))"
  have "siphash24_compress bs ?s = Inr (sip_state ?s bs)"
    using siphash24_compress_state [of bs ?s "[]"] sip_init_state by simp
  then show ?thesis
    using assms
    by (simp add: siphash24_def init_ok sip_run_def finalize_state words_blocks length_padded)
qed

text \<open>
  SipHash-2-4 as the paper writes it, on four words and with rotations: the round, the compression of
  one word with two rounds, and the finalisation with four.
\<close>

type_synonym sip_words = "u64 \<times> u64 \<times> u64 \<times> u64"

fun paper_round :: "sip_words \<Rightarrow> sip_words" where
  "paper_round (v0, v1, v2, v3) =
     (let v0 = v0 + v1; v2 = v2 + v3; v1 = word_rotl 13 v1; v3 = word_rotl 16 v3; v1 = v1 XOR v0; v3 = v3 XOR v2; v0 = word_rotl 32 v0;
          v2 = v2 + v1; v0 = v0 + v3; v1 = word_rotl 17 v1; v3 = word_rotl 21 v3; v1 = v1 XOR v2; v3 = v3 XOR v0; v2 = word_rotl 32 v2
      in (v0, v1, v2, v3))"

fun xor_v0 :: "u64 \<Rightarrow> sip_words \<Rightarrow> sip_words" where
  "xor_v0 m (v0, v1, v2, v3) = (v0 XOR m, v1, v2, v3)"

fun xor_v2 :: "u64 \<Rightarrow> sip_words \<Rightarrow> sip_words" where
  "xor_v2 m (v0, v1, v2, v3) = (v0, v1, v2 XOR m, v3)"

fun xor_v3 :: "u64 \<Rightarrow> sip_words \<Rightarrow> sip_words" where
  "xor_v3 m (v0, v1, v2, v3) = (v0, v1, v2, v3 XOR m)"

fun xor_all :: "sip_words \<Rightarrow> u64" where
  "xor_all (v0, v1, v2, v3) = v0 XOR v1 XOR v2 XOR v3"

definition paper_compress :: "u64 \<Rightarrow> sip_words \<Rightarrow> sip_words" where
  "paper_compress m v = xor_v0 m (paper_round (paper_round (xor_v3 m v)))"

definition siphash_2_4 :: "u8 list \<Rightarrow> u8 list \<Rightarrow> u64" where
  "siphash_2_4 k bs =
     (let k0 = le_word (take 8 k); k1 = le_word (drop 8 k);
          v = (k0 XOR 0x736f6d6570736575, k1 XOR 0x646f72616e646f6d, k0 XOR 0x6c7967656e657261, k1 XOR 0x7465646279746573);
          v = fold (\<lambda>b. paper_compress (le_word b)) (blocks (padded bs)) v
      in xor_all ((paper_round ^^ 4) (xor_v2 0xff v)))"

definition sip_words_of :: "siphash \<Rightarrow> sip_words" where
  "sip_words_of s = (sh_v0 s, sh_v1 s, sh_v2 s, sh_v3 s)"

lemma rotate_left_rotl: "b < 64 \<Longrightarrow> rotate_left x b = word_rotl b x"
proof (rule bit_word_eqI)
  fix n assume b: "b < 64" and "n < LENGTH(64)"
  then have n: "n < 64" by simp
  have m: "(n + (64 - b)) mod 64 = (if b \<le> n then n - b else n + 64 - b)"
    using b n by (auto simp: mod_if)
  have r: "bit (word_rotl b x) n \<longleftrightarrow> bit x (if b \<le> n then n - b else n + 64 - b)"
    unfolding bit_word_rotl_iff [of b x n] m [symmetric] using b n by simp
  have "\<not> bit x (64 - b + n)" if "b \<le> n" using that bit_imp_le_length [of x "64 - b + n"] by auto
  then show "bit (rotate_left x b) n \<longleftrightarrow> bit (word_rotl b x) n"
    unfolding r rotate_left_def using b n by (cases "b \<le> n") (simp_all add: bit_or_iff bit_push_bit_iff bit_drop_bit_eq add.commute)
qed

lemma sip_words_round: "sip_words_of (sipround s) = paper_round (sip_words_of s)"
  by (simp add: sip_words_of_def sipround_def rotate_left_rotl Let_def)

lemma sip_words_mix: "sip_words_of (mix_word m s) = paper_compress m (sip_words_of s)"
proof -
  have x: "sip_words_of (s\<lparr>sh_v3 := sh_v3 s XOR m\<rparr>) = xor_v3 m (sip_words_of s)"
    "sip_words_of (t\<lparr>sh_v0 := sh_v0 t XOR m\<rparr>) = xor_v0 m (sip_words_of t)" for t
    by (simp_all add: sip_words_of_def)
  show ?thesis by (simp only: mix_word_def paper_compress_def Let_def x sip_words_round)
qed

lemma sip_words_fold: "sip_words_of (fold (mix_word \<circ> le_word) bss s) = fold (\<lambda>b. paper_compress (le_word b)) bss (sip_words_of s)"
  by (induction bss arbitrary: s) (simp_all add: sip_words_mix)

lemma sip_result_words: "sip_result s = xor_all ((paper_round ^^ 4) (xor_v2 0xff (sip_words_of s)))"
proof -
  have "sip_words_of ((sipround ^^ n) t) = (paper_round ^^ n) (sip_words_of t)" for n t
    by (induction n) (simp_all add: sip_words_round)
  moreover have "sip_words_of (s\<lparr>sh_v2 := sh_v2 s XOR 0xff\<rparr>) = xor_v2 0xff (sip_words_of s)" by (simp add: sip_words_of_def)
  moreover have "sh_v0 t XOR sh_v1 t XOR sh_v2 t XOR sh_v3 t = xor_all (sip_words_of t)" for t by (simp add: sip_words_of_def)
  ultimately show ?thesis by (simp only: sip_result_def Let_def)
qed

lemma sip_run_paper: "sip_run k bs = siphash_2_4 k bs"
proof -
  have "sip_words_of (sip_init k0 k1) =
      (k0 XOR 0x736f6d6570736575, k1 XOR 0x646f72616e646f6d, k0 XOR 0x6c7967656e657261, k1 XOR 0x7465646279746573)" for k0 k1
    by (simp add: sip_words_of_def sip_init_def xor.commute)
  then show ?thesis by (simp only: sip_run_def siphash_2_4_def sip_result_words sip_words_fold Let_def)
qed

lemma siphash24_eq: "length k = 16 \<Longrightarrow> siphash24 bs k = Inr (siphash_2_4 k bs)"
  by (simp add: siphash24_run sip_run_paper)

text \<open>Feeding a hash piece by piece.\<close>

fun siphash24_update :: "u8 list list \<Rightarrow> siphash \<Rightarrow> siphash res" where
  "siphash24_update [] s = Inr s"
| "siphash24_update (c # cs) s = rbind (siphash24_compress c s) (siphash24_update cs)"

lemma update_state: "siphash24_update cs (sip_state s bs) = Inr (sip_state s (bs @ concat cs))"
  by (induction cs arbitrary: bs) (simp_all add: siphash24_compress_state)

text \<open>
  C21.  With a 16-byte key \<open>siphash24\<close> reads inside its input and computes SipHash-2-4 as the paper
  defines it, round function included: two rounds for every 8-byte word of the padded message and four
  at the end.
\<close>

theorem siphash24_reference:
  assumes "length k = 16"
  shows "siphash24 bs k = Inr (siphash_2_4 k bs)"
  using assms by (rule siphash24_eq)

theorem siphash24_reference_witness:
  "siphash24 (map of_nat [0..<15]) (map of_nat [0..<16]) =
     Inr (siphash_2_4 (map of_nat [0..<16]) (map of_nat [0..<15]))"
  by (rule siphash24_reference) simp

text \<open>
  C22.  The hash does not depend on how its input is cut into pieces: after any calls of
  \<open>siphash24_compress\<close> on a freshly initialised state, finalising gives the hash of the concatenated
  pieces.
\<close>

theorem siphash24_streaming:
  "rbind (siphash24_init k) (\<lambda>s. rbind (siphash24_update pieces s) (\<lambda>s. Inr (siphash24_finalize s))) =
     siphash24 (concat pieces) k"
proof (cases "siphash24_init k")
  case (Inr s)
  then obtain k0 k1 where "s = sip_init k0 k1"
    by (auto simp: siphash24_init_def rbind_Inr_iff sip_init_def)
  then have "s = sip_state s []" using sip_init_state by simp
  then show ?thesis
    using Inr update_state [of pieces s "[]"] siphash24_compress_state [of "concat pieces" s "[]"]
    by (simp add: siphash24_def)
qed (simp add: siphash24_def)

end
