(* ===== verification/Dhcp_Identifier.thy ===== *)
theory Dhcp_Identifier
  imports Siphash
begin

text \<open>
  The DUID and the IAID of RFC 4361 (\<open>dhcp/dhcp-identifier.c\<close>).  The machine id is what
  \<open>sd_id128_get_machine\<close> reads from \<open>/etc/machine-id\<close>: 16 bytes or an errno.  A DUID is the bytes of
  \<open>struct duid\<close> in use.  The host is little-endian, so \<open>htole64\<close> is the identity.
\<close>

abbreviation (input) MAX_DUID_LEN :: nat where "MAX_DUID_LEN \<equiv> 128"

definition HASH_KEY :: "u8 list" where
  "HASH_KEY = [0x80, 0x11, 0x8c, 0xc2, 0xfe, 0x4a, 0x03, 0xee, 0x3e, 0xd6, 0x0c, 0x6f, 0x36, 0x39, 0x14, 0x09]"

definition le64_bytes :: "u64 \<Rightarrow> u8 list" where
  "le64_bytes x = map (\<lambda>i. ucast (drop_bit (8 * i) x)) [0..<8]"

definition dhcp_identifier_set_duid_en :: "u8 list res \<Rightarrow> u8 list res" where
  "dhcp_identifier_set_duid_en machine_id =
     rbind machine_id (\<lambda>machine_id.
     rbind (siphash24 machine_id HASH_KEY) (\<lambda>hash.
     Inr (unaligned_write_be16 2 @ unaligned_write_be32 43793 @ le64_bytes hash)))"

definition dhcp_identifier_set_iaid :: "u8 list \<Rightarrow> be32 res" where
  "dhcp_identifier_set_iaid mac =
     rbind (siphash24 mac HASH_KEY) (\<lambda>id. Inr (ucast (id AND 0xffffffff) XOR ucast (drop_bit 32 id)))"

definition dhcp_validate_duid_len :: "be16 \<Rightarrow> nat \<Rightarrow> unit res" where
  "dhcp_validate_duid_len duid_type duid_len =
     (if \<not> (0 < duid_len \<and> duid_len \<le> MAX_DUID_LEN) then Inl (Errno EINVAL)
      else if duid_type = 1 then (if duid_len \<le> 6 then Inl (Errno EINVAL) else Inr ())
      else if duid_type = 2 then (if duid_len \<noteq> 12 then Inl (Errno EINVAL) else Inr ())
      else if duid_type = 3 then (if duid_len \<le> 2 then Inl (Errno EINVAL) else Inr ())
      else if duid_type = 4 then (if duid_len \<noteq> 16 then Inl (Errno EINVAL) else Inr ())
      else Inr ())"

lemma siphash24_HASH_KEY: "siphash24 bs HASH_KEY = Inr (siphash_2_4 HASH_KEY bs)"
  by (rule siphash24_eq) (simp add: HASH_KEY_def)

lemma set_iaid_ok: "\<exists>iaid. dhcp_identifier_set_iaid mac = Inr iaid"
  by (simp add: dhcp_identifier_set_iaid_def siphash24_HASH_KEY)

lemma set_duid_en_ok: "\<exists>duid. dhcp_identifier_set_duid_en (Inr mid) = Inr duid \<and> length duid = 14"
  by (simp add: dhcp_identifier_set_duid_en_def siphash24_HASH_KEY le64_bytes_def
      unaligned_write_be16_def unaligned_write_be32_def)

lemma set_duid_en_length:
  "dhcp_identifier_set_duid_en machine_id = Inr duid \<Longrightarrow>
   length duid = 14 \<and> dhcp_validate_duid_len 2 (length duid - 2) = Inr ()"
  by (auto simp: dhcp_identifier_set_duid_en_def rbind_Inr_iff le64_bytes_def dhcp_validate_duid_len_def
      unaligned_write_be16_def unaligned_write_be32_def)

end
