(* ===== verification/Dhcp_Network.thy ===== *)
theory Dhcp_Network
  imports Dhcp_Packet
begin

text \<open>
  The packet socket of the client (\<open>dhcp/dhcp-network.c\<close>): the filter program that is attached to it, in
  the classic BPF instruction set, and the checks on the link-layer address.  A load outside the packet
  ends a filter with 0, which drops the packet; jumps go forward only.  The system calls are outside of
  the model: their answer is an argument.
\<close>

section \<open>Datagrams as structs\<close>

text \<open>A datagram read as the packed struct; at least \<open>sizeof\<close> bytes of it.\<close>

definition message_of_bytes :: "u8 list \<Rightarrow> DHCPMessage" where
  "message_of_bytes bs = \<lparr>msg_op = bs ! 0, msg_htype = bs ! 1, msg_hlen = bs ! 2, msg_hops = bs ! 3,
     msg_xid = be32_of_bytes (drop 4 bs), msg_secs = be16_of_bytes (drop 8 bs),
     msg_flags = be16_of_bytes (drop 10 bs), msg_ciaddr = be32_of_bytes (drop 12 bs),
     msg_yiaddr = be32_of_bytes (drop 16 bs), msg_siaddr = be32_of_bytes (drop 20 bs),
     msg_giaddr = be32_of_bytes (drop 24 bs), msg_chaddr = take 16 (drop 28 bs),
     msg_sname = take 64 (drop 44 bs), msg_file = take 128 (drop 108 bs),
     msg_magic = be32_of_bytes (drop 236 bs), msg_options = drop 240 bs\<rparr>"

definition packet_of_bytes :: "u8 list \<Rightarrow> DHCPPacket" where
  "packet_of_bytes bs =
     \<lparr>pkt_ip = \<lparr>ip_version = drop_bit 4 (bs ! 0), ip_ihl = bs ! 0 AND 15, ip_tos = bs ! 1,
        ip_tot_len = be16_of_bytes (drop 2 bs), ip_id = be16_of_bytes (drop 4 bs),
        ip_frag_off = be16_of_bytes (drop 6 bs), ip_ttl = bs ! 8, ip_protocol = bs ! 9,
        ip_check = be16_of_bytes (drop 10 bs), ip_saddr = be32_of_bytes (drop 12 bs),
        ip_daddr = be32_of_bytes (drop 16 bs)\<rparr>,
      pkt_udp = \<lparr>udp_source = be16_of_bytes (drop 20 bs), udp_dest = be16_of_bytes (drop 22 bs),
        udp_len = be16_of_bytes (drop 24 bs), udp_check = be16_of_bytes (drop 26 bs)\<rparr>,
      pkt_dhcp = message_of_bytes (drop 28 bs)\<rparr>"

section \<open>Filter programs\<close>

abbreviation (input) ETH_ALEN :: nat where "ETH_ALEN \<equiv> 6"
abbreviation (input) INFINIBAND_ALEN :: nat where "INFINIBAND_ALEN \<equiv> 20"

datatype sock_filter =
    LD_LEN
  | LD_ABS_B nat
  | LD_ABS_H nat
  | LD_ABS_W nat
  | LD_IMM u32
  | TAX
  | ALU_AND_K u32
  | ALU_XOR_X
  | JEQ_K u32 nat nat
  | JGE_K u32 nat nat
  | RET_K u32

function bpf_run :: "sock_filter list \<Rightarrow> u8 list \<Rightarrow> u32 \<Rightarrow> u32 \<Rightarrow> u32" where
  "bpf_run [] pkt A X = 0"
| "bpf_run (LD_LEN # prog) pkt A X = bpf_run prog pkt (of_nat (length pkt)) X"
| "bpf_run (LD_ABS_B k # prog) pkt A X =
     (if k < length pkt then bpf_run prog pkt (ucast (pkt ! k)) X else 0)"
| "bpf_run (LD_ABS_H k # prog) pkt A X =
     (if k + 1 < length pkt then bpf_run prog pkt (ucast (be16_of_bytes (drop k pkt))) X else 0)"
| "bpf_run (LD_ABS_W k # prog) pkt A X =
     (if k + 3 < length pkt then bpf_run prog pkt (be32_of_bytes (drop k pkt)) X else 0)"
| "bpf_run (LD_IMM k # prog) pkt A X = bpf_run prog pkt k X"
| "bpf_run (TAX # prog) pkt A X = bpf_run prog pkt A A"
| "bpf_run (ALU_AND_K k # prog) pkt A X = bpf_run prog pkt (A AND k) X"
| "bpf_run (ALU_XOR_X # prog) pkt A X = bpf_run prog pkt (A XOR X) X"
| "bpf_run (JEQ_K k jt jf # prog) pkt A X = bpf_run (drop (if A = k then jt else jf) prog) pkt A X"
| "bpf_run (JGE_K k jt jf # prog) pkt A X = bpf_run (drop (if k \<le> A then jt else jf) prog) pkt A X"
| "bpf_run (RET_K k # prog) pkt A X = k"
  by pat_completeness auto
termination
  by (relation "measure (\<lambda>(prog, _). length prog)") auto

text \<open>\<open>eth_mac\<close> is the six bytes of the address that a reply must carry.\<close>

definition bind_raw_filter :: "u32 \<Rightarrow> u8 list \<Rightarrow> u16 \<Rightarrow> u8 \<Rightarrow> sock_filter list" where
  "bind_raw_filter xid eth_mac arp_type dhcp_hlen =
     [LD_LEN, JGE_K 268 1 0, RET_K 0,
      LD_ABS_B 9, JEQ_K 17 1 0, RET_K 0,
      LD_ABS_B 6, ALU_AND_K 0x20, JEQ_K 0 1 0, RET_K 0,
      LD_ABS_H 6, ALU_AND_K 0x1fff, JEQ_K 0 1 0, RET_K 0,
      LD_ABS_H 22, JEQ_K (ucast DHCP_PORT_CLIENT) 1 0, RET_K 0,
      LD_ABS_B 28, JEQ_K (ucast BOOTREPLY) 1 0, RET_K 0,
      LD_ABS_B 29, JEQ_K (ucast arp_type) 1 0, RET_K 0,
      LD_ABS_B 30, JEQ_K (ucast dhcp_hlen) 1 0, RET_K 0,
      LD_ABS_W 32, JEQ_K xid 1 0, RET_K 0,
      LD_IMM (be32_of_bytes eth_mac), TAX, LD_ABS_W 56, ALU_XOR_X, JEQ_K 0 1 0, RET_K 0,
      LD_IMM (ucast (be16_of_bytes (drop 4 eth_mac))), TAX, LD_ABS_H 60, ALU_XOR_X, JEQ_K 0 1 0, RET_K 0,
      LD_ABS_W 264, JEQ_K DHCP_MAGIC_COOKIE 1 0, RET_K 0,
      RET_K 65535]"

section \<open>Opening the socket\<close>

text \<open>The descriptor or the errno that the system calls of \<open>_bind_raw_socket\<close> give.\<close>

definition dhcp_network_bind_raw_socket :: "errno + nat \<Rightarrow> nat \<Rightarrow> u16 \<Rightarrow> errno + nat" where
  "dhcp_network_bind_raw_socket bound mac_addr_len arp_type =
     (if \<not> 0 < mac_addr_len then Inl EINVAL
      else if arp_type = ARPHRD_ETHER then (if mac_addr_len \<noteq> ETH_ALEN then Inl EINVAL else bound)
      else if arp_type = ARPHRD_INFINIBAND then (if mac_addr_len \<noteq> INFINIBAND_ALEN then Inl EINVAL else bound)
      else Inl EINVAL)"

text \<open>The filter that is attached for a client.\<close>

definition raw_socket_filter :: "u32 \<Rightarrow> u8 list \<Rightarrow> u16 \<Rightarrow> sock_filter list" where
  "raw_socket_filter xid mac_addr arp_type =
     (if arp_type = ARPHRD_ETHER then bind_raw_filter xid (take ETH_ALEN mac_addr) arp_type (of_nat ETH_ALEN)
      else bind_raw_filter xid (replicate ETH_ALEN 0) arp_type 0)"

section \<open>What the filter accepts\<close>

definition reply_for :: "u32 \<Rightarrow> u8 list \<Rightarrow> u16 \<Rightarrow> u8 \<Rightarrow> DHCPPacket \<Rightarrow> bool" where
  "reply_for xid eth_mac arp_type dhcp_hlen p \<longleftrightarrow>
     ip_protocol (pkt_ip p) = IPPROTO_UDP \<and> ip_frag_off (pkt_ip p) AND 0x3fff = 0
     \<and> udp_dest (pkt_udp p) = DHCP_PORT_CLIENT \<and> msg_op (pkt_dhcp p) = BOOTREPLY
     \<and> ucast (msg_htype (pkt_dhcp p)) = arp_type \<and> msg_hlen (pkt_dhcp p) = dhcp_hlen
     \<and> msg_xid (pkt_dhcp p) = xid \<and> take 6 (msg_chaddr (pkt_dhcp p)) = eth_mac
     \<and> msg_magic (pkt_dhcp p) = DHCP_MAGIC_COOKIE"

lemma bpf_check:
  "bpf_run (JEQ_K k 1 0 # RET_K 0 # prog) pkt A X = (if A = k then bpf_run prog pkt A X else 0)"
  "bpf_run (JGE_K k 1 0 # RET_K 0 # prog) pkt A X = (if k \<le> A then bpf_run prog pkt A X else 0)"
  by simp_all

lemmas bpf_steps = bpf_check bpf_run.simps(2-9) bpf_run.simps(12)

lemma if_if_0: "(if P then if Q then x else y else y) = (if P \<and> Q then x else y)"
  by simp

lemma ucast_inj:
  assumes "LENGTH('a::len) \<le> LENGTH('b::len)"
  shows "((ucast (a :: 'a word) :: 'b word) = ucast b) \<longleftrightarrow> a = b"
proof
  assume eq: "(ucast a :: 'b word) = ucast b"
  show "a = b"
  proof (rule bit_word_eqI)
    fix n assume "n < LENGTH('a)"
    moreover have "bit (ucast a :: 'b word) n = bit (ucast b :: 'b word) n" by (simp add: eq)
    ultimately show "bit a n = bit b n" using assms by (simp add: bit_ucast_iff)
  qed
qed simp

lemma ucast_byte [simp]:
  "((ucast (a :: u8) :: u32) = ucast (b :: u8)) \<longleftrightarrow> a = b" "((ucast (c :: u16) :: u32) = ucast (d :: u16)) \<longleftrightarrow> c = d"
  "((ucast a :: u32) = ucast d) \<longleftrightarrow> ucast a = d"
proof -
  have "(ucast a :: u32) = ucast (ucast a :: u16)"
    by (rule bit_word_eqI) (auto simp: bit_ucast_iff dest: bit_imp_le_length)
  then show "((ucast a :: u32) = ucast d) \<longleftrightarrow> ucast a = d" by (simp add: ucast_inj)
qed (simp_all add: ucast_inj)

lemma read_be32_inj:
  "unaligned_read_be32 a b c d = unaligned_read_be32 a' b' c' d' \<longleftrightarrow> [a, b, c, d] = [a', b', c', d']"
proof
  assume "unaligned_read_be32 a b c d = unaligned_read_be32 a' b' c' d'"
  from arg_cong [OF this, of unaligned_write_be32] show "[a, b, c, d] = [a', b', c', d']"
    by (simp only: write_be32_read)
qed simp

lemma read_be16_inj: "unaligned_read_be16 a b = unaligned_read_be16 a' b' \<longleftrightarrow> [a, b] = [a', b']"
proof
  assume "unaligned_read_be16 a b = unaligned_read_be16 a' b'"
  from arg_cong [OF this, of unaligned_write_be16] show "[a, b] = [a', b']"
    by (simp only: write_be16_read)
qed simp

lemma mac_bytes_eq:
  assumes "6 \<le> length xs" "length mac = 6"
  shows "be32_of_bytes xs = be32_of_bytes mac \<and> be16_of_bytes (drop 4 xs) = be16_of_bytes (drop 4 mac)
    \<longleftrightarrow> take 6 xs = mac"
proof -
  obtain a b c d e f r where x: "xs = a # b # c # d # e # f # r"
    using assms(1) by (auto simp: numeral_eq_Suc Suc_le_length_iff)
  obtain a' b' c' d' e' f' where m: "mac = [a', b', c', d', e', f']"
    using assms(2) by (auto simp: numeral_eq_Suc length_Suc_conv)
  show ?thesis unfolding x m by (simp add: read_be32_inj read_be16_inj)
qed

lemma and_mask_eq_0: "(x :: 'a::len word) AND mask n = 0 \<longleftrightarrow> (\<forall>i<n. \<not> bit x i)"
  unfolding bit_eq_iff by (auto simp: bit_and_iff bit_mask_iff dest: bit_imp_le_length)

lemma not_fragment:
  "(ucast (a :: u8) :: u32) AND 0x20 = 0 \<and> ucast (unaligned_read_be16 a b) AND (0x1fff :: u32) = 0
    \<longleftrightarrow> unaligned_read_be16 a b AND 0x3fff = 0"
proof -
  let ?x = "unaligned_read_be16 a b"
  have "(ucast a :: u32) AND 2 ^ 5 = 0 \<longleftrightarrow> \<not> bit a 5"
    unfolding and_exp_eq_0_iff_not_bit by (simp add: bit_ucast_iff)
  also have "bit a 5 \<longleftrightarrow> bit ?x 13"
    by (auto simp: unaligned_read_be16_def bit_or_iff bit_push_bit_iff bit_ucast_iff dest: bit_imp_le_length)
  finally have "(ucast a :: u32) AND 0x20 = 0 \<longleftrightarrow> \<not> bit ?x 13" by simp
  moreover have "(ucast ?x :: u32) AND mask 13 = 0 \<longleftrightarrow> (\<forall>i<13. \<not> bit ?x i)"
    unfolding and_mask_eq_0 by (auto simp: bit_ucast_iff)
  moreover have "?x AND mask 14 = 0 \<longleftrightarrow> (\<forall>i<14. \<not> bit ?x i)"
    by (rule and_mask_eq_0)
  moreover have "(\<forall>i<14. \<not> bit ?x i) \<longleftrightarrow> \<not> bit ?x 13 \<and> (\<forall>i<13. \<not> bit ?x i)"
    using All_less_Suc [of 13 "\<lambda>i. \<not> bit ?x i"] by simp
  ultimately show ?thesis by (simp add: mask_eq_exp_minus_1)
qed


lemma word_xor_eq_0: "a XOR b = 0 \<longleftrightarrow> a = (b :: 'a::len word)"
  unfolding bit_eq_iff by (auto simp: bit_xor_iff)

lemma filter_eq:
  assumes "length mac = 6" "length bs < 2 ^ 32"
  shows "bpf_run (bind_raw_filter xid mac arp_type dhcp_hlen) bs 0 0 =
    (if 268 \<le> length bs \<and> reply_for xid mac arp_type dhcp_hlen (packet_of_bytes bs) then 65535 else 0)"
proof (cases "268 \<le> length bs")
  case False
  then have "\<not> 268 \<le> (of_nat (length bs) :: u32)" by (simp add: word_le_nat_alt unat_of_nat)
  then have l: "(268 \<le> (of_nat (length bs) :: u32)) = False" by simp
  show ?thesis using False unfolding bind_raw_filter_def by (simp only: bpf_steps l if_False) simp
next
  case True
  then have l: "268 \<le> (of_nat (length bs) :: u32)" using assms(2) by (simp add: word_le_nat_alt unat_of_nat)
  have f: "(ucast (bs ! 6) :: u32) AND 0x20 = 0 \<and> ucast (be16_of_bytes (drop 6 bs)) AND (0x1fff :: u32) = 0
      \<longleftrightarrow> be16_of_bytes (drop 6 bs) AND 0x3fff = 0"
  proof -
    have "drop 6 bs = bs ! 6 # drop 7 bs" "drop 7 bs = bs ! 7 # drop 8 bs"
      using True Cons_nth_drop_Suc [of 6 bs] Cons_nth_drop_Suc [of 7 bs] by simp_all
    then show ?thesis using not_fragment by simp
  qed
  have m: "be32_of_bytes (drop 56 bs) XOR be32_of_bytes mac = 0 \<and>
        ucast (be16_of_bytes (drop 60 bs)) XOR (ucast (be16_of_bytes (drop 4 mac)) :: u32) = 0
      \<longleftrightarrow> take 6 (drop 56 bs) = mac"
    using mac_bytes_eq [of "drop 56 bs" mac] True assms(1) by (simp add: word_xor_eq_0)
  have c: "(17 :: u32) = ucast (17 :: u8)" "(68 :: u32) = ucast (68 :: u16)" "(2 :: u32) = ucast (2 :: u8)" by simp_all
  have "bpf_run (bind_raw_filter xid mac arp_type dhcp_hlen) bs 0 0 =
    (if (ucast (bs ! 9) :: u32) = ucast (17 :: u8) \<and> (ucast (bs ! 6) :: u32) AND 0x20 = 0
        \<and> ucast (be16_of_bytes (drop 6 bs)) AND (0x1fff :: u32) = 0
        \<and> (ucast (be16_of_bytes (drop 22 bs)) :: u32) = ucast (68 :: u16)
        \<and> (ucast (bs ! 28) :: u32) = ucast (2 :: u8) \<and> (ucast (bs ! 29) :: u32) = ucast arp_type
        \<and> (ucast (bs ! 30) :: u32) = ucast dhcp_hlen \<and> be32_of_bytes (drop 32 bs) = xid
        \<and> be32_of_bytes (drop 56 bs) XOR be32_of_bytes mac = 0
        \<and> ucast (be16_of_bytes (drop 60 bs)) XOR (ucast (be16_of_bytes (drop 4 mac)) :: u32) = 0
        \<and> be32_of_bytes (drop 264 bs) = DHCP_MAGIC_COOKIE then 65535 else 0)" (is "?l = ?r")
  proof -
    have i: "9 < length bs" "6 < length bs" "28 < length bs" "29 < length bs" "30 < length bs"
      "6 + 1 < length bs" "22 + 1 < length bs" "32 + 3 < length bs" "56 + 3 < length bs" "60 + 1 < length bs"
      "264 + 3 < length bs"
      using True by linarith+
    show ?thesis
      unfolding bind_raw_filter_def by (simp only: bpf_steps l i if_True if_if_0 c conj_assoc simp_thms)
  qed
  also have "\<dots> = (if reply_for xid mac arp_type dhcp_hlen (packet_of_bytes bs) then 65535 else 0)"
  proof -
    have "reply_for xid mac arp_type dhcp_hlen (packet_of_bytes bs) \<longleftrightarrow>
      bs ! 9 = 17 \<and> be16_of_bytes (drop 6 bs) AND 0x3fff = 0 \<and> be16_of_bytes (drop 22 bs) = 68
      \<and> bs ! 28 = 2 \<and> ucast (bs ! 29) = arp_type \<and> bs ! 30 = dhcp_hlen \<and> be32_of_bytes (drop 32 bs) = xid
      \<and> take 6 (drop 56 bs) = mac \<and> be32_of_bytes (drop 264 bs) = DHCP_MAGIC_COOKIE"
      using True by (simp add: reply_for_def packet_of_bytes_def message_of_bytes_def)
    then show ?thesis unfolding ucast_byte using f m by argo
  qed
  finally show ?thesis using True by simp
qed

end
