(* ===== verification/Dhcp_Client.thy ===== *)
theory Dhcp_Client
  imports Dhcp_Lease Dhcp_Identifier Dhcp_Network
begin

text \<open>
  The DHCPv4 client (\<open>dhcp/sd-dhcp-client.c\<close>): its record, the API that configures it, the messages it
  sends, and the handlers that the event loop calls for timers and datagrams.

  A function of the client is a computation in a state-and-error monad: from a client it gives a fault
  (a failed \<open>assert\<close>, a bad access), or the client as it is left together with a negated errno or a
  value.  The outside of the client is the record \<open>dhcp_env\<close>: the clock, the random numbers, the
  answers of the event loop, of the sockets and of the allocator, the datagram that is read, and the
  callback of the user.  What the client does to the outside is logged in \<open>c_trace\<close>, in order.
\<close>

section \<open>The client\<close>

datatype DHCPState = DHCP_STATE_INIT | DHCP_STATE_SELECTING | DHCP_STATE_INIT_REBOOT
  | DHCP_STATE_REBOOTING | DHCP_STATE_REQUESTING | DHCP_STATE_BOUND | DHCP_STATE_RENEWING
  | DHCP_STATE_REBINDING | DHCP_STATE_STOPPED

text \<open>What the callback is told: one of the events, or a negated errno.\<close>

datatype client_event = EVENT_STOP | EVENT_IP_ACQUIRE | EVENT_IP_CHANGE | EVENT_EXPIRED | EVENT_RENEW
  | EVENT_ERROR errno

datatype action = Notify client_event | SendRaw DHCPPacket nat | SendUdp be32 DHCPMessage nat

datatype io_handler = Raw_handler | Udp_handler

text \<open>
  An event source is its deadline or its handler; \<open>None\<close> is the null pointer.  The MAC address and the
  client identifier are the arrays of the struct with the lengths in use; the type byte of the
  identifier is a field of its own.
\<close>

record sd_dhcp_client =
  c_n_ref :: u32
  c_state :: DHCPState
  c_event :: bool
  c_event_priority :: int
  c_timeout_resend :: "u64 option"
  c_index :: int
  c_fd :: int
  c_receive_message :: "io_handler option"
  c_request_broadcast :: bool
  c_req_opts :: "u8 list"
  c_req_opts_allocated :: u64
  c_last_addr :: be32
  c_mac_addr :: "u8 list"
  c_mac_addr_len :: nat
  c_arp_type :: u16
  c_client_id_type :: u8
  c_client_id_data :: "u8 list"
  c_client_id_len :: nat
  c_hostname :: "cstr option"
  c_vendor_class_identifier :: "cstr option"
  c_mtu :: u32
  c_xid :: u32
  c_start_time :: u64
  c_attempt :: u32
  c_request_sent :: u64
  c_timeout_t1 :: "u64 option"
  c_timeout_t2 :: "u64 option"
  c_timeout_expire :: "u64 option"
  c_cb :: bool
  c_lease :: "sd_dhcp_lease option"
  c_start_delay :: u64
  c_trace :: "action list"

abbreviation (input) MAX_MAC_ADDR_LEN :: nat where "MAX_MAC_ADDR_LEN \<equiv> 20"
abbreviation (input) MAX_CLIENT_ID_LEN :: nat where "MAX_CLIENT_ID_LEN \<equiv> 132"
abbreviation (input) sizeof_client_id_data :: nat where "sizeof_client_id_data \<equiv> 134"
abbreviation (input) sizeof_sd_dhcp_client :: nat where "sizeof_sd_dhcp_client \<equiv> 400"
abbreviation (input) DHCP_DEFAULT_MIN_SIZE :: nat where "DHCP_DEFAULT_MIN_SIZE \<equiv> 576"
abbreviation (input) DHCP_MIN_OPTIONS_SIZE :: nat where "DHCP_MIN_OPTIONS_SIZE \<equiv> 308"
abbreviation (input) DHCP_MAX_FQDN_LENGTH :: nat where "DHCP_MAX_FQDN_LENGTH \<equiv> 255"
abbreviation (input) USEC_PER_SEC :: u64 where "USEC_PER_SEC \<equiv> 1000000"
abbreviation (input) USEC_PER_MSEC :: u64 where "USEC_PER_MSEC \<equiv> 1000"
abbreviation (input) RESTART_AFTER_NAK_MIN_USEC :: u64 where "RESTART_AFTER_NAK_MIN_USEC \<equiv> 500000"
abbreviation (input) RESTART_AFTER_NAK_MAX_USEC :: u64 where "RESTART_AFTER_NAK_MAX_USEC \<equiv> 2000000"
abbreviation (input) HOST_NAME_MAX :: nat where "HOST_NAME_MAX \<equiv> 64"

section \<open>The outside\<close>

datatype source = Resend | T1 | T2 | Expire | Receive

record dhcp_env =
  e_alloc :: alloc
  e_event_now :: "errno + u64"
  e_clock :: u64
  e_random :: "nat \<Rightarrow> u32"
  e_add_source :: "source \<Rightarrow> errno option"
  e_set_priority :: "source \<Rightarrow> errno option"
  e_set_description :: "source \<Rightarrow> errno option"
  e_bind_raw :: "errno + nat"
  e_bind_udp :: "errno + nat"
  e_send_raw :: "errno option"
  e_send_udp :: "errno option"
  e_datagram_size :: "errno option"
  e_read :: "errno + u8 list"
  e_checksum :: bool
  e_machine_id :: "u8 list res"
  e_zoneinfo :: "cstr \<Rightarrow> bool"
  e_callback :: "client_event \<Rightarrow> sd_dhcp_client \<Rightarrow> sd_dhcp_client res"

section \<open>The monad\<close>

type_synonym 'a cm = "sd_dhcp_client \<Rightarrow> (sd_dhcp_client \<times> (errno + 'a)) res"

definition cret :: "'a \<Rightarrow> 'a cm" where
  "cret x = (\<lambda>c. Inr (c, Inr x))"

definition cfail :: "errno \<Rightarrow> 'a cm" where
  "cfail e = (\<lambda>c. Inr (c, Inl e))"

text \<open>\<open>ctry\<close> goes on whatever was returned; \<open>cbind\<close> returns early on an errno.\<close>

definition ctry :: "'a cm \<Rightarrow> (errno + 'a \<Rightarrow> 'b cm) \<Rightarrow> 'b cm" where
  "ctry m f = (\<lambda>c. rbind (m c) (\<lambda>(c, r). f r c))"

definition cbind :: "'a cm \<Rightarrow> ('a \<Rightarrow> 'b cm) \<Rightarrow> 'b cm" where
  "cbind m f = ctry m (case_sum cfail f)"

definition cthen :: "unit cm \<Rightarrow> 'b cm \<Rightarrow> 'b cm" where
  "cthen m n = cbind m (\<lambda>_. n)"

definition cget :: "(sd_dhcp_client \<Rightarrow> 'a cm) \<Rightarrow> 'a cm" where
  "cget f = (\<lambda>c. f c c)"

definition cmodify :: "(sd_dhcp_client \<Rightarrow> sd_dhcp_client) \<Rightarrow> unit cm" where
  "cmodify f = (\<lambda>c. Inr (f c, Inr ()))"

definition cassert :: "bool \<Rightarrow> unit cm" where
  "cassert b = (\<lambda>c. if b then Inr (c, Inr ()) else Inl Abort)"

definition assert_return :: "bool \<Rightarrow> errno \<Rightarrow> unit cm" where
  "assert_return b e = (if b then cret () else cfail e)"

definition clift :: "'a res \<Rightarrow> 'a cm" where
  "clift r = (\<lambda>c. case r of Inl (Errno e) \<Rightarrow> Inr (c, Inl e) | Inl f \<Rightarrow> Inl f | Inr x \<Rightarrow> Inr (c, Inr x))"

definition cerrno :: "errno option \<Rightarrow> unit cm" where
  "cerrno e = (case e of None \<Rightarrow> cret () | Some e \<Rightarrow> cfail e)"

definition cupdate :: "(sd_dhcp_client \<Rightarrow> sd_dhcp_client res) \<Rightarrow> unit cm" where
  "cupdate f = (\<lambda>c. rbind (f c) (\<lambda>c. Inr (c, Inr ())))"

lemmas monad_defs = cret_def cfail_def ctry_def cbind_def cthen_def cget_def cmodify_def cassert_def
  assert_return_def clift_def cerrno_def cupdate_def

section \<open>Starting over\<close>

definition client_notify :: "dhcp_env \<Rightarrow> client_event \<Rightarrow> unit cm" where
  "client_notify env event = cget (\<lambda>c.
     if c_cb c then cupdate (\<lambda>c. e_callback env event (c\<lparr>c_trace := c_trace c @ [Notify event]\<rparr>))
     else cret ())"

definition drop_lease :: "sd_dhcp_lease option \<Rightarrow> unit res" where
  "drop_lease lease = (case lease of None \<Rightarrow> Inr () | Some l \<Rightarrow> rbind (sd_dhcp_lease_unref l) (\<lambda>_. Inr ()))"

definition client_initialize :: "unit cm" where
  "client_initialize = cupdate (\<lambda>c.
     rbind (drop_lease (c_lease c)) (\<lambda>_.
     Inr (c\<lparr>c_receive_message := None, c_fd := -1, c_timeout_resend := None, c_timeout_t1 := None,
            c_timeout_t2 := None, c_timeout_expire := None, c_attempt := 1, c_state := DHCP_STATE_INIT,
            c_xid := 0, c_lease := None\<rparr>)))"

definition client_stop :: "dhcp_env \<Rightarrow> client_event \<Rightarrow> unit cm" where
  "client_stop env error = cthen (client_notify env error) client_initialize"

section \<open>Reference count\<close>

definition sd_dhcp_client_ref :: "sd_dhcp_client \<Rightarrow> sd_dhcp_client res" where
  "sd_dhcp_client_ref c = (if c_n_ref c < 1 then Inl Abort else Inr (c\<lparr>c_n_ref := c_n_ref c + 1\<rparr>))"

text \<open>Dropping a reference: the client that is left, or \<open>None\<close> when it has been freed.\<close>

definition sd_dhcp_client_unref :: "sd_dhcp_client \<Rightarrow> sd_dhcp_client option res" where
  "sd_dhcp_client_unref c =
     (if c_n_ref c < 1 then Inl Abort
      else let c = c\<lparr>c_n_ref := c_n_ref c - 1\<rparr>
        in if 0 < c_n_ref c then Inr (Some c)
           else rbind (client_initialize c) (\<lambda>(c, _). rbind (drop_lease (c_lease c)) (\<lambda>_. Inr None)))"

text \<open>
  \<open>DHCP_CLIENT_DONT_DESTROY\<close>: the body runs with a reference of its own, which is dropped on return.
  \<open>nested\<close> is a call of such a function from another one, which goes on using the client.
\<close>

definition DHCP_CLIENT_DONT_DESTROY ::
  "'a cm \<Rightarrow> sd_dhcp_client \<Rightarrow> (sd_dhcp_client option \<times> (errno + 'a)) res" where
  "DHCP_CLIENT_DONT_DESTROY m c =
     rbind (sd_dhcp_client_ref c) (\<lambda>c.
     rbind (m c) (\<lambda>(c, r).
     rbind (sd_dhcp_client_unref c) (\<lambda>c. Inr (c, r))))"

definition nested :: "(sd_dhcp_client \<Rightarrow> (sd_dhcp_client option \<times> (errno + 'a)) res) \<Rightarrow> 'a cm" where
  "nested m = (\<lambda>c. rbind (m c) (\<lambda>(c, r). case c of None \<Rightarrow> Inl UseAfterFree | Some c \<Rightarrow> Inr (c, r)))"

definition default_req_opts :: "u8 list" where
  "default_req_opts = [SD_DHCP_OPTION_SUBNET_MASK, SD_DHCP_OPTION_ROUTER, SD_DHCP_OPTION_HOST_NAME,
     SD_DHCP_OPTION_DOMAIN_NAME, SD_DHCP_OPTION_DOMAIN_NAME_SERVER]"

definition sd_dhcp_client_new :: "alloc \<Rightarrow> sd_dhcp_client res" where
  "sd_dhcp_client_new alloc =
     (if \<not> alloc sizeof_sd_dhcp_client then Inl (Errno ENOMEM)
      else if \<not> alloc (length default_req_opts) then Inl (Errno ENOMEM)
      else Inr \<lparr>c_n_ref = 1, c_state = DHCP_STATE_INIT, c_event = False, c_event_priority = 0,
        c_timeout_resend = None, c_index = -1, c_fd = -1, c_receive_message = None,
        c_request_broadcast = False, c_req_opts = default_req_opts, c_req_opts_allocated = 0,
        c_last_addr = 0, c_mac_addr = replicate MAX_MAC_ADDR_LEN 0, c_mac_addr_len = 0, c_arp_type = 0,
        c_client_id_type = 0, c_client_id_data = replicate sizeof_client_id_data 0, c_client_id_len = 0,
        c_hostname = None, c_vendor_class_identifier = None, c_mtu = of_nat DHCP_DEFAULT_MIN_SIZE,
        c_xid = 0, c_start_time = 0, c_attempt = 1, c_request_sent = 0, c_timeout_t1 = None,
        c_timeout_t2 = None, c_timeout_expire = None, c_cb = False, c_lease = None,
        c_start_delay = 0, c_trace = []\<rparr>)"

section \<open>Starting\<close>

text \<open>
  Arming an event source: the pointer is set once the source has been added, also when setting its
  priority or its description fails afterwards.
\<close>

definition set_timer :: "source \<Rightarrow> u64 option \<Rightarrow> sd_dhcp_client \<Rightarrow> sd_dhcp_client" where
  "set_timer s t c =
     (case s of
        Resend \<Rightarrow> c\<lparr>c_timeout_resend := t\<rparr>
      | T1 \<Rightarrow> c\<lparr>c_timeout_t1 := t\<rparr>
      | T2 \<Rightarrow> c\<lparr>c_timeout_t2 := t\<rparr>
      | Expire \<Rightarrow> c\<lparr>c_timeout_expire := t\<rparr>
      | Receive \<Rightarrow> c)"

definition arm_timer :: "dhcp_env \<Rightarrow> source \<Rightarrow> u64 \<Rightarrow> unit cm" where
  "arm_timer env s usec =
     cthen (cerrno (e_add_source env s))
     (cthen (cmodify (set_timer s (Some usec)))
     (cthen (cerrno (e_set_priority env s))
     (cerrno (e_set_description env s))))"

definition client_initialize_io_events :: "dhcp_env \<Rightarrow> io_handler \<Rightarrow> unit cm" where
  "client_initialize_io_events env io_callback = cget (\<lambda>c.
     cthen (cassert (c_event c))
     (ctry
       (cthen (cerrno (e_add_source env Receive))
        (cthen (cmodify (\<lambda>c. c\<lparr>c_receive_message := Some io_callback\<rparr>))
        (cthen (cerrno (e_set_priority env Receive))
        (cerrno (e_set_description env Receive)))))
       (\<lambda>r. case r of Inl e \<Rightarrow> client_stop env (EVENT_ERROR e) | Inr _ \<Rightarrow> cret ())))"

definition client_initialize_time_events :: "dhcp_env \<Rightarrow> unit cm" where
  "client_initialize_time_events env = cget (\<lambda>c.
     cthen (cassert (c_event c))
     (cthen (cmodify (set_timer Resend None))
     (cthen (cassert (c_start_delay c = 0 \<or> \<not> isl (e_event_now env)))
     (ctry
       (arm_timer env Resend
          (if c_start_delay c = 0 then 0
           else (case e_event_now env of Inl _ \<Rightarrow> 0 | Inr now \<Rightarrow> now + c_start_delay c)))
       (\<lambda>r. case r of Inl e \<Rightarrow> client_stop env (EVENT_ERROR e) | Inr _ \<Rightarrow> cret ())))))"

definition client_initialize_events :: "dhcp_env \<Rightarrow> io_handler \<Rightarrow> unit cm" where
  "client_initialize_events env io_callback =
     cthen (client_initialize_io_events env io_callback) (client_initialize_time_events env)"

definition client_start_delayed :: "dhcp_env \<Rightarrow> unit cm" where
  "client_start_delayed env = cget (\<lambda>c.
     cthen (assert_return (c_event c) EINVAL)
     (cthen (assert_return (0 < c_index c) EINVAL)
     (cthen (assert_return (c_fd c < 0) EBUSY)
     (cthen (assert_return (c_xid c = 0) EINVAL)
     (cthen (assert_return (c_state c = DHCP_STATE_INIT \<or> c_state c = DHCP_STATE_INIT_REBOOT) EBUSY)
     (cthen (cmodify (\<lambda>c. c\<lparr>c_xid := e_random env 0\<rparr>))
     (case dhcp_network_bind_raw_socket (e_bind_raw env) (c_mac_addr_len c) (c_arp_type c) of
        Inl r \<Rightarrow> cthen (client_stop env (EVENT_ERROR r)) (cfail r)
      | Inr fd \<Rightarrow>
          cthen (cmodify (\<lambda>c. c\<lparr>c_fd := int fd, c_start_time := e_clock env\<rparr>))
          (client_initialize_events env Raw_handler))))))))"

definition client_start :: "dhcp_env \<Rightarrow> unit cm" where
  "client_start env = cthen (cmodify (\<lambda>c. c\<lparr>c_start_delay := 0\<rparr>)) (client_start_delayed env)"

definition sd_dhcp_client_start :: "dhcp_env \<Rightarrow> unit cm" where
  "sd_dhcp_client_start env =
     cthen client_initialize
     (cthen (cmodify (\<lambda>c. if c_last_addr c \<noteq> 0 then c\<lparr>c_state := DHCP_STATE_INIT_REBOOT\<rparr> else c))
     (client_start env))"

definition sd_dhcp_client_stop :: "dhcp_env \<Rightarrow> sd_dhcp_client \<Rightarrow> (sd_dhcp_client option \<times> (errno + unit)) res" where
  "sd_dhcp_client_stop env = DHCP_CLIENT_DONT_DESTROY
     (cthen (client_stop env EVENT_STOP) (cmodify (\<lambda>c. c\<lparr>c_state := DHCP_STATE_STOPPED\<rparr>)))"

definition sd_dhcp_client_attach_event :: "errno option \<Rightarrow> int \<Rightarrow> unit cm" where
  "sd_dhcp_client_attach_event event_default priority = cget (\<lambda>c.
     cthen (assert_return (\<not> c_event c) EBUSY)
     (if event_default = None then cmodify (\<lambda>c. c\<lparr>c_event := True, c_event_priority := priority\<rparr>)
      else cret ()))"

definition sd_dhcp_client_detach_event :: "unit cm" where
  "sd_dhcp_client_detach_event = cmodify (\<lambda>c. c\<lparr>c_event := False\<rparr>)"

definition sd_dhcp_client_get_event :: "sd_dhcp_client option \<Rightarrow> bool" where
  "sd_dhcp_client_get_event client = (case client of None \<Rightarrow> False | Some c \<Rightarrow> c_event c)"

section \<open>Configuration\<close>

definition sd_dhcp_client_set_callback :: "bool \<Rightarrow> unit cm" where
  "sd_dhcp_client_set_callback cb = cmodify (\<lambda>c. c\<lparr>c_cb := cb\<rparr>)"

definition sd_dhcp_client_set_request_broadcast :: "int \<Rightarrow> unit cm" where
  "sd_dhcp_client_set_request_broadcast broadcast = cmodify (\<lambda>c. c\<lparr>c_request_broadcast := (broadcast \<noteq> 0)\<rparr>)"

definition idle :: "sd_dhcp_client \<Rightarrow> bool" where
  "idle c \<longleftrightarrow> c_state c = DHCP_STATE_INIT \<or> c_state c = DHCP_STATE_STOPPED"

definition sd_dhcp_client_set_request_option :: "alloc \<Rightarrow> u8 \<Rightarrow> unit cm" where
  "sd_dhcp_client_set_request_option alloc opt = cget (\<lambda>c.
     cthen (assert_return (idle c) EBUSY)
     (if opt = SD_DHCP_OPTION_PAD \<or> opt = SD_DHCP_OPTION_OVERLOAD \<or> opt = SD_DHCP_OPTION_MESSAGE_TYPE
         \<or> opt = SD_DHCP_OPTION_PARAMETER_REQUEST_LIST \<or> opt = SD_DHCP_OPTION_END then cfail EINVAL
      else if opt \<in> set (c_req_opts c) then cfail EEXIST
      else (case greedy_realloc alloc (c_req_opts_allocated c) (of_nat (length (c_req_opts c) + 1)) 1 of
          None \<Rightarrow> cfail ENOMEM
        | Some allocated \<Rightarrow>
            cmodify (\<lambda>c. c\<lparr>c_req_opts := c_req_opts c @ [opt], c_req_opts_allocated := allocated\<rparr>))))"

definition sd_dhcp_client_set_request_address :: "be32 option \<Rightarrow> unit cm" where
  "sd_dhcp_client_set_request_address last_addr = cget (\<lambda>c.
     cthen (assert_return (idle c) EBUSY)
     (cmodify (\<lambda>c. c\<lparr>c_last_addr := (case last_addr of None \<Rightarrow> 0 | Some a \<Rightarrow> a)\<rparr>)))"

definition sd_dhcp_client_set_index :: "int \<Rightarrow> unit cm" where
  "sd_dhcp_client_set_index interface_index = cget (\<lambda>c.
     cthen (assert_return (idle c) EBUSY)
     (cthen (assert_return (0 < interface_index) EINVAL)
     (cmodify (\<lambda>c. c\<lparr>c_index := interface_index\<rparr>))))"

definition overwrite :: "'a list \<Rightarrow> 'a list \<Rightarrow> 'a list" where
  "overwrite xs ys = xs @ drop (length xs) ys"

text \<open>Stopping a running client around a change of its identity.\<close>

definition restarting :: "dhcp_env \<Rightarrow> (sd_dhcp_client \<Rightarrow> sd_dhcp_client) \<Rightarrow> unit cm" where
  "restarting env change = cget (\<lambda>c.
     if idle c then cmodify change
     else
       cthen (client_stop env EVENT_STOP)
       (cthen (cmodify change)
       (cget (\<lambda>c.
          if c_state c \<noteq> DHCP_STATE_STOPPED then ctry (sd_dhcp_client_start env) (\<lambda>_. cret ()) else cret ()))))"

definition sd_dhcp_client_set_mac ::
  "dhcp_env \<Rightarrow> u8 list \<Rightarrow> u16 \<Rightarrow> sd_dhcp_client \<Rightarrow> (sd_dhcp_client option \<times> (errno + unit)) res" where
  "sd_dhcp_client_set_mac env addr arp_type = DHCP_CLIENT_DONT_DESTROY (cget (\<lambda>c.
     cthen (assert_return (addr \<noteq> [] \<and> length addr \<le> MAX_MAC_ADDR_LEN) EINVAL)
     (cthen (assert_return (0 < arp_type) EINVAL)
     (cthen
       (if arp_type = ARPHRD_ETHER then assert_return (length addr = ETH_ALEN) EINVAL
        else if arp_type = ARPHRD_INFINIBAND then assert_return (length addr = INFINIBAND_ALEN) EINVAL
        else cfail EINVAL)
     (if c_mac_addr_len c = length addr \<and> take (length addr) (c_mac_addr c) = addr then cret ()
      else restarting env (\<lambda>c. c\<lparr>c_mac_addr := overwrite addr (c_mac_addr c),
             c_mac_addr_len := length addr, c_arp_type := arp_type\<rparr>))))))"

definition sd_dhcp_client_get_client_id :: "(u8 \<times> u8 list option \<times> nat) cm" where
  "sd_dhcp_client_get_client_id = cget (\<lambda>c.
     cret (if c_client_id_len c \<noteq> 0
           then (c_client_id_type c, Some (c_client_id_data c), c_client_id_len c - 1)
           else (0, None, 0)))"

definition sd_dhcp_client_set_client_id ::
  "dhcp_env \<Rightarrow> u8 \<Rightarrow> u8 list \<Rightarrow> sd_dhcp_client \<Rightarrow> (sd_dhcp_client option \<times> (errno + unit)) res" where
  "sd_dhcp_client_set_client_id env type data = DHCP_CLIENT_DONT_DESTROY (cget (\<lambda>c.
     cthen (assert_return (data \<noteq> [] \<and> length data \<le> MAX_CLIENT_ID_LEN) EINVAL)
     (if type = ucast ARPHRD_ETHER \<and> length data \<noteq> ETH_ALEN then cfail EINVAL
      else if type = ucast ARPHRD_INFINIBAND \<and> length data \<noteq> INFINIBAND_ALEN then cfail EINVAL
      else if c_client_id_len c = length data + 1 \<and> c_client_id_type c = type
          \<and> take (length data) (c_client_id_data c) = data then cret ()
      else restarting env (\<lambda>c. c\<lparr>c_client_id_type := type,
             c_client_id_data := overwrite data (c_client_id_data c), c_client_id_len := length data + 1\<rparr>))))"

text \<open>
  \<open>duid\<close> is the memory the caller passes, \<open>duid_len\<close> the number of bytes of it to use.  The identifier
  is cleared first, its length only at the end.
\<close>

definition set_identity :: "be32 \<Rightarrow> u8 list \<Rightarrow> unit cm" where
  "set_identity iaid duid = cmodify (\<lambda>c. c\<lparr>c_client_id_data :=
     overwrite (unaligned_write_be32 iaid @ duid) (c_client_id_data c),
     c_client_id_len := 1 + length duid + 4\<rparr>)"

definition sd_dhcp_client_set_iaid_duid ::
  "dhcp_env \<Rightarrow> be32 \<Rightarrow> nat \<Rightarrow> u8 list \<Rightarrow> sd_dhcp_client \<Rightarrow> (sd_dhcp_client option \<times> (errno + unit)) res" where
  "sd_dhcp_client_set_iaid_duid env iaid duid_len duid = DHCP_CLIENT_DONT_DESTROY (
     cthen (cmodify (\<lambda>c. c\<lparr>c_client_id_type := 255,
       c_client_id_data := replicate sizeof_client_id_data 0\<rparr>))
     (cget (\<lambda>c.
     cbind (if iaid = 0 then clift (dhcp_identifier_set_iaid (take (c_mac_addr_len c) (c_mac_addr c)))
            else cret iaid) (\<lambda>iaid.
     cthen (cmodify (\<lambda>c. c\<lparr>c_client_id_data := overwrite (unaligned_write_be32 iaid) (c_client_id_data c)\<rparr>))
     (cbind
       (if duid_len = 0 then clift (dhcp_identifier_set_duid_en (e_machine_id env))
        else
          cbind (clift (dhcp_validate_duid_len (unaligned_read_be16 255 0) (duid_len - 1))) (\<lambda>_.
          clift (if length duid < duid_len then Inl OutOfBounds else Inr (take duid_len duid)))) (\<lambda>duid.
     cthen (set_identity iaid duid)
     (cget (\<lambda>c.
        if idle c then cret ()
        else cthen (client_stop env EVENT_STOP) (ctry (sd_dhcp_client_start env) (\<lambda>_. cret ()))))))))))"

definition hostname_valid_char :: "u8 \<Rightarrow> bool" where
  "hostname_valid_char b \<longleftrightarrow> is_lower b \<or> is_upper b \<or> is_digit b \<or> b = 45 \<or> b = 95 \<or> b = 46"

fun hostname_loop :: "cstr \<Rightarrow> bool \<Rightarrow> nat \<Rightarrow> (bool \<times> nat) option" where
  "hostname_loop [] dot n_dots = Some (dot, n_dots)"
| "hostname_loop (b # p) dot n_dots =
     (if b = 46 then (if dot then None else hostname_loop p True (n_dots + 1))
      else if \<not> hostname_valid_char b then None
      else hostname_loop p False n_dots)"

definition hostname_is_valid :: "cstr option \<Rightarrow> bool \<Rightarrow> bool" where
  "hostname_is_valid s allow_trailing_dot =
     (case s of
        None \<Rightarrow> False
      | Some s \<Rightarrow>
          if s = [] then False
          else (case hostname_loop s True 0 of
              None \<Rightarrow> False
            | Some (dot, n_dots) \<Rightarrow>
                \<not> (dot \<and> (n_dots < 2 \<or> \<not> allow_trailing_dot)) \<and> length s \<le> HOST_NAME_MAX))"

definition sd_dhcp_client_set_hostname :: "alloc \<Rightarrow> cstr option \<Rightarrow> unit cm" where
  "sd_dhcp_client_set_hostname alloc hostname = cget (\<lambda>c.
     cbind (if hostname_is_valid hostname False then cret True
            else ctry (clift (dns_name_concat (\<lambda>_. True) False hostname None)) (\<lambda>r. cret (r \<noteq> Inl EINVAL))) (\<lambda>valid.
     if \<not> valid then cfail EINVAL
     else if c_hostname c = hostname then cret ()
     else cthen (assert_return (case hostname of None \<Rightarrow> True | Some h \<Rightarrow> alloc (length h + 1)) ENOMEM)
       (cmodify (\<lambda>c. c\<lparr>c_hostname := hostname\<rparr>))))"

definition sd_dhcp_client_set_vendor_class_identifier :: "alloc \<Rightarrow> cstr \<Rightarrow> unit cm" where
  "sd_dhcp_client_set_vendor_class_identifier alloc vci =
     cthen (assert_return (alloc (length vci + 1)) ENOMEM)
     (cmodify (\<lambda>c. c\<lparr>c_vendor_class_identifier := Some vci\<rparr>))"

definition sd_dhcp_client_set_mtu :: "u32 \<Rightarrow> unit cm" where
  "sd_dhcp_client_set_mtu mtu =
     cthen (assert_return (of_nat DHCP_DEFAULT_MIN_SIZE \<le> mtu) ERANGE) (cmodify (\<lambda>c. c\<lparr>c_mtu := mtu\<rparr>))"

definition sd_dhcp_client_get_lease :: "sd_dhcp_lease option cm" where
  "sd_dhcp_client_get_lease = cget (\<lambda>c.
     if c_state c \<noteq> DHCP_STATE_BOUND \<and> c_state c \<noteq> DHCP_STATE_RENEWING \<and> c_state c \<noteq> DHCP_STATE_REBINDING
     then cfail EADDRNOTAVAIL
     else cret (c_lease c))"

section \<open>Messages\<close>

definition client_id_bytes :: "sd_dhcp_client \<Rightarrow> u8 list" where
  "client_id_bytes c = take (c_client_id_len c) (c_client_id_type c # c_client_id_data c)"

text \<open>Seconds since the start, at least one, in the 16 bits of the field.\<close>

definition message_secs :: "u64 \<Rightarrow> u64 \<Rightarrow> u16" where
  "message_secs time_now start_time =
     (let secs = (time_now - start_time) div USEC_PER_SEC in ucast (if secs = 0 then 1 else secs))"

definition ensure_client_id :: "dhcp_env \<Rightarrow> unit cm" where
  "ensure_client_id env = cget (\<lambda>c.
     if c_client_id_len c \<noteq> 0 then cret ()
     else
       cthen (cmodify (\<lambda>c. c\<lparr>c_client_id_type := 255\<rparr>))
       (cbind (clift (dhcp_identifier_set_iaid (take (c_mac_addr_len c) (c_mac_addr c)))) (\<lambda>iaid.
       cthen (cmodify (\<lambda>c. c\<lparr>c_client_id_data := overwrite (unaligned_write_be32 iaid) (c_client_id_data c)\<rparr>))
       (cbind (clift (dhcp_identifier_set_duid_en (e_machine_id env))) (\<lambda>duid.
       set_identity iaid duid)))))"

definition message_fields :: "sd_dhcp_client \<Rightarrow> u64 \<Rightarrow> DHCPMessage \<Rightarrow> DHCPMessage" where
  "message_fields c time_now dhcp =
     (let dhcp = dhcp\<lparr>msg_secs := message_secs time_now (c_start_time c)\<rparr>;
          dhcp = (if c_request_broadcast c \<or> c_arp_type c \<noteq> ARPHRD_ETHER then dhcp\<lparr>msg_flags := 0x8000\<rparr> else dhcp)
      in if c_arp_type c = ARPHRD_ETHER
         then dhcp\<lparr>msg_chaddr := overwrite (take ETH_ALEN (c_mac_addr c)) (msg_chaddr dhcp)\<rparr> else dhcp)"

text \<open>
  The options every message has; \<open>sz\<close> is the size of the whole packet.  The bound that the last
  append gets is the MTU of the client and not the size of the options area.
\<close>

definition append_common :: "sd_dhcp_client \<Rightarrow> nat \<Rightarrow> DHCPMessage \<Rightarrow> nat \<Rightarrow> nat \<Rightarrow> (DHCPMessage \<times> nat) res" where
  "append_common c sz dhcp optlen optoffset =
     rbind (if c_client_id_len c = 0 then Inr (dhcp, optoffset)
            else dhcp_option_append dhcp optlen optoffset 0 SD_DHCP_OPTION_CLIENT_IDENTIFIER (client_id_bytes c))
       (\<lambda>(dhcp, optoffset).
     rbind (dhcp_option_append dhcp optlen optoffset 0 SD_DHCP_OPTION_PARAMETER_REQUEST_LIST (c_req_opts c))
       (\<lambda>(dhcp, optoffset).
     dhcp_option_append dhcp (unat (c_mtu c)) optoffset 0 SD_DHCP_OPTION_MAXIMUM_MESSAGE_SIZE
       (unaligned_write_be16 (of_nat sz))))"

definition client_message_init :: "dhcp_env \<Rightarrow> u8 \<Rightarrow> (DHCPPacket \<times> nat \<times> nat) cm" where
  "client_message_init env type = cget (\<lambda>c.
     let optlen = DHCP_MIN_OPTIONS_SIZE; sz = sizeof_DHCPPacket + optlen; packet = blank_packet optlen in
     cthen (cassert (c_start_time c \<noteq> 0))
     (cthen (cassert (type = DHCP_DISCOVER \<or> type = DHCP_REQUEST))
     (cthen (assert_return (e_alloc env sz) ENOMEM)
     (cbind (clift (dhcp_message_init (pkt_dhcp packet) BOOTREQUEST (c_xid c) type (c_arp_type c) optlen))
       (\<lambda>(dhcp, optoffset).
     cbind (case e_event_now env of Inl e \<Rightarrow> cfail e | Inr t \<Rightarrow> cret t) (\<lambda>time_now.
     cthen (cassert (c_start_time c \<le> time_now))
     (cthen (ensure_client_id env) (cget (\<lambda>c.
     cbind (clift (append_common c sz (message_fields c time_now dhcp) optlen optoffset)) (\<lambda>(dhcp, optoffset).
     cret (packet\<lparr>pkt_dhcp := dhcp\<rparr>, optlen, optoffset)))))))))))"

definition client_append_fqdn_option :: "DHCPMessage \<Rightarrow> nat \<Rightarrow> nat \<Rightarrow> cstr \<Rightarrow> (DHCPMessage \<times> nat) res" where
  "client_append_fqdn_option message optlen optoffset fqdn =
     rbind (dns_name_to_wire_format fqdn DHCP_MAX_FQDN_LENGTH False) (\<lambda>name.
       if name = [] then Inr (message, optoffset)
       else dhcp_option_append message optlen optoffset 0 SD_DHCP_OPTION_FQDN ([5, 0, 0] @ name))"

definition append_hostname :: "cstr option \<Rightarrow> DHCPMessage \<Rightarrow> nat \<Rightarrow> nat \<Rightarrow> (DHCPMessage \<times> nat) res" where
  "append_hostname hostname message optlen optoffset =
     (case hostname of
        None \<Rightarrow> Inr (message, optoffset)
      | Some h \<Rightarrow>
          if dns_name_is_single_label h
          then dhcp_option_append message optlen optoffset 0 SD_DHCP_OPTION_HOST_NAME h
          else client_append_fqdn_option message optlen optoffset h)"

definition log_action :: "action \<Rightarrow> unit cm" where
  "log_action a = cmodify (\<lambda>c. c\<lparr>c_trace := c_trace c @ [a]\<rparr>)"

definition dhcp_client_send_raw :: "dhcp_env \<Rightarrow> DHCPPacket \<Rightarrow> nat \<Rightarrow> unit cm" where
  "dhcp_client_send_raw env packet len =
     cbind (clift (dhcp_packet_append_ip_headers packet 0 DHCP_PORT_CLIENT 0xffffffff DHCP_PORT_SERVER (of_nat len)))
       (\<lambda>packet.
     cthen (cerrno (e_send_raw env)) (log_action (SendRaw packet len)))"

definition client_send_discover :: "dhcp_env \<Rightarrow> unit cm" where
  "client_send_discover env = cget (\<lambda>c.
     cthen (cassert (c_state c = DHCP_STATE_INIT \<or> c_state c = DHCP_STATE_SELECTING))
     (cbind (client_message_init env DHCP_DISCOVER) (\<lambda>(discover, optlen, optoffset).
     cbind (clift (if c_last_addr c = 0 then Inr (pkt_dhcp discover, optoffset)
         else dhcp_option_append (pkt_dhcp discover) optlen optoffset 0 SD_DHCP_OPTION_REQUESTED_IP_ADDRESS
                (unaligned_write_be32 (c_last_addr c)))) (\<lambda>(dhcp, optoffset).
     cbind (clift (append_hostname (c_hostname c) dhcp optlen optoffset)) (\<lambda>(dhcp, optoffset).
     cbind (clift (case c_vendor_class_identifier c of None \<Rightarrow> Inr (dhcp, optoffset)
         | Some vci \<Rightarrow> dhcp_option_append dhcp optlen optoffset 0 SD_DHCP_OPTION_VENDOR_CLASS_IDENTIFIER vci))
       (\<lambda>(dhcp, optoffset).
     cbind (clift (dhcp_option_append dhcp optlen optoffset 0 SD_DHCP_OPTION_END [])) (\<lambda>(dhcp, optoffset).
     dhcp_client_send_raw env (discover\<lparr>pkt_dhcp := dhcp\<rparr>) (sizeof_DHCPPacket + optoffset))))))))"

text \<open>The options a REQUEST carries besides the common ones, by the state it is sent in.\<close>

definition request_options ::
  "sd_dhcp_client \<Rightarrow> DHCPMessage \<Rightarrow> nat \<Rightarrow> nat \<Rightarrow> (DHCPMessage \<times> nat) res" where
  "request_options c dhcp optlen optoffset =
     (case (c_state c, c_lease c) of
        (DHCP_STATE_REQUESTING, Some lease) \<Rightarrow>
          rbind (dhcp_option_append dhcp optlen optoffset 0 SD_DHCP_OPTION_SERVER_IDENTIFIER
                   (unaligned_write_be32 (le_server_address lease))) (\<lambda>(dhcp, optoffset).
          dhcp_option_append dhcp optlen optoffset 0 SD_DHCP_OPTION_REQUESTED_IP_ADDRESS
            (unaligned_write_be32 (le_address lease)))
      | (DHCP_STATE_INIT_REBOOT, _) \<Rightarrow>
          dhcp_option_append dhcp optlen optoffset 0 SD_DHCP_OPTION_REQUESTED_IP_ADDRESS
            (unaligned_write_be32 (c_last_addr c))
      | (DHCP_STATE_RENEWING, Some lease) \<Rightarrow> Inr (dhcp\<lparr>msg_ciaddr := le_address lease\<rparr>, optoffset)
      | (DHCP_STATE_REBINDING, Some lease) \<Rightarrow> Inr (dhcp\<lparr>msg_ciaddr := le_address lease\<rparr>, optoffset)
      | (DHCP_STATE_REQUESTING, None) \<Rightarrow> Inl OutOfBounds
      | (DHCP_STATE_RENEWING, None) \<Rightarrow> Inl OutOfBounds
      | (DHCP_STATE_REBINDING, None) \<Rightarrow> Inl OutOfBounds
      | _ \<Rightarrow> Inl (Errno EINVAL))"

definition client_send_request :: "dhcp_env \<Rightarrow> unit cm" where
  "client_send_request env =
     cbind (client_message_init env DHCP_REQUEST) (\<lambda>(request, optlen, optoffset). cget (\<lambda>c.
     cbind (clift (request_options c (pkt_dhcp request) optlen optoffset)) (\<lambda>(dhcp, optoffset).
     cbind (clift (append_hostname (c_hostname c) dhcp optlen optoffset)) (\<lambda>(dhcp, optoffset).
     cbind (clift (dhcp_option_append dhcp optlen optoffset 0 SD_DHCP_OPTION_END [])) (\<lambda>(dhcp, optoffset).
     case (c_state c, c_lease c) of
       (DHCP_STATE_RENEWING, Some lease) \<Rightarrow>
         cthen (cassert (0 \<le> c_fd c))
         (cthen (cerrno (e_send_udp env))
           (log_action (SendUdp (le_server_address lease) dhcp (sizeof_DHCPMessage + optoffset))))
     | _ \<Rightarrow> dhcp_client_send_raw env (request\<lparr>pkt_dhcp := dhcp\<rparr>) (sizeof_DHCPPacket + optoffset))))))"

section \<open>Resending\<close>

text \<open>How long to wait before the message is sent again.\<close>

definition resend_delay :: "sd_dhcp_client \<Rightarrow> u64 res" where
  "resend_delay c =
     (let seconds = (\<lambda>time_left :: u32. ucast (if time_left < 60 then 60 else time_left) * USEC_PER_SEC)
      in case (c_state c, c_lease c) of
        (DHCP_STATE_RENEWING, Some lease) \<Rightarrow> Inr (seconds ((le_t2 lease - le_t1 lease) div 2))
      | (DHCP_STATE_REBINDING, Some lease) \<Rightarrow> Inr (seconds ((le_lifetime lease - le_t2 lease) div 2))
      | (DHCP_STATE_RENEWING, None) \<Rightarrow> Inl OutOfBounds
      | (DHCP_STATE_REBINDING, None) \<Rightarrow> Inl OutOfBounds
      | _ \<Rightarrow> Inr (ucast ((c_attempt c - 1) * 100) * USEC_PER_MSEC))"

definition backs_off :: "DHCPState \<Rightarrow> bool" where
  "backs_off s \<longleftrightarrow> s \<in> {DHCP_STATE_INIT, DHCP_STATE_INIT_REBOOT, DHCP_STATE_SELECTING,
     DHCP_STATE_REQUESTING, DHCP_STATE_BOUND}"

definition give_up :: "errno \<Rightarrow> unit cm" where
  "give_up e = cget (\<lambda>c. if 64 \<le> c_attempt c then cfail e else cret ())"

definition resend_message :: "dhcp_env \<Rightarrow> u64 \<Rightarrow> unit cm" where
  "resend_message env time_now = cget (\<lambda>c.
     case c_state c of
       DHCP_STATE_INIT \<Rightarrow>
         ctry (client_send_discover env) (\<lambda>r. case r of
             Inr _ \<Rightarrow> cmodify (\<lambda>c. c\<lparr>c_state := DHCP_STATE_SELECTING, c_attempt := 1\<rparr>)
           | Inl e \<Rightarrow> give_up e)
     | DHCP_STATE_SELECTING \<Rightarrow>
         ctry (client_send_discover env) (\<lambda>r. case r of Inr _ \<Rightarrow> cret () | Inl e \<Rightarrow> give_up e)
     | DHCP_STATE_REBOOTING \<Rightarrow> cret ()
     | DHCP_STATE_BOUND \<Rightarrow> cret ()
     | DHCP_STATE_STOPPED \<Rightarrow> cfail EINVAL
     | _ \<Rightarrow>
         cthen (ctry (client_send_request env) (\<lambda>r. case r of Inr _ \<Rightarrow> cret () | Inl e \<Rightarrow> give_up e))
         (cmodify (\<lambda>c. c\<lparr>c_state := (if c_state c = DHCP_STATE_INIT_REBOOT then DHCP_STATE_REBOOTING else c_state c),
            c_request_sent := time_now\<rparr>)))"

definition resend :: "dhcp_env \<Rightarrow> unit cm" where
  "resend env = cget (\<lambda>c.
     cthen (cassert (c_event c))
     (cbind (case e_event_now env of Inl e \<Rightarrow> cfail e | Inr t \<Rightarrow> cret t) (\<lambda>time_now.
     if c_state c = DHCP_STATE_REBOOTING then cthen client_initialize (client_start env)
     else if c_state c = DHCP_STATE_STOPPED then cfail EINVAL
     else
       cthen (cmodify (\<lambda>c. if backs_off (c_state c) \<and> c_attempt c < 64 then c\<lparr>c_attempt := c_attempt c * 2\<rparr> else c))
       (cget (\<lambda>c.
       cbind (clift (resend_delay c)) (\<lambda>delay.
       cthen (cmodify (set_timer Resend None))
       (cthen (arm_timer env Resend (time_now + delay + ucast (e_random env 0 AND 0xfffff)))
       (resend_message env time_now))))))))"

text \<open>The handlers of the timers: errors stop the client and are not handed to the event loop.\<close>

definition client_timeout_resend :: "dhcp_env \<Rightarrow> sd_dhcp_client \<Rightarrow> (sd_dhcp_client option \<times> (errno + unit)) res" where
  "client_timeout_resend env = DHCP_CLIENT_DONT_DESTROY
     (ctry (resend env) (\<lambda>r. case r of Inl e \<Rightarrow> client_stop env (EVENT_ERROR e) | Inr _ \<Rightarrow> cret ()))"

definition client_timeout_expire :: "dhcp_env \<Rightarrow> sd_dhcp_client \<Rightarrow> (sd_dhcp_client option \<times> (errno + unit)) res" where
  "client_timeout_expire env = DHCP_CLIENT_DONT_DESTROY
     (cthen (client_notify env EVENT_EXPIRED)
     (cget (\<lambda>c.
        if c_state c = DHCP_STATE_STOPPED then cret ()
        else cthen client_initialize (ctry (client_start env) (\<lambda>_. cret ())))))"

definition client_timeout_t2 :: "dhcp_env \<Rightarrow> sd_dhcp_client \<Rightarrow> (sd_dhcp_client option \<times> (errno + unit)) res" where
  "client_timeout_t2 env = DHCP_CLIENT_DONT_DESTROY
     (cthen (cmodify (\<lambda>c. c\<lparr>c_receive_message := None, c_fd := -1, c_state := DHCP_STATE_REBINDING, c_attempt := 1\<rparr>))
     (cget (\<lambda>c.
        case dhcp_network_bind_raw_socket (e_bind_raw env) (c_mac_addr_len c) (c_arp_type c) of
          Inl r \<Rightarrow> client_stop env (EVENT_ERROR r)
        | Inr fd \<Rightarrow>
            cthen (cmodify (\<lambda>c. c\<lparr>c_fd := int fd\<rparr>)) (client_initialize_events env Raw_handler))))"

definition client_timeout_t1 :: "dhcp_env \<Rightarrow> sd_dhcp_client \<Rightarrow> (sd_dhcp_client option \<times> (errno + unit)) res" where
  "client_timeout_t1 env = DHCP_CLIENT_DONT_DESTROY
     (cthen (cmodify (\<lambda>c. c\<lparr>c_state := DHCP_STATE_RENEWING, c_attempt := 1\<rparr>)) (client_initialize_time_events env))"

section \<open>Lease timers\<close>

text \<open>
  The timeouts are computed in \<open>double\<close>: \<open>rnd53\<close> rounds a natural number to 53 significant bits, to the
  nearest and to even.  The products with 1, 7/8 and 1/2 are whole numbers below \<open>2 ^ 53\<close> and exact; a
  sum that does not fit the result type is undefined and counted as a fault.
\<close>

fun bits :: "nat \<Rightarrow> nat" where
  "bits 0 = 0"
| "bits (Suc n) = Suc (bits (Suc n div 2))"

definition rnd53 :: "nat \<Rightarrow> nat" where
  "rnd53 n =
     (let e = bits n - 53; q = n div 2 ^ e; r = n mod 2 ^ e
      in if e = 0 then n
         else if r < 2 ^ (e - 1) \<or> (r = 2 ^ (e - 1) \<and> even q) then q * 2 ^ e else (q + 1) * 2 ^ e)"

definition client_compute_timeout :: "u64 \<Rightarrow> u32 \<Rightarrow> u32 \<Rightarrow> nat \<Rightarrow> nat \<Rightarrow> u64 res" where
  "client_compute_timeout request_sent random lifetime num den =
     (if request_sent = 0 then Inl Abort
      else if \<not> 0 < lifetime then Inl Abort
      else
        (let lifetime = (if 3 < lifetime then lifetime - 3 else 0);
             t = rnd53 (rnd53 (unat request_sent) + unat lifetime * 1000000 * num div den);
             t = rnd53 (t + unat (random AND 0x1fffff))
         in if 2 ^ 64 \<le> t then Inl OutOfBounds else Inr (of_nat t)))"

definition lease_timeouts ::
  "u64 \<Rightarrow> (nat \<Rightarrow> u32) \<Rightarrow> sd_dhcp_lease \<Rightarrow> (sd_dhcp_lease \<times> u64 \<times> u64 \<times> u64) res" where
  "lease_timeouts request_sent random l =
     (let compute = (\<lambda>i. client_compute_timeout request_sent (random i));
          default_t1 = (\<lambda>l. l\<lparr>le_t1 := le_lifetime l div 2\<rparr>);
          default_t2 = (\<lambda>l. l\<lparr>le_t2 := (le_lifetime l * 7) div 8\<rparr>)
      in rbind (compute 0 (le_lifetime l) 1 1) (\<lambda>lifetime_timeout.
      if 0 < le_t1 l \<and> 0 < le_t2 l then
        (if le_t1 l < le_t2 l \<and> le_t2 l < le_lifetime l then
           rbind (compute 1 (le_t2 l) 1 1) (\<lambda>t2.
           rbind (compute 2 (le_t1 l) 1 1) (\<lambda>t1. Inr (l, lifetime_timeout, t2, t1)))
         else
           rbind (compute 1 (le_lifetime l) 7 8) (\<lambda>t2.
           rbind (compute 2 (le_lifetime l) 1 2) (\<lambda>t1.
           Inr (default_t1 (default_t2 l), lifetime_timeout, t2, t1))))
      else if 0 < le_t2 l \<and> le_t2 l < le_lifetime l then
        rbind (compute 1 (le_t2 l) 1 1) (\<lambda>t2.
        rbind (compute 2 (le_lifetime l) 1 2) (\<lambda>t1.
        let l = default_t1 l in
        if t2 \<le> t1 then rbind (compute 3 (le_lifetime l) 7 8) (\<lambda>t2. Inr (default_t2 l, lifetime_timeout, t2, t1))
        else Inr (l, lifetime_timeout, t2, t1)))
      else if 0 < le_t1 l \<and> le_t1 l < le_lifetime l then
        rbind (compute 1 (le_t1 l) 1 1) (\<lambda>t1.
        rbind (compute 2 (le_lifetime l) 7 8) (\<lambda>t2.
        let l = default_t2 l in
        if t2 \<le> t1 then
          rbind (compute 3 (le_lifetime l) 1 2) (\<lambda>t2.
          Inr (l\<lparr>le_t2 := le_lifetime l div 2\<rparr>, lifetime_timeout, t2, t1))
        else Inr (l, lifetime_timeout, t2, t1)))
      else
        rbind (compute 1 (le_lifetime l) 1 2) (\<lambda>t1.
        rbind (compute 2 (le_lifetime l) 7 8) (\<lambda>t2.
        Inr (default_t2 (default_t1 l), lifetime_timeout, t2, t1)))))"

definition client_set_lease_timeouts :: "dhcp_env \<Rightarrow> unit cm" where
  "client_set_lease_timeouts env = cget (\<lambda>c.
     cthen (cassert (c_event c))
     (case c_lease c of
        None \<Rightarrow> cassert False
      | Some lease \<Rightarrow>
          cthen (cassert (le_lifetime lease \<noteq> 0))
          (cthen (cmodify (\<lambda>c. c\<lparr>c_timeout_t1 := None, c_timeout_t2 := None, c_timeout_expire := None\<rparr>))
          (if le_lifetime lease = 0xffffffff then cret ()
           else
             cbind (case e_event_now env of Inl e \<Rightarrow> cfail e | Inr t \<Rightarrow> cret t) (\<lambda>time_now.
             cthen (cassert (c_request_sent c \<le> time_now))
             (cbind (clift (lease_timeouts (c_request_sent c) (e_random env) lease))
               (\<lambda>(lease, lifetime_timeout, t2_timeout, t1_timeout).
             cthen (cmodify (\<lambda>c. c\<lparr>c_lease := Some lease\<rparr>))
             (cthen (arm_timer env Expire lifetime_timeout)
             (if lifetime_timeout \<le> time_now then cret ()
              else
                cthen (arm_timer env T2 t2_timeout)
                (if t2_timeout \<le> time_now then cret () else arm_timer env T1 t1_timeout))))))))))"

section \<open>Received messages\<close>

text \<open>
  A new lease filled in from a message, and the type of the message.  A message that does not parse has
  neither; the lease that was being filled in is released by the caller then, which is not modelled, as
  the parser's model keeps the user data only on success.
\<close>

definition receive_lease ::
  "dhcp_env \<Rightarrow> DHCPMessage \<Rightarrow> nat \<Rightarrow> (u8 \<times> sd_dhcp_lease) option cm" where
  "receive_lease env message len = cget (\<lambda>c.
     cbind (clift (dhcp_lease_new (e_alloc env))) (\<lambda>lease.
     cbind (clift (if c_client_id_len c = 0 then Inr lease
         else dhcp_lease_set_client_id (e_alloc env) (Some lease) (client_id_bytes c))) (\<lambda>lease.
     case dhcp_option_parse (e_alloc env) message len
            (Some (dhcp_lease_parse_options (e_alloc env) (e_zoneinfo env))) lease of
       Inl (Errno _) \<Rightarrow> cret None
     | Inl f \<Rightarrow> clift (Inl f)
     | Inr (type, lease, _) \<Rightarrow> cret (Some (type, lease)))))"

definition ignore_message :: "sd_dhcp_lease \<Rightarrow> errno \<Rightarrow> 'a cm" where
  "ignore_message lease e = cbind (clift (drop_lease (Some lease))) (\<lambda>_. cfail e)"

definition client_handle_offer :: "dhcp_env \<Rightarrow> DHCPMessage \<Rightarrow> nat \<Rightarrow> unit cm" where
  "client_handle_offer env offer len =
     cbind (receive_lease env offer len) (\<lambda>r. case r of
       None \<Rightarrow> cfail ENOMSG
     | Some (type, lease) \<Rightarrow>
         if type \<noteq> DHCP_OFFER then ignore_message lease ENOMSG
         else
           (let lease = lease\<lparr>le_next_server := msg_siaddr offer, le_address := msg_yiaddr offer\<rparr>
            in if le_address lease = 0 \<or> le_server_address lease = 0 \<or> le_lifetime lease = 0
               then ignore_message lease ENOMSG
               else (case (if le_have_subnet_mask lease then Inr lease
                           else dhcp_lease_set_default_subnet_mask lease) of
                   Inl _ \<Rightarrow> ignore_message lease ENOMSG
                 | Inr lease \<Rightarrow> cget (\<lambda>c.
                     cbind (clift (drop_lease (c_lease c))) (\<lambda>_.
                     cmodify (\<lambda>c. c\<lparr>c_lease := Some lease\<rparr>))))))"

definition client_handle_forcerenew :: "dhcp_env \<Rightarrow> DHCPMessage \<Rightarrow> nat \<Rightarrow> unit cm" where
  "client_handle_forcerenew env force len =
     ctry (clift (dhcp_option_parse (e_alloc env) force len (None :: unit option_cb option) ()))
       (\<lambda>r. case r of
          Inr (type, _, _) \<Rightarrow> if type \<noteq> DHCP_FORCERENEW then cfail ENOMSG else cret ()
        | Inl _ \<Rightarrow> cfail ENOMSG)"

definition client_handle_ack :: "dhcp_env \<Rightarrow> DHCPMessage \<Rightarrow> nat \<Rightarrow> client_event cm" where
  "client_handle_ack env ack len =
     cbind (receive_lease env ack len) (\<lambda>r. case r of
       None \<Rightarrow> cfail ENOMSG
     | Some (type, lease) \<Rightarrow>
         if type = DHCP_NAK then ignore_message lease EADDRNOTAVAIL
         else if type \<noteq> DHCP_ACK then ignore_message lease ENOMSG
         else
           (let lease = lease\<lparr>le_next_server := msg_siaddr ack, le_address := msg_yiaddr ack\<rparr>
            in if le_address lease = 0 \<or> le_server_address lease = 0 \<or> le_lifetime lease = 0
               then ignore_message lease ENOMSG
               else (case (if le_subnet_mask lease = 0 then dhcp_lease_set_default_subnet_mask lease
                           else Inr lease) of
                   Inl _ \<Rightarrow> ignore_message lease ENOMSG
                 | Inr lease \<Rightarrow> cget (\<lambda>c.
                     cbind (clift (drop_lease (c_lease c))) (\<lambda>_.
                     cthen (cmodify (\<lambda>c. c\<lparr>c_lease := Some lease\<rparr>))
                     (cret (case c_lease c of
                          None \<Rightarrow> EVENT_IP_ACQUIRE
                        | Some old \<Rightarrow>
                            if le_address old \<noteq> le_address lease \<or> le_subnet_mask old \<noteq> le_subnet_mask lease
                               \<or> le_router old \<noteq> le_router lease
                            then EVENT_IP_CHANGE else EVENT_RENEW)))))))"

text \<open>The lease is there: the timers, the socket for renewing it and the news for the user.\<close>

definition notify_of :: "DHCPState \<Rightarrow> client_event \<Rightarrow> client_event option" where
  "notify_of state r =
     (if state = DHCP_STATE_REQUESTING \<or> state = DHCP_STATE_REBOOTING then Some EVENT_IP_ACQUIRE
      else if r \<noteq> EVENT_IP_ACQUIRE then Some r else None)"

definition client_bound :: "dhcp_env \<Rightarrow> client_event \<Rightarrow> unit cm" where
  "client_bound env r = cget (\<lambda>c0.
     cthen (cmodify (\<lambda>c. c\<lparr>c_start_delay := 0, c_timeout_resend := None, c_receive_message := None,
         c_fd := -1, c_state := DHCP_STATE_BOUND, c_attempt := 1,
         c_last_addr := (case c_lease c of None \<Rightarrow> 0 | Some l \<Rightarrow> le_address l)\<rparr>))
     (cthen (client_set_lease_timeouts env)
     (case e_bind_udp env of
        Inl e \<Rightarrow> cfail e
      | Inr fd \<Rightarrow>
          cthen (cmodify (\<lambda>c. c\<lparr>c_fd := int fd\<rparr>))
          (cthen (client_initialize_io_events env Udp_handler)
          (case notify_of (c_state c0) r of None \<Rightarrow> cret () | Some event \<Rightarrow> client_notify env event)))))"

definition CLAMP :: "u64 \<Rightarrow> u64 \<Rightarrow> u64 \<Rightarrow> u64" where
  "CLAMP x low high = (if high < x then high else if x < low then low else x)"

definition client_restart :: "dhcp_env \<Rightarrow> unit cm" where
  "client_restart env =
     cthen (cmodify (set_timer Resend None))
     (cthen client_initialize
     (cthen (client_start_delayed env)
     (cmodify (\<lambda>c. c\<lparr>c_start_delay :=
        CLAMP (c_start_delay c * 2) RESTART_AFTER_NAK_MIN_USEC RESTART_AFTER_NAK_MAX_USEC\<rparr>))))"

definition handle_message :: "dhcp_env \<Rightarrow> DHCPMessage \<Rightarrow> nat \<Rightarrow> unit cm" where
  "handle_message env message len = cget (\<lambda>c.
     cthen (cassert (c_event c))
     (case c_state c of
        DHCP_STATE_SELECTING \<Rightarrow>
          ctry (client_handle_offer env message len) (\<lambda>r. case r of
            Inr _ \<Rightarrow>
              cthen (cmodify (\<lambda>c. c\<lparr>c_timeout_resend := None, c_state := DHCP_STATE_REQUESTING, c_attempt := 1\<rparr>))
              (arm_timer env Resend 0)
          | Inl e \<Rightarrow> if e = ENOMSG then cret () else cfail e)
      | DHCP_STATE_BOUND \<Rightarrow>
          ctry (client_handle_forcerenew env message len) (\<lambda>r. case r of
            Inr _ \<Rightarrow> nested (client_timeout_t1 env)
          | Inl e \<Rightarrow> if e = ENOMSG then cret () else cfail e)
      | DHCP_STATE_INIT \<Rightarrow> cret ()
      | DHCP_STATE_INIT_REBOOT \<Rightarrow> cret ()
      | DHCP_STATE_STOPPED \<Rightarrow> cfail EINVAL
      | _ \<Rightarrow>
          ctry (client_handle_ack env message len) (\<lambda>r. case r of
            Inr event \<Rightarrow> client_bound env event
          | Inl e \<Rightarrow>
              if e = EADDRNOTAVAIL then client_restart env
              else if e = ENOMSG then cret () else cfail e)))"

definition client_handle_message ::
  "dhcp_env \<Rightarrow> DHCPMessage \<Rightarrow> nat \<Rightarrow> sd_dhcp_client \<Rightarrow> (sd_dhcp_client option \<times> (errno + unit)) res" where
  "client_handle_message env message len = DHCP_CLIENT_DONT_DESTROY
     (ctry (handle_message env message len) (\<lambda>r. case r of
        Inl e \<Rightarrow> cthen (client_stop env (EVENT_ERROR e)) (cfail e)
      | Inr _ \<Rightarrow> cret ()))"

text \<open>Reading a datagram: an errno for the event loop, nothing to do, or its bytes.\<close>

definition receive_datagram :: "dhcp_env \<Rightarrow> nat \<Rightarrow> errno + u8 list option" where
  "receive_datagram env minimum =
     (case e_datagram_size env of
        Some e \<Rightarrow> Inl e
      | None \<Rightarrow>
          (case e_read env of
             Inl e \<Rightarrow>
               if \<not> e_alloc env 0 then Inl ENOMEM
               else if e = EAGAIN \<or> e = EINTR then Inr None else Inl e
           | Inr bs \<Rightarrow>
               if \<not> e_alloc env (length bs) then Inl ENOMEM
               else Inr (if length bs < minimum then None else Some bs)))"

definition accepts_message :: "sd_dhcp_client \<Rightarrow> DHCPMessage \<Rightarrow> bool" where
  "accepts_message c message \<longleftrightarrow>
     msg_magic message = DHCP_MAGIC_COOKIE \<and> msg_op message = BOOTREPLY
     \<and> ucast (msg_htype message) = c_arp_type c
     \<and> msg_hlen message = (if c_arp_type c = ARPHRD_ETHER then of_nat ETH_ALEN else 0)
     \<and> take ETH_ALEN (msg_chaddr message) =
         (if c_arp_type c = ARPHRD_ETHER then take ETH_ALEN (c_mac_addr c) else replicate ETH_ALEN 0)
     \<and> \<not> (c_state c \<noteq> DHCP_STATE_BOUND \<and> msg_xid message \<noteq> c_xid c)"

definition client_receive_message_udp ::
  "dhcp_env \<Rightarrow> sd_dhcp_client \<Rightarrow> (sd_dhcp_client option \<times> (errno + unit)) res" where
  "client_receive_message_udp env c =
     (case receive_datagram env sizeof_DHCPMessage of
        Inl e \<Rightarrow> Inr (Some c, Inl e)
      | Inr None \<Rightarrow> Inr (Some c, Inr ())
      | Inr (Some bs) \<Rightarrow>
          (let message = message_of_bytes bs
           in if accepts_message c message then client_handle_message env message (length bs) c
              else Inr (Some c, Inr ())))"

definition client_receive_message_raw ::
  "dhcp_env \<Rightarrow> sd_dhcp_client \<Rightarrow> (sd_dhcp_client option \<times> (errno + unit)) res" where
  "client_receive_message_raw env c =
     (case receive_datagram env sizeof_DHCPPacket of
        Inl e \<Rightarrow> Inr (Some c, Inl e)
      | Inr None \<Rightarrow> Inr (Some c, Inr ())
      | Inr (Some bs) \<Rightarrow>
          (case dhcp_packet_verify_headers (packet_of_bytes bs) (length bs) (e_checksum env) of
             Inl (Errno _) \<Rightarrow> Inr (Some c, Inr ())
           | Inl f \<Rightarrow> Inl f
           | Inr packet \<Rightarrow> client_handle_message env (pkt_dhcp packet) (length bs - DHCP_IP_UDP_SIZE) c))"

end
