(* ===== verification/Dhcp_Client_Timers.thy ===== *)
theory Dhcp_Client_Timers
  imports Dhcp_Client
begin

text \<open>
  The timers of a lease (\<open>client_compute_timeout\<close> and \<open>client_set_lease_timeouts\<close> of
  \<open>dhcp/sd-dhcp-client.c\<close>) and the seconds field of the messages.  \<open>timeout\<close> is the arithmetic of the
  double computation over the natural numbers; with it the theorems say when the lease expires, in which
  order the timers come, and where the order fails.
\<close>

section \<open>Doubles\<close>

lemma bits_le: "n < 2 ^ k \<Longrightarrow> bits n \<le> k"
proof (induction n arbitrary: k rule: bits.induct)
  case (2 n)
  then obtain j where k: "k = Suc j" by (cases k) auto
  have "Suc n div 2 < 2 ^ j" using "2.prems" k by auto
  then show ?case using "2.IH" k by simp
qed simp

lemma rnd53_small: "n < 2 ^ 53 \<Longrightarrow> rnd53 n = n"
  using bits_le [of n 53] by (simp add: rnd53_def)

definition jitter :: "u32 \<Rightarrow> nat" where
  "jitter random = unat (random AND 0x1fffff)"

lemma jitter_less: "jitter random < 2097152"
proof -
  have "(0x1fffff :: u32) = mask 21" by (simp add: mask_eq_exp_minus_1)
  then have "random AND 0x1fffff = take_bit 21 random" by (simp only: take_bit_eq_mask)
  then have "jitter random = take_bit 21 (unat random)" by (simp only: jitter_def unsigned_take_bit_eq)
  then show ?thesis by (simp add: take_bit_eq_mod)
qed

lemma unat_u32_less: "unat (w :: u32) < 4294967296"
  using unsigned_less [of w] by simp

text \<open>
  Up to 142 years after boot the arithmetic is exact: the timeout is the send time of the request, the
  scaled lifetime less three seconds, and up to two seconds of jitter.
\<close>

definition timeout :: "u64 \<Rightarrow> u32 \<Rightarrow> u32 \<Rightarrow> nat \<Rightarrow> nat \<Rightarrow> nat" where
  "timeout request_sent random lifetime num den =
     unat request_sent + (unat lifetime - 3) * 1000000 * num div den + jitter random"

definition sane_clock :: "u64 \<Rightarrow> bool" where
  "sane_clock t \<longleftrightarrow> 0 < t \<and> t < 2 ^ 52"

lemma unat_minus_3: "unat (if 3 < (l :: u32) then l - 3 else 0) = unat l - 3"
proof (cases "3 < l")
  case True
  then have "unat (3 :: u32) \<le> unat l" by (simp add: word_less_nat_alt)
  then have "unat (l - 3) = unat l - unat (3 :: u32)" by (intro unat_sub) (simp add: word_le_nat_alt)
  then show ?thesis using True by simp
qed (simp add: word_less_nat_alt)

lemma timeout_bound:
  assumes "sane_clock request_sent" "num \<le> den" "0 < den"
  shows "timeout request_sent random lifetime num den < 2 ^ 53"
    and "unat request_sent + (unat lifetime - 3) * 1000000 * num div den < 2 ^ 53"
    and "unat request_sent < 2 ^ 53"
proof -
  let ?x = "(unat lifetime - 3) * 1000000"
  have rs: "unat request_sent < 2 ^ 52" using assms(1) by (simp add: sane_clock_def word_less_nat_alt)
  have "?x * num div den \<le> ?x * den div den" using assms(2) by (intro div_le_mono) simp
  then have "?x * num div den \<le> ?x" using assms(3) by simp
  moreover have "?x < 4294967296 * 1000000" using unat_u32_less [of lifetime] by linarith
  ultimately show "timeout request_sent random lifetime num den < 2 ^ 53"
    "unat request_sent + ?x * num div den < 2 ^ 53" "unat request_sent < 2 ^ 53"
    using rs jitter_less [of random] unfolding timeout_def by simp_all
qed

lemma client_compute_timeout_eq:
  assumes "sane_clock request_sent" "0 < lifetime" "num \<le> den" "0 < den"
  shows "client_compute_timeout request_sent random lifetime num den =
    Inr (of_nat (timeout request_sent random lifetime num den))"
proof -
  have "request_sent \<noteq> 0" using assms(1) by (auto simp: sane_clock_def)
  moreover have "\<not> 2 ^ 64 \<le> timeout request_sent random lifetime num den"
    using timeout_bound(1) [OF assms(1,3,4), of random lifetime] by simp
  ultimately show ?thesis
    using assms(2) timeout_bound(1) [OF assms(1,3,4), of random lifetime]
      timeout_bound(2) [OF assms(1,3,4), of lifetime] timeout_bound(3) [OF assms(1,3,4)]
    unfolding client_compute_timeout_def Let_def unat_minus_3
    by (simp add: rnd53_small timeout_def jitter_def)
qed

lemma unat_timeout:
  assumes "sane_clock request_sent" "num \<le> den" "0 < den"
  shows "unat (of_nat (timeout request_sent random lifetime num den) :: u64) = timeout request_sent random lifetime num den"
  using timeout_bound(1) [OF assms, of random lifetime] by (simp add: unat_of_nat)


lemma timeout_less_iff:
  assumes "sane_clock rs" "num \<le> den" "0 < den" "num' \<le> den'" "0 < den'"
  shows "(of_nat (timeout rs r l num den) :: u64) < of_nat (timeout rs r' l' num' den') \<longleftrightarrow>
      timeout rs r l num den < timeout rs r' l' num' den'"
    and "(of_nat (timeout rs r l num den) :: u64) \<le> of_nat (timeout rs r' l' num' den') \<longleftrightarrow>
      timeout rs r l num den \<le> timeout rs r' l' num' den'"
  unfolding word_less_nat_alt word_le_nat_alt
  using unat_timeout [OF assms(1-3), of r l] unat_timeout [OF assms(1,4,5), of r' l'] by simp_all

section \<open>The timers of a lease\<close>

text \<open>
  The lease that \<open>lease_timeouts\<close> leaves behind and the three timeouts, as numbers.
\<close>

lemmas compute_eq = client_compute_timeout_eq [where num = 1 and den = 1, simplified]
  client_compute_timeout_eq [where num = 1 and den = 2, simplified]
  client_compute_timeout_eq [where num = 7 and den = 8, simplified]

lemma u32_pos: "0 < (w :: u32) \<longleftrightarrow> w \<noteq> 0"
  by (simp add: word_neq_0_conv)

lemma lease_timeouts_total:
  assumes "sane_clock rs" "le_lifetime l \<noteq> 0"
  shows "\<exists>l' t2 t1. lease_timeouts rs random l =
      Inr (l', of_nat (timeout rs (random 0) (le_lifetime l) 1 1), t2, t1) \<and> le_lifetime l' = le_lifetime l"
  using assms by (simp add: lease_timeouts_def compute_eq u32_pos Let_def)

text \<open>
  C28.  A client stops using its address before the lease ends: whatever T1 and T2 the server sent and
  whatever the jitter is, computing the timers of a lease of more than three seconds succeeds and puts
  the expiry after the last three seconds have begun and before the lifetime, counted from the time the
  request was sent, is over.
\<close>

theorem lease_expires_in_time:
  assumes "sane_clock rs" and "3 < le_lifetime l"
  shows "\<exists>l' expire t2 t1. lease_timeouts rs random l = Inr (l', expire, t2, t1)
    \<and> le_lifetime l' = le_lifetime l
    \<and> unat rs + (unat (le_lifetime l) - 3) * 1000000 \<le> unat expire
    \<and> unat expire < unat rs + unat (le_lifetime l) * 1000000"
proof -
  have l: "3 < unat (le_lifetime l)" using assms(2) by (simp add: word_less_nat_alt)
  have "le_lifetime l \<noteq> 0" using assms(2) by auto
  then obtain l' t2 t1 where r: "lease_timeouts rs random l =
      Inr (l', of_nat (timeout rs (random 0) (le_lifetime l) 1 1), t2, t1)" "le_lifetime l' = le_lifetime l"
    using lease_timeouts_total [OF assms(1)] by blast
  have u: "unat (of_nat (timeout rs (random 0) (le_lifetime l) 1 1) :: u64) = timeout rs (random 0) (le_lifetime l) 1 1"
    by (rule unat_timeout [OF assms(1)]) simp_all
  obtain k where k: "unat (le_lifetime l) = k + 3" using l less_imp_add_positive by (metis add.commute)
  have "unat rs + (unat (le_lifetime l) - 3) * 1000000 \<le> timeout rs (random 0) (le_lifetime l) 1 1"
    "timeout rs (random 0) (le_lifetime l) 1 1 < unat rs + unat (le_lifetime l) * 1000000"
    using jitter_less [of "random 0"] unfolding timeout_def k by simp_all
  then show ?thesis using r u by (intro exI conjI) (rule r, simp_all)
qed

theorem lease_expires_in_time_witness:
  "\<exists>l l' expire t2 t1. dhcp_lease_new (\<lambda>_. True) = Inr l
    \<and> lease_timeouts 1000000 (\<lambda>_. 12345) (l\<lparr>le_lifetime := 3600\<rparr>) = Inr (l', expire, t2, t1)
    \<and> unat expire < 3601000000"
proof -
  obtain l where l: "dhcp_lease_new (\<lambda>_. True) = Inr l" by (simp add: dhcp_lease_new_def)
  have "sane_clock 1000000" by (simp add: sane_clock_def)
  from lease_expires_in_time [OF this, of "l\<lparr>le_lifetime := 3600\<rparr>" "\<lambda>_. 12345"] l show ?thesis by auto
qed

lemma unat_times_7: "unat ((l :: u32) * 7) = unat l * 7 mod 4294967296"
  by (simp add: unat_word_ariths)

lemma unat_div_8: "unat ((l :: u32) div 8) = unat l div 8" "unat (l div 2) = unat l div 2"
  by (simp_all add: unat_div)


lemma halves_wrap:
  assumes "unat (t :: u32) < unat l" "unat l div 2 < unat t"
  shows "1073741824 \<le> unat ((l div 2 - t) div 2)"
proof -
  have "unat (l div 2 - t) = unat l div 2 + 4294967296 - unat t"
    using assms unat_sub_if' [of "l div 2" t] by (simp add: unat_div_8)
  then have "2147483648 \<le> unat (l div 2 - t)"
    using assms unat_u32_less [of l] by linarith
  then show ?thesis by (simp add: unat_div_8)
qed

lemma unat_usec: "unat ((ucast (w :: u32) :: u64) * 1000000) = unat w * 1000000"
proof -
  have "unat (ucast w :: u64) = unat w"
    using unat_u32_less [of w] by (simp add: unsigned_ucast_eq take_bit_nat_eq_self)
  then show ?thesis using unat_u32_less [of w] by (simp add: unat_word_ariths)
qed

text \<open>
  C30.  A server that sends only T1, and one later than 7/8 of the lifetime (plus three seconds), gets
  the timers the wrong way round: the client keeps that T1, moves T2 to half of the lifetime, rebinds
  before it renews, and once it renews waits more than 34 years before it asks again.
\<close>

theorem late_t1_swaps_timers:
  assumes "sane_clock rs" and "le_t2 l = 0" and "le_t1 l < le_lifetime l"
    and "7 * unat (le_lifetime l) + 24 \<le> 8 * unat (le_t1 l)"
  shows "\<exists>l' expire t2 t1. lease_timeouts rs random l = Inr (l', expire, t2, t1)
    \<and> t2 < t1 \<and> le_t1 l' = le_t1 l \<and> le_t2 l' = le_lifetime l div 2
    \<and> (c_state c = DHCP_STATE_RENEWING \<longrightarrow> c_lease c = Some l' \<longrightarrow>
        (\<exists>d. resend_delay c = Inr d \<and> 34 * 365 * 24 * 3600 * 1000000 < unat d))"
proof -
  let ?L = "unat (le_lifetime l)" and ?T = "unat (le_t1 l)"
  let ?t1 = "timeout rs (random 1) (le_t1 l) 1 1" and ?t2 = "timeout rs (random 2) (le_lifetime l) 7 8"
  let ?t2' = "timeout rs (random 3) (le_lifetime l) 1 2"
  let ?l = "l\<lparr>le_t2 := le_lifetime l div 2\<rparr>"
  have L: "?T < ?L" using assms(3) by (simp add: word_less_nat_alt)
  obtain t where t: "?T - 3 = t" by simp
  obtain k where k: "?L - 3 = k" by simp
  have tk: "7 * k + 21 \<le> 8 * t" "k \<ge> 1" using assms(4) L t k by linarith+
  have d: "k * 1000000 * 7 div 8 = 875000 * k" "k * 1000000 * 1 div 2 = 500000 * k" by simp_all
  have j: "jitter r < 2097152" for r by (rule jitter_less)
  have ord: "?t2 \<le> ?t1" "?t2' < ?t1"
    using tk d t k j [of "random 1"] j [of "random 2"] j [of "random 3"] unfolding timeout_def by simp_all
  have pos: "0 < le_t1 l" "0 < le_lifetime l" using assms(4) L by (simp_all add: word_less_nat_alt)
  have r: "lease_timeouts rs random l = Inr (?l, of_nat (timeout rs (random 0) (le_lifetime l) 1 1), of_nat ?t2', of_nat ?t1)"
    using assms(1-3) pos ord by (simp add: lease_timeouts_def compute_eq Let_def timeout_less_iff)
  have "resend_delay c = Inr (ucast ((le_lifetime l div 2 - le_t1 l) div 2) * 1000000)
      \<and> 34 * 365 * 24 * 3600 * 1000000 < unat ((ucast ((le_lifetime l div 2 - le_t1 l) div 2) :: u64) * 1000000)"
    if "c_state c = DHCP_STATE_RENEWING" "c_lease c = Some ?l"
  proof -
    let ?w = "(le_lifetime l div 2 - le_t1 l) div 2"
    have big: "1073741824 \<le> unat ?w"
      by (rule halves_wrap [OF L]) (use assms(4) in linarith)
    then have "\<not> ?w < 60" by (simp add: word_less_nat_alt)
    then show ?thesis using that big unat_usec [of ?w] by (simp add: resend_delay_def)
  qed
  then show ?thesis
    using r ord(2) assms(1) by (intro exI conjI) (rule r, simp_all add: timeout_less_iff)
qed


theorem late_t1_swaps_timers_witness:
  "\<exists>l l' expire t2 t1. dhcp_lease_new (\<lambda>_. True) = Inr l
    \<and> lease_timeouts 1000000 (\<lambda>_. 0) (l\<lparr>le_lifetime := 1000, le_t1 := 900\<rparr>) = Inr (l', expire, t2, t1)
    \<and> t2 < t1 \<and> le_t1 l' = 900 \<and> le_t2 l' = 500"
proof -
  obtain l where l: "dhcp_lease_new (\<lambda>_. True) = Inr l" "le_t2 l = 0"
    by (simp add: dhcp_lease_new_def)
  have "sane_clock 1000000" by (simp add: sane_clock_def)
  from late_t1_swaps_timers [OF this, of "l\<lparr>le_lifetime := 1000, le_t1 := 900\<rparr>" "\<lambda>_. 0"] l
  show ?thesis by fastforce
qed



text \<open>
  C32.  The seconds field of a message is never zero in the first 18 hours, as broken servers need it,
  but it is zero whenever the time since the start is a multiple of 65536 seconds, since it keeps only
  16 bits.
\<close>

theorem message_secs_zero:
  "message_secs now start = 0 \<longleftrightarrow>
     0 < unat (now - start) div 1000000 \<and> 65536 dvd unat (now - start) div 1000000"
proof -
  let ?d = "(now - start) div 1000000"
  have u: "unat ?d = unat (now - start) div 1000000" by (simp add: unat_div)
  have "(ucast ?d :: u16) = 0 \<longleftrightarrow> unat ?d mod 65536 = 0"
  proof -
    have "unat (ucast ?d :: u16) = unat ?d mod 65536" by (simp add: unsigned_ucast_eq take_bit_eq_mod)
    then show ?thesis by (metis unsigned_0 unsigned_eq_0_iff)
  qed
  moreover have "?d = 0 \<longleftrightarrow> unat ?d = 0" by (simp add: unsigned_eq_0_iff)
  ultimately show ?thesis
    unfolding u by (auto simp: message_secs_def Let_def mod_eq_0_iff_dvd)
qed

end
