(* ===== verification/Dhcp_Client_Messages.thy ===== *)
theory Dhcp_Client_Messages
  imports Dhcp_Client
begin

text \<open>
  The messages of the client.  \<open>cm_ok\<close> reads a successful run of the client's monad.  \<open>draft m off ts\<close>
  says that a message under construction holds exactly the options \<open>ts\<close>; each function that appends to
  a message extends it.  The theorems say what a server that parses a DISCOVER or a REQUEST sees, that
  both are sent when their options fit, and which configuration makes the client write past the buffer.
\<close>

section \<open>Successful runs\<close>

lemma cret_ok: "cret x c = Inr (c', Inr y) \<longleftrightarrow> c' = c \<and> y = x"
  by (auto simp: cret_def)

lemma cfail_ok: "cfail e c = Inr (c', Inr y) \<longleftrightarrow> False"
  by (simp add: cfail_def)

lemma cbind_ok: "cbind m f c = Inr (c', Inr y) \<longleftrightarrow> (\<exists>c1 x. m c = Inr (c1, Inr x) \<and> f x c1 = Inr (c', Inr y))"
proof (cases "m c")
  case (Inr p)
  obtain c1 r where p: "p = (c1, r)" by (cases p)
  show ?thesis using Inr by (cases r) (auto simp: p cbind_def ctry_def cfail_def)
qed (simp add: cbind_def ctry_def)

lemma cthen_ok: "cthen m n c = Inr (c', Inr y) \<longleftrightarrow> (\<exists>c1. m c = Inr (c1, Inr ()) \<and> n c1 = Inr (c', Inr y))"
  by (simp add: cthen_def cbind_ok)

lemma cget_ok: "cget f c = Inr (c', Inr y) \<longleftrightarrow> f c c = Inr (c', Inr y)"
  by (simp add: cget_def)

lemma cmodify_ok: "cmodify f c = Inr (c', Inr y) \<longleftrightarrow> c' = f c"
  by (auto simp: cmodify_def)

lemma cassert_ok: "cassert b c = Inr (c', Inr y) \<longleftrightarrow> b \<and> c' = c"
  by (auto simp: cassert_def)

lemma assert_return_ok: "assert_return b e c = Inr (c', Inr y) \<longleftrightarrow> b \<and> c' = c"
  by (auto simp: assert_return_def cret_def cfail_def)

lemma clift_ok: "clift r c = Inr (c', Inr y) \<longleftrightarrow> r = Inr y \<and> c' = c"
  by (auto simp: clift_def split: sum.splits fault.splits)

lemma cerrno_ok: "cerrno e c = Inr (c', Inr y) \<longleftrightarrow> e = None \<and> c' = c"
  by (auto simp: cerrno_def cret_def cfail_def split: option.splits)

lemmas cm_ok = cret_ok cfail_ok cbind_ok cthen_ok cget_ok cmodify_ok cassert_ok assert_return_ok clift_ok cerrno_ok

section \<open>Messages under construction\<close>

definition draft :: "DHCPMessage \<Rightarrow> nat \<Rightarrow> (u8 \<times> u8 list) list \<Rightarrow> bool" where
  "draft m off ts \<longleftrightarrow> built m off ts \<and> length (msg_options m) = DHCP_MIN_OPTIONS_SIZE \<and> wf_message m"

definition same_header :: "DHCPMessage \<Rightarrow> DHCPMessage \<Rightarrow> bool" where
  "same_header m m' \<longleftrightarrow> (\<exists>options. m' = m\<lparr>msg_options := options\<rparr>)"

lemma same_header_refl [simp]: "same_header m m"
  by (simp add: same_header_def) (metis DHCPMessage.surjective DHCPMessage.update_convs(16))

lemma same_header_trans: "same_header a b \<Longrightarrow> same_header b c \<Longrightarrow> same_header a c"
  by (auto simp: same_header_def)

lemma append_same_header: "dhcp_option_append m sz off 0 code val = Inr (m', off') \<Longrightarrow> same_header m m'"
  by (auto simp: dhcp_option_append_plain rbind_Inr_iff same_header_def split: if_splits)

lemma same_header_wf: "same_header m m' \<Longrightarrow> wf_message m' = wf_message m"
  by (auto simp: same_header_def wf_message_def)

lemma append_draft:
  assumes "dhcp_option_append m sz off 0 code val = Inr (m', off')" "draft m off ts" "code \<noteq> 0" "code \<noteq> 255"
  shows "draft m' off' (ts @ [(code, val)])" and "same_header m m'"
proof -
  show "same_header m m'" by (rule append_same_header [OF assms(1)])
  from same_header_wf [OF this] show "draft m' off' (ts @ [(code, val)])"
    using dhcp_option_append_built(1,4) [OF assms(1) _ assms(3,4), of ts] assms(2) by (simp add: draft_def)
qed

lemma append_end:
  assumes "dhcp_option_append m sz off 0 255 [] = Inr (m', off')" "draft m off ts"
  shows "take off' (msg_options m') = encode_options ts @ [255]" and "same_header m m'"
    and "off' \<le> sz" and "length (msg_options m') = 308" and "wf_message m'"
  using dhcp_option_append_close(1,2,4) [OF assms(1), of ts] assms(2) append_same_header [OF assms(1)]
    same_header_wf [OF append_same_header [OF assms(1)]]
  by (simp_all add: draft_def)

definition common_options :: "u8 \<Rightarrow> sd_dhcp_client \<Rightarrow> (u8 \<times> u8 list) list" where
  "common_options type c =
     [(SD_DHCP_OPTION_MESSAGE_TYPE, [type]), (SD_DHCP_OPTION_CLIENT_IDENTIFIER, client_id_bytes c),
      (SD_DHCP_OPTION_PARAMETER_REQUEST_LIST, c_req_opts c), (SD_DHCP_OPTION_MAXIMUM_MESSAGE_SIZE, [2, 64])]"

text \<open>Building a message changes nothing of the client but its identifier, and that only if it had none.\<close>

definition same_but_id :: "sd_dhcp_client \<Rightarrow> sd_dhcp_client \<Rightarrow> bool" where
  "same_but_id c c' \<longleftrightarrow>
     (if c_client_id_len c \<noteq> 0 then c' = c
      else \<exists>type data len. c' = c\<lparr>c_client_id_type := type, c_client_id_data := data, c_client_id_len := Suc len\<rparr>)"

lemma same_but_id_fields:
  assumes "same_but_id c c'"
  shows "c_mac_addr c' = c_mac_addr c" "c_arp_type c' = c_arp_type c" "c_xid c' = c_xid c"
    "c_start_time c' = c_start_time c" "c_request_broadcast c' = c_request_broadcast c" "c_client_id_len c' \<noteq> 0"
    "c_state c' = c_state c" "c_lease c' = c_lease c" "c_last_addr c' = c_last_addr c" "c_hostname c' = c_hostname c"
    "c_vendor_class_identifier c' = c_vendor_class_identifier c" "c_trace c' = c_trace c"
    "c_req_opts c' = c_req_opts c" "c_attempt c' = c_attempt c" "c_fd c' = c_fd c"
  using assms by (auto simp: same_but_id_def split: if_splits)

lemma ensure_client_id_ok:
  assumes "ensure_client_id env c = Inr (c', Inr u)" shows "same_but_id c c'"
proof (cases "c_client_id_len c = 0")
  case True
  obtain iaid duid where "c' = c\<lparr>c_client_id_type := 255,
      c_client_id_data := overwrite (unaligned_write_be32 iaid @ duid)
        (overwrite (unaligned_write_be32 iaid) (c_client_id_data c)), c_client_id_len := Suc (4 + length duid)\<rparr>"
    using assms True by (auto simp: ensure_client_id_def cm_ok set_identity_def)
  with True show ?thesis unfolding same_but_id_def by (simp only: simp_thms if_False) blast
next
  case False
  then show ?thesis using assms by (auto simp: ensure_client_id_def cm_ok same_but_id_def)
qed

definition message_header :: "dhcp_env \<Rightarrow> sd_dhcp_client \<Rightarrow> DHCPMessage \<Rightarrow> bool" where
  "message_header env c m \<longleftrightarrow>
     msg_op m = BOOTREQUEST \<and> msg_htype m = ucast (c_arp_type c) \<and> msg_xid m = c_xid c
     \<and> msg_hlen m = (if c_arp_type c = ARPHRD_ETHER then 6 else 0)
     \<and> (\<exists>now. e_event_now env = Inr now \<and> msg_secs m = message_secs now (c_start_time c))
     \<and> msg_flags m = (if c_request_broadcast c \<or> c_arp_type c \<noteq> ARPHRD_ETHER then 0x8000 else 0)
     \<and> (c_arp_type c = ARPHRD_ETHER \<longrightarrow> take 6 (msg_chaddr m) = take 6 (c_mac_addr c))
     \<and> msg_magic m = DHCP_MAGIC_COOKIE"

lemma same_header_fields:
  assumes "same_header m m'"
  shows "message_header env c m' = message_header env c m" "msg_ciaddr m' = msg_ciaddr m"
    "msg_yiaddr m' = msg_yiaddr m"
  using assms by (auto simp: same_header_def message_header_def)

lemma dhcp_message_init_ok:
  assumes "dhcp_message_init (blank_message 308) op' xid type arp_type optlen = Inr (m, off)"
  shows "draft m off [(53, [type])]" and "op' = 1 \<or> op' = 2"
    and "msg_op m = op'" "msg_htype m = ucast arp_type" "msg_hlen m = (if arp_type = 1 then 6 else 0)"
    "msg_xid m = xid" "msg_magic m = DHCP_MAGIC_COOKIE" "msg_flags m = 0" "msg_ciaddr m = 0"
    "length (msg_chaddr m) = 16"
proof -
  let ?m = "(blank_message 308)\<lparr>msg_op := op', msg_htype := ucast arp_type,
               msg_hlen := (if arp_type = 1 then 6 else 0), msg_xid := xid, msg_magic := DHCP_MAGIC_COOKIE\<rparr>"
  have a: "dhcp_option_append ?m optlen 0 0 53 [type] = Inr (m, off)" and "op' = 1 \<or> op' = 2"
    using assms by (auto simp: dhcp_message_init_def split: if_splits)
  then show "op' = 1 \<or> op' = 2" by simp
  have d: "draft ?m 0 []" by (simp add: draft_def wf_message_def blank_message_def)
  from append_draft [OF a d] show "draft m off [(53, [type])]" by simp
  from append_draft(2) [OF a d] show "msg_op m = op'" "msg_htype m = ucast arp_type"
    "msg_hlen m = (if arp_type = 1 then 6 else 0)"
    "msg_xid m = xid" "msg_magic m = DHCP_MAGIC_COOKIE" "msg_flags m = 0" "msg_ciaddr m = 0"
    "length (msg_chaddr m) = 16"
    by (auto simp: same_header_def blank_message_def)
qed

lemma draft_fields:
  "draft (m\<lparr>msg_secs := x\<rparr>) off ts = draft m off ts" "draft (m\<lparr>msg_flags := x\<rparr>) off ts = draft m off ts"
  "length ch = length (msg_chaddr m) \<Longrightarrow> draft (m\<lparr>msg_chaddr := ch\<rparr>) off ts = draft m off ts"
  "draft (m\<lparr>msg_ciaddr := a\<rparr>) off ts = draft m off ts"
  by (simp_all add: draft_def built_def wf_message_def)

lemma length_overwrite: "length xs \<le> length ys \<Longrightarrow> length (overwrite xs ys) = length ys"
  by (simp add: overwrite_def)

lemma take_overwrite: "take (length xs) (overwrite xs ys) = xs"
  by (simp add: overwrite_def)

lemma message_fields_ok:
  assumes "draft m off ts" "6 \<le> length (c_mac_addr c)" "length (msg_chaddr m) = 16" "e_event_now env = Inr now"
    "msg_op m = 1" "msg_htype m = ucast (c_arp_type c)" "msg_hlen m = (if c_arp_type c = 1 then 6 else 0)"
    "msg_xid m = c_xid c" "msg_magic m = DHCP_MAGIC_COOKIE" "msg_flags m = 0" "msg_ciaddr m = 0"
  shows "draft (message_fields c now m) off ts" and "message_header env c (message_fields c now m)"
    and "msg_ciaddr (message_fields c now m) = 0"
proof -
  have l: "length (overwrite (take 6 (c_mac_addr c)) (msg_chaddr m)) = length (msg_chaddr m)"
    using assms(2,3) by (simp add: overwrite_def)
  have t: "take 6 (overwrite (take 6 (c_mac_addr c)) (msg_chaddr m)) = take 6 (c_mac_addr c)"
    using assms(2) by (simp add: overwrite_def)
  show "draft (message_fields c now m) off ts"
    using assms(1) l by (simp add: message_fields_def Let_def draft_fields)
  show "message_header env c (message_fields c now m)" "msg_ciaddr (message_fields c now m) = 0"
    using assms t by (simp_all add: message_fields_def message_header_def Let_def)
qed

lemma append_common_ok:
  assumes "append_common c 576 m optlen off = Inr (m', off')" "draft m off [(53, [type])]" "c_client_id_len c \<noteq> 0"
  shows "draft m' off' (common_options type c)" and "same_header m m'"
proof -
  obtain m1 off1 m2 off2 where
    a1: "dhcp_option_append m optlen off 0 61 (client_id_bytes c) = Inr (m1, off1)" and
    a2: "dhcp_option_append m1 optlen off1 0 55 (c_req_opts c) = Inr (m2, off2)" and
    a3: "dhcp_option_append m2 (unat (c_mtu c)) off2 0 57 (unaligned_write_be16 576) = Inr (m', off')"
    using assms(1,3) by (auto simp: append_common_def rbind_Inr_iff split: prod.splits)
  note d1 = append_draft [OF a1 assms(2)]
  note d2 = append_draft [OF a2 d1(1)]
  note d3 = append_draft [OF a3 d2(1)]
  have "unaligned_write_be16 576 = [2, 64]" by (simp add: unaligned_write_be16_def)
  then show "draft m' off' (common_options type c)" using d3(1) by (simp add: common_options_def)
  show "same_header m m'" using d1(2) d2(2) d3(2) by (auto intro: same_header_trans)
qed

lemma client_message_init_ok:
  assumes "client_message_init env type c = Inr (c', Inr (p, optlen, off))" and "6 \<le> length (c_mac_addr c)"
  shows "optlen = 308" and "same_but_id c c'" and "draft (pkt_dhcp p) off (common_options type c')"
    and "message_header env c (pkt_dhcp p)" and "msg_ciaddr (pkt_dhcp p) = 0"
    and "\<exists>m. p = (blank_packet 308)\<lparr>pkt_dhcp := m\<rparr>"
proof -
  have b: "pkt_dhcp (blank_packet n) = blank_message n" for n by (simp add: blank_packet_def)
  obtain m0 off0 now m where
    init: "dhcp_message_init (blank_message 308) 1 (c_xid c) type (c_arp_type c) 308 = Inr (m0, off0)"
    and now: "e_event_now env = Inr now"
    and ident: "ensure_client_id env c = Inr (c', Inr ())"
    and common: "append_common c' 576 (message_fields c' now m0) 308 off0 = Inr (m, off)"
    and p: "p = (blank_packet 308)\<lparr>pkt_dhcp := m\<rparr>" and o: "optlen = 308"
    using assms(1)
    by (auto simp: client_message_init_def cm_ok Let_def b split: prod.splits sum.splits)
  show id: "same_but_id c c'" by (rule ensure_client_id_ok [OF ident])
  note same = same_but_id_fields [OF id]
  note i = dhcp_message_init_ok [OF init]
  have f: "draft (message_fields c' now m0) off0 [(53, [type])]"
    "message_header env c' (message_fields c' now m0)" "msg_ciaddr (message_fields c' now m0) = 0"
    using message_fields_ok [OF i(1), of c' env now] i now assms(2) same by simp_all
  note a = append_common_ok [OF common f(1) same(6)]
  have h: "message_header env c m' = message_header env c' m'" for m'
    using same by (simp add: message_header_def)
  show "optlen = 308" "\<exists>m. p = (blank_packet 308)\<lparr>pkt_dhcp := m\<rparr>" using o p by auto
  show "draft (pkt_dhcp p) off (common_options type c')" using a(1) p by simp
  show "message_header env c (pkt_dhcp p)" "msg_ciaddr (pkt_dhcp p) = 0"
    using same_header_fields [OF a(2)] f h p by simp_all
qed

section \<open>What a server gets\<close>

definition hostname_options :: "cstr option \<Rightarrow> (u8 \<times> u8 list) list" where
  "hostname_options hostname =
     (case hostname of
        None \<Rightarrow> []
      | Some h \<Rightarrow>
          if dns_name_is_single_label h then [(SD_DHCP_OPTION_HOST_NAME, h)]
          else (case dns_name_to_wire_format h 255 False of
              Inr (b # name) \<Rightarrow> [(SD_DHCP_OPTION_FQDN, [5, 0, 0] @ b # name)]
            | _ \<Rightarrow> []))"

lemma append_hostname_ok:
  assumes "append_hostname h m optlen off = Inr (m', off')" "draft m off ts"
  shows "draft m' off' (ts @ hostname_options h)" and "same_header m m'"
  using assms append_draft [of m optlen off _ _ m' off' ts]
  by (auto simp: append_hostname_def hostname_options_def client_append_fqdn_option_def rbind_Inr_iff neq_Nil_conv
      split: option.splits if_splits list.splits)

definition address_option :: "be32 \<Rightarrow> (u8 \<times> u8 list) list" where
  "address_option a = [(SD_DHCP_OPTION_REQUESTED_IP_ADDRESS, unaligned_write_be32 a)]"

definition discover_options :: "sd_dhcp_client \<Rightarrow> (u8 \<times> u8 list) list" where
  "discover_options c = common_options DHCP_DISCOVER c
     @ (if c_last_addr c = 0 then [] else address_option (c_last_addr c))
     @ hostname_options (c_hostname c)
     @ (case c_vendor_class_identifier c of None \<Rightarrow> [] | Some v \<Rightarrow> [(SD_DHCP_OPTION_VENDOR_CLASS_IDENTIFIER, v)])"

text \<open>The callback of a server that writes down every option it is handed.\<close>

definition collect :: "(u8 \<times> u8 list) list option_cb" where
  "collect code v seen = Inr (seen @ [(code, v)], None)"

lemma run_collect:
  assumes "\<forall>t \<in> set ts. fst t \<noteq> 52 \<and> fst t \<noteq> 53 \<and> fst t \<noteq> 56"
  shows "run_options alloc (Some collect) ov ts st = Inr (st\<lparr>po_userdata := po_userdata st @ ts\<rparr>)"
  using assms
proof (induction ts arbitrary: st)
  case (Cons t ts)
  then show ?case by (cases t) (simp add: parse_option_def collect_def)
qed simp

lemma parse_message:
  assumes "take off (msg_options m) = encode_options ((53, [type]) # ts) @ [255]" "off \<le> length (msg_options m)"
    "\<forall>t \<in> set ts. fst t \<notin> {0, 52, 53, 56, 255} \<and> length (snd t) \<le> 255" "type \<noteq> 0"
  shows "dhcp_option_parse alloc m (240 + off) (Some collect) [] = Inr (type, ts, None)"
proof -
  have v: "list_all valid_option ((53, [type]) # ts)"
    using assms(3) by (auto simp: list_all_iff valid_option_def)
  have r: "run_options alloc (Some collect) True ((53, [type]) # ts) st =
      Inr (st\<lparr>po_message_type := type, po_userdata := po_userdata st @ ts\<rparr>)" for st
    using run_collect [of ts alloc True "st\<lparr>po_message_type := type\<rparr>"] assms(3) by (simp add: parse_option_def)
  have "parse_options alloc (Some collect) True (encode_options ((53, [type]) # ts) @ [255]) 0 st =
      run_options alloc (Some collect) True ((53, [type]) # ts) st" for st
    using parse_options_encode [OF v, of alloc "Some collect" True "[]" "[]" st] by simp
  then show ?thesis
    unfolding dhcp_option_parse_def r using assms by (simp add: r)
qed

lemma append_ip_headers_ok:
  assumes "dhcp_packet_append_ip_headers p saddr sport daddr dport len = Inr q"
  shows "pkt_dhcp q = pkt_dhcp p" "ip_saddr (pkt_ip q) = saddr" "ip_daddr (pkt_ip q) = daddr"
    "udp_source (pkt_udp q) = sport" "udp_dest (pkt_udp q) = dport"
  using assms by (auto simp: dhcp_packet_append_ip_headers_def Let_def rbind_Inr_iff)

lemma dhcp_client_send_raw_ok:
  assumes "dhcp_client_send_raw env p len c = Inr (c', Inr u)"
  shows "\<exists>q. c' = c\<lparr>c_trace := c_trace c @ [SendRaw q len]\<rparr> \<and> pkt_dhcp q = pkt_dhcp p
    \<and> ip_daddr (pkt_ip q) = 0xffffffff \<and> udp_dest (pkt_udp q) = DHCP_PORT_SERVER"
proof -
  obtain q where q: "dhcp_packet_append_ip_headers p 0 68 0xffffffff 67 (of_nat len) = Inr q"
    "c' = c\<lparr>c_trace := c_trace c @ [SendRaw q len]\<rparr>"
    using assms by (auto simp: dhcp_client_send_raw_def cm_ok log_action_def)
  show ?thesis using append_ip_headers_ok [OF q(1)] q(2) by (intro exI [of _ q]) simp
qed

definition request_extra :: "sd_dhcp_client \<Rightarrow> (u8 \<times> u8 list) list" where
  "request_extra c =
     (case (c_state c, c_lease c) of
        (DHCP_STATE_REQUESTING, Some l) \<Rightarrow>
          (SD_DHCP_OPTION_SERVER_IDENTIFIER, unaligned_write_be32 (le_server_address l)) # address_option (le_address l)
      | (DHCP_STATE_INIT_REBOOT, _) \<Rightarrow> address_option (c_last_addr c)
      | _ \<Rightarrow> [])"

definition request_ciaddr :: "sd_dhcp_client \<Rightarrow> be32" where
  "request_ciaddr c =
     (case (c_state c, c_lease c) of
        (DHCP_STATE_RENEWING, Some l) \<Rightarrow> le_address l
      | (DHCP_STATE_REBINDING, Some l) \<Rightarrow> le_address l
      | _ \<Rightarrow> 0)"

lemma request_options_ok:
  assumes "request_options c m optlen off = Inr (m', off')" "draft m off ts" "message_header env c0 m" "msg_ciaddr m = 0"
  shows "draft m' off' (ts @ request_extra c)" "message_header env c0 m'" "msg_ciaddr m' = request_ciaddr c"
proof -
  have h: "message_header env c0 (x\<lparr>msg_ciaddr := a\<rparr>) = message_header env c0 x" for x a
    by (simp add: message_header_def)
  from assms(1) consider
    (requesting) l m1 off1 where "c_state c = DHCP_STATE_REQUESTING" "c_lease c = Some l"
      "dhcp_option_append m optlen off 0 54 (unaligned_write_be32 (le_server_address l)) = Inr (m1, off1)"
      "dhcp_option_append m1 optlen off1 0 50 (unaligned_write_be32 (le_address l)) = Inr (m', off')"
  | (reboot) "c_state c = DHCP_STATE_INIT_REBOOT"
      "dhcp_option_append m optlen off 0 50 (unaligned_write_be32 (c_last_addr c)) = Inr (m', off')"
  | (renewing) l where "c_state c = DHCP_STATE_RENEWING \<or> c_state c = DHCP_STATE_REBINDING" "c_lease c = Some l"
      "m' = m\<lparr>msg_ciaddr := le_address l\<rparr>" "off' = off"
    by (auto simp: request_options_def rbind_Inr_iff split: prod.splits DHCPState.splits option.splits)
  then have "draft m' off' (ts @ request_extra c) \<and> message_header env c0 m' \<and> msg_ciaddr m' = request_ciaddr c"
  proof cases
    case requesting
    note d = append_draft [OF requesting(3) assms(2)]
    note d' = append_draft [OF requesting(4) d(1)]
    show ?thesis
      using requesting(1,2) d d' assms(3,4) same_header_fields
      by (simp add: request_extra_def request_ciaddr_def address_option_def)
  next
    case reboot
    note d = append_draft [OF reboot(2) assms(2)]
    show ?thesis
      using reboot(1) d assms(3,4) same_header_fields
      by (simp add: request_extra_def request_ciaddr_def address_option_def)
  next
    case renewing
    then show ?thesis
      using assms(2,3) by (auto simp: request_extra_def request_ciaddr_def draft_fields h)
  qed
  then show "draft m' off' (ts @ request_extra c)" "message_header env c0 m'" "msg_ciaddr m' = request_ciaddr c"
    by simp_all
qed

text \<open>
  The codes of the options a client sends; in particular only the first one is the message type and
  none of them moves options into other fields.
\<close>

lemma hostname_codes: "t \<in> set (hostname_options h) \<Longrightarrow> fst t \<in> {12, 81}"
proof (cases h)
  case (Some n)
  assume "t \<in> set (hostname_options h)"
  with Some show ?thesis
    by (cases "dns_name_to_wire_format n 255 False"; cases "dns_name_is_single_label n")
      (auto simp: hostname_options_def split: list.split_asm)
qed (simp add: hostname_options_def)

lemma option_codes:
  "t \<in> set (tl (common_options type c)) \<Longrightarrow> fst t \<in> {55, 57, 61}" "t \<in> set (address_option a) \<Longrightarrow> fst t \<in> {50}"
  "t \<in> set (request_extra c) \<Longrightarrow> fst t \<in> {50, 54}"
  by (auto simp: common_options_def address_option_def request_extra_def
      split: option.split_asm DHCPState.split_asm)

lemma common_options_Cons: "common_options type c = (53, [type]) # tl (common_options type c)"
  by (simp add: common_options_def)

lemma discover_tail:
  "t \<in> set (tl (discover_options c)) \<Longrightarrow> fst t \<in> {12, 50, 55, 57, 60, 61, 81}"
  using option_codes(1) [of t 1 c] hostname_codes [of t "c_hostname c"] option_codes(2) [of t "c_last_addr c"]
  unfolding discover_options_def
  by (subst (asm) common_options_Cons) (auto split: option.splits if_splits)

lemma sent_message_parses:
  assumes "dhcp_option_append m 308 off 0 255 [] = Inr (m', off')" "draft m off ((53, [type]) # ts)"
    "\<forall>t \<in> set ts. fst t \<notin> {0, 52, 53, 56, 255} \<and> length (snd t) \<le> 255" "type \<noteq> 0"
  shows "dhcp_option_parse alloc m' (240 + off') (Some collect) [] = Inr (type, ts, None)"
  using append_end [OF assms(1,2)] assms(3,4) by (intro parse_message) simp_all

lemma discover_sent:
  assumes "client_send_discover env c = Inr (c', Inr ())" and "6 \<le> length (c_mac_addr c)"
    and "\<forall>t \<in> set (discover_options c'). length (snd t) \<le> 255"
  shows "\<exists>p len. c_trace c' = c_trace c @ [SendRaw p len]
    \<and> ip_daddr (pkt_ip p) = 0xffffffff \<and> udp_dest (pkt_udp p) = DHCP_PORT_SERVER
    \<and> message_header env c (pkt_dhcp p) \<and> msg_ciaddr (pkt_dhcp p) = 0
    \<and> dhcp_option_parse alloc (pkt_dhcp p) (len - DHCP_IP_UDP_SIZE) (Some collect) [] =
        Inr (DHCP_DISCOVER, tl (discover_options c'), None)"
proof -
  obtain c1 p1 optlen off1 m2 off2 m3 off3 m4 off4 m5 off5 where
    init: "client_message_init env 1 c = Inr (c1, Inr (p1, optlen, off1))"
    and a2: "(if c_last_addr c = 0 then Inr (pkt_dhcp p1, off1)
         else dhcp_option_append (pkt_dhcp p1) optlen off1 0 50 (unaligned_write_be32 (c_last_addr c))) = Inr (m2, off2)"
    and a3: "append_hostname (c_hostname c) m2 optlen off2 = Inr (m3, off3)"
    and a4: "(case c_vendor_class_identifier c of None \<Rightarrow> Inr (m3, off3)
         | Some vci \<Rightarrow> dhcp_option_append m3 optlen off3 0 60 vci) = Inr (m4, off4)"
    and a5: "dhcp_option_append m4 optlen off4 0 255 [] = Inr (m5, off5)"
    and send: "dhcp_client_send_raw env (p1\<lparr>pkt_dhcp := m5\<rparr>) (268 + off5) c1 = Inr (c', Inr ())"
    using assms(1) unfolding client_send_discover_def by (auto simp: cm_ok split: prod.splits)
  note i = client_message_init_ok [OF init assms(2)]
  note f = same_but_id_fields [OF i(2)]
  have d2: "draft m2 off2 (common_options 1 c1 @ (if c_last_addr c = 0 then [] else address_option (c_last_addr c)))
      \<and> same_header (pkt_dhcp p1) m2"
    using a2 i(3) append_draft [of "pkt_dhcp p1" optlen off1 50 _ m2 off2 "common_options 1 c1"]
    by (auto simp: address_option_def split: if_splits)
  note d3 = append_hostname_ok [OF a3 conjunct1 [OF d2]]
  have d4: "draft m4 off4 (discover_options c1) \<and> same_header m3 m4"
    using a4 d3(1) f append_draft [OF _ d3(1), of optlen 60 _ m4 off4]
    by (auto simp: discover_options_def split: option.splits)
  obtain q where q: "c' = c1\<lparr>c_trace := c_trace c1 @ [SendRaw q (268 + off5)]\<rparr>" "pkt_dhcp q = m5"
      "ip_daddr (pkt_ip q) = 0xffffffff" "udp_dest (pkt_udp q) = 67"
    using dhcp_client_send_raw_ok [OF send] by auto
  have o: "discover_options c' = discover_options c1"
    by (simp add: q(1) discover_options_def common_options_def client_id_bytes_def)
  obtain ts where ts: "discover_options c1 = (53, [1]) # ts" by (simp add: discover_options_def common_options_def)
  have codes: "\<forall>t \<in> set ts. fst t \<notin> {0, 52, 53, 56, 255} \<and> length (snd t) \<le> 255"
    using discover_tail [of _ c1] assms(3) o ts by fastforce
  have "dhcp_option_parse alloc m5 (240 + off5) (Some collect) [] = Inr (1, ts, None)"
    using sent_message_parses [OF a5 [unfolded i(1)], of 1 ts] d4 ts codes by simp
  moreover have "same_header (pkt_dhcp p1) m5"
    using d2 d3(2) d4 append_same_header [OF a5] by (auto intro: same_header_trans)
  ultimately show ?thesis
    using q f(12) i(4,5) same_header_fields o ts by (intro exI [of _ q] exI [of _ "268 + off5"]) simp
qed



text \<open>The options of a REQUEST.\<close>

definition all_request_options :: "sd_dhcp_client \<Rightarrow> (u8 \<times> u8 list) list" where
  "all_request_options c = common_options DHCP_REQUEST c @ request_extra c @ hostname_options (c_hostname c)"

lemma request_tail:
  "t \<in> set (tl (all_request_options c)) \<Longrightarrow> fst t \<in> {12, 50, 54, 55, 57, 61, 81}"
  using option_codes(1) [of t 3 c] hostname_codes [of t "c_hostname c"] option_codes(3) [of t c]
  unfolding all_request_options_def by (subst (asm) common_options_Cons) auto

lemma request_sent:
  assumes "client_send_request env c = Inr (c', Inr ())" and "6 \<le> length (c_mac_addr c)"
    and "\<forall>t \<in> set (all_request_options c'). length (snd t) \<le> 255"
  shows "\<exists>m len. message_header env c m \<and> msg_ciaddr m = request_ciaddr c
    \<and> dhcp_option_parse alloc m len (Some collect) [] = Inr (DHCP_REQUEST, tl (all_request_options c'), None)
    \<and> (case (c_state c, c_lease c) of
         (DHCP_STATE_RENEWING, Some l) \<Rightarrow> c_trace c' = c_trace c @ [SendUdp (le_server_address l) m len]
       | _ \<Rightarrow> \<exists>p. c_trace c' = c_trace c @ [SendRaw p (len + DHCP_IP_UDP_SIZE)] \<and> pkt_dhcp p = m
           \<and> ip_daddr (pkt_ip p) = 0xffffffff \<and> udp_dest (pkt_udp p) = DHCP_PORT_SERVER)"
proof -
  obtain c1 p1 optlen off1 m2 off2 m3 off3 m4 off4 where
    init: "client_message_init env 3 c = Inr (c1, Inr (p1, optlen, off1))"
    and a2: "request_options c1 (pkt_dhcp p1) optlen off1 = Inr (m2, off2)"
    and a3: "append_hostname (c_hostname c1) m2 optlen off2 = Inr (m3, off3)"
    and a4: "dhcp_option_append m3 optlen off3 0 255 [] = Inr (m4, off4)"
    and send: "(case (c_state c1, c_lease c1) of
       (DHCP_STATE_RENEWING, Some lease) \<Rightarrow>
         cthen (cassert (0 \<le> c_fd c1))
         (cthen (cerrno (e_send_udp env)) (log_action (SendUdp (le_server_address lease) m4 (240 + off4))))
     | _ \<Rightarrow> dhcp_client_send_raw env (p1\<lparr>pkt_dhcp := m4\<rparr>) (268 + off4)) c1 = Inr (c', Inr ())"
    using assms(1) unfolding client_send_request_def by (auto simp: cm_ok split: prod.splits)
  note i = client_message_init_ok [OF init assms(2)]
  note f = same_but_id_fields [OF i(2)]
  note d2 = request_options_ok [OF a2 i(3,4,5)]
  note d3 = append_hostname_ok [OF a3 d2(1)]
  have fc: "request_ciaddr c1 = request_ciaddr c" using f by (simp add: request_ciaddr_def)
  obtain a where a: "c' = c1\<lparr>c_trace := c_trace c1 @ [a]\<rparr>"
    "case (c_state c, c_lease c) of
         (DHCP_STATE_RENEWING, Some l) \<Rightarrow> a = SendUdp (le_server_address l) m4 (240 + off4)
       | _ \<Rightarrow> \<exists>p. a = SendRaw p (240 + off4 + 28) \<and> pkt_dhcp p = m4
           \<and> ip_daddr (pkt_ip p) = 0xffffffff \<and> udp_dest (pkt_udp p) = 67"
  proof (cases "c_state c1 = DHCP_STATE_RENEWING \<and> c_lease c1 \<noteq> None")
    case True
    then show ?thesis using that send f(7,8) by (auto simp: cm_ok log_action_def)
  next
    case False
    then have "(case (c_state c1, c_lease c1) of
       (DHCP_STATE_RENEWING, Some lease) \<Rightarrow>
         cthen (cassert (0 \<le> c_fd c1))
         (cthen (cerrno (e_send_udp env)) (log_action (SendUdp (le_server_address lease) m4 (240 + off4))))
     | _ \<Rightarrow> dhcp_client_send_raw env (p1\<lparr>pkt_dhcp := m4\<rparr>) (268 + off4)) =
       dhcp_client_send_raw env (p1\<lparr>pkt_dhcp := m4\<rparr>) (268 + off4)"
      by (cases "c_state c1"; cases "c_lease c1") simp_all
    from dhcp_client_send_raw_ok [OF send [unfolded this]] obtain q where q: "c' = c1\<lparr>c_trace := c_trace c1 @ [SendRaw q (268 + off4)]\<rparr>"
      "pkt_dhcp q = m4" "ip_daddr (pkt_ip q) = 0xffffffff" "udp_dest (pkt_udp q) = 67" by auto
    show ?thesis
      by (rule that [OF q(1)]) (use False q(2-4) f(7,8) in \<open>cases "c_state c"; cases "c_lease c"; simp\<close>)
  qed
  have o: "all_request_options c' = all_request_options c1"
    by (simp add: a(1) all_request_options_def common_options_def client_id_bytes_def request_extra_def
        split: DHCPState.split)
  obtain ts where ts: "all_request_options c1 = (53, [3]) # ts"
    by (simp add: all_request_options_def common_options_def)
  have codes: "\<forall>t \<in> set ts. fst t \<notin> {0, 52, 53, 56, 255} \<and> length (snd t) \<le> 255"
    using request_tail [of _ c1] assms(3) o ts by fastforce
  have "dhcp_option_parse alloc m4 (240 + off4) (Some collect) [] = Inr (3, ts, None)"
    using sent_message_parses [OF a4 [unfolded i(1)], of 3 ts] d3(1) ts codes
    by (simp add: all_request_options_def)
  moreover have "same_header m2 m4"
    using d3(2) append_same_header [OF a4] by (auto intro: same_header_trans)
  ultimately show ?thesis
    using a f(12) d2(2,3) same_header_fields o ts fc
    by (intro exI [of _ m4] exI [of _ "240 + off4"]) (simp split: DHCPState.splits option.splits)
qed


section \<open>Messages that fit\<close>

definition fits :: "DHCPMessage \<Rightarrow> nat \<Rightarrow> (u8 \<times> u8 list) list \<Rightarrow> bool" where
  "fits m off ts \<longleftrightarrow> draft m off ts \<and> off = length (encode_options ts)"

lemma append_fits:
  assumes "fits m off ts" "code \<noteq> 0" "code \<noteq> 255" "off + length val + 2 < sz" "off + length val + 2 \<le> 308"
    and r: "off' = off + length val + 2" "ts' = ts @ [(code, val)]"
  obtains m' where "dhcp_option_append m sz off 0 code val = Inr (m', off')" "fits m' off' ts'"
proof -
  have l: "length (msg_options m) = 308" using assms(1) by (simp add: fits_def draft_def)
  obtain options where "buf_write (msg_options m) off (code # of_nat (length val) # val) = Inr options"
    using buf_write_ok [of off "code # of_nat (length val) # val" "msg_options m"] assms(5) l by auto
  then have a: "dhcp_option_append m sz off 0 code val = Inr (m\<lparr>msg_options := options\<rparr>, off + length val + 2)"
    using assms(2-4) by (simp add: dhcp_option_append_plain option_append_def)
  from append_draft(1) [OF a, of ts] assms(1-3)
  have "fits (m\<lparr>msg_options := options\<rparr>) (off + length val + 2) (ts @ [(code, val)])"
    by (auto simp: fits_def encode_options_append encode_options_single length_encode_option)
  with a that r show thesis by simp
qed

lemma append_end_fits:
  assumes "fits m off ts" "off < 308"
  obtains m' where "dhcp_option_append m 308 off 0 255 [] = Inr (m', off + 1)"
proof -
  have l: "length (msg_options m) = 308" using assms(1) by (simp add: fits_def draft_def)
  obtain options where "buf_write (msg_options m) off [255] = Inr options"
    using buf_write_ok [of off "[255]" "msg_options m"] assms(2) l by auto
  then show thesis
    using that assms(2) by (simp add: dhcp_option_append_plain option_append_def)
qed

lemma length_encode_append: "length (encode_options (xs @ ys)) = length (encode_options xs) + length (encode_options ys)"
  by (simp add: encode_options_append)

text \<open>An environment in which everything a message needs is granted.\<close>

definition grants :: "dhcp_env \<Rightarrow> bool" where
  "grants env \<longleftrightarrow> (\<forall>n. e_alloc env n) \<and> e_send_raw env = None \<and> e_send_udp env = None"

definition can_send :: "dhcp_env \<Rightarrow> sd_dhcp_client \<Rightarrow> bool" where
  "can_send env c \<longleftrightarrow> grants env \<and> 6 \<le> length (c_mac_addr c)
     \<and> (c_arp_type c = ARPHRD_ETHER \<or> c_arp_type c = ARPHRD_INFINIBAND)
     \<and> c_start_time c \<noteq> 0 \<and> (\<exists>now. e_event_now env = Inr now \<and> c_start_time c \<le> now)
     \<and> c_client_id_len c \<noteq> 0 \<and> 576 \<le> c_mtu c"

text \<open>
  A message up to the parameter request list; the offset reached there decides what the option for the
  maximum message size, whose size check is against the MTU, does.
\<close>

definition common_offset :: "sd_dhcp_client \<Rightarrow> nat" where
  "common_offset c = 7 + length (client_id_bytes c) + length (c_req_opts c)"

lemma length_common_options: "length (encode_options (common_options type c)) = common_offset c + 4"
  by (simp add: common_options_def common_offset_def encode_options_def encode_option_def)

lemma common_options_fits:
  assumes "can_send env c" "common_offset c \<le> 307"
  obtains now m0 m3 where "e_event_now env = Inr now" "c_start_time c \<le> now"
    "dhcp_message_init (blank_message 308) 1 (c_xid c) type (c_arp_type c) 308 = Inr (m0, 3)"
    "append_common c 576 (message_fields c now m0) 308 3 =
       dhcp_option_append m3 (unat (c_mtu c)) (common_offset c) 0 57 [2, 64]"
    "fits m3 (common_offset c) ([(53, [type])] @ [(61, client_id_bytes c)] @ [(55, c_req_opts c)])"
proof -
  obtain now where now: "e_event_now env = Inr now" "c_start_time c \<le> now"
    using assms(1) by (auto simp: can_send_def)
  let ?m = "(blank_message 308)\<lparr>msg_op := 1, msg_htype := ucast (c_arp_type c),
               msg_hlen := (if c_arp_type c = 1 then 6 else 0), msg_xid := c_xid c, msg_magic := DHCP_MAGIC_COOKIE\<rparr>"
  have f0: "fits ?m 0 []" by (simp add: fits_def draft_def wf_message_def blank_message_def encode_options_def)
  obtain m0 where m0: "dhcp_option_append ?m 308 0 0 53 [type] = Inr (m0, 3)" "fits m0 3 [(53, [type])]"
    by (rule append_fits [OF f0, of 53 "[type]" 308 3 "[(53, [type])]"]) simp_all
  have init: "dhcp_message_init (blank_message 308) 1 (c_xid c) type (c_arp_type c) 308 = Inr (m0, 3)"
    using assms(1) m0(1) by (auto simp: dhcp_message_init_def can_send_def)
  have mac: "6 \<le> length (c_mac_addr c)" "c_client_id_len c \<noteq> 0" using assms(1) by (simp_all add: can_send_def)
  note i = dhcp_message_init_ok [OF init]
  let ?m1 = "message_fields c now m0" and ?id = "client_id_bytes c"
  have f1: "fits ?m1 3 [(53, [type])]"
    using message_fields_ok(1) [OF i(1) mac(1) i(10) now(1)] i m0(2) by (simp add: fits_def)
  have sz: "7 + length ?id + length (c_req_opts c) \<le> 307" using assms(2) by (simp add: common_offset_def)
  obtain m2 where m2: "dhcp_option_append ?m1 308 3 0 61 ?id = Inr (m2, 5 + length ?id)"
    "fits m2 (5 + length ?id) ([(53, [type])] @ [(61, ?id)])"
    by (rule append_fits [OF f1, of 61 ?id 308 "5 + length ?id"]) (use sz in \<open>simp_all\<close>)
  obtain m3 where m3: "dhcp_option_append m2 308 (5 + length ?id) 0 55 (c_req_opts c) = Inr (m3, common_offset c)"
    "fits m3 (common_offset c) ([(53, [type])] @ [(61, ?id)] @ [(55, c_req_opts c)])"
    by (rule append_fits [OF m2(2), of 55 "c_req_opts c" 308 "common_offset c"])
      (use sz in \<open>simp_all add: common_offset_def\<close>)
  have w: "unaligned_write_be16 576 = [2, 64]" by (simp add: unaligned_write_be16_def)
  have "append_common c 576 ?m1 308 3 = dhcp_option_append m3 (unat (c_mtu c)) (common_offset c) 0 57 [2, 64]"
    using m2(1) m3(1) mac(2) by (simp add: append_common_def w)
  with that now init m3(2) show thesis by blast
qed

lemma client_message_init_eq:
  assumes "can_send env c" "type = 1 \<or> type = 3" "e_event_now env = Inr now" "c_start_time c \<le> now"
    "dhcp_message_init (blank_message 308) 1 (c_xid c) type (c_arp_type c) 308 = Inr (m0, 3)"
  shows "client_message_init env type c =
    rbind (clift (append_common c 576 (message_fields c now m0) 308 3) c) (\<lambda>(c, r).
      Inr (c, case r of Inl e \<Rightarrow> Inl e | Inr (m, off) \<Rightarrow> Inr ((blank_packet 308)\<lparr>pkt_dhcp := m\<rparr>, 308, off)))"
proof -
  have b: "pkt_dhcp (blank_packet 308) = blank_message 308" by (simp add: blank_packet_def)
  have id: "ensure_client_id env c = Inr (c, Inr ())"
    using assms(1) by (simp add: ensure_client_id_def cget_def cret_def can_send_def)
  show ?thesis
    using assms
    by (auto simp: client_message_init_def cget_def Let_def cthen_def cbind_def ctry_def b id can_send_def grants_def
      cassert_def assert_return_def clift_def cret_def cfail_def split: sum.splits fault.splits)
qed

lemma client_message_init_fits:
  assumes "can_send env c" "type = 1 \<or> type = 3" "length (encode_options (common_options type c)) \<le> 307"
  obtains p off where "client_message_init env type c = Inr (c, Inr (p, 308, off))"
    "fits (pkt_dhcp p) off (common_options type c)" "wf_packet p" "length (msg_options (pkt_dhcp p)) = 308"
proof -
  have sz: "common_offset c + 4 \<le> 307" using assms(3) by (simp add: length_common_options)
  obtain now m0 m3 where m: "e_event_now env = Inr now" "c_start_time c \<le> now"
    "dhcp_message_init (blank_message 308) 1 (c_xid c) type (c_arp_type c) 308 = Inr (m0, 3)"
    "append_common c 576 (message_fields c now m0) 308 3 =
       dhcp_option_append m3 (unat (c_mtu c)) (common_offset c) 0 57 [2, 64]"
    "fits m3 (common_offset c) ([(53, [type])] @ [(61, client_id_bytes c)] @ [(55, c_req_opts c)])"
    by (rule common_options_fits [OF assms(1), of type]) (use sz in auto)
  have mtu: "576 \<le> unat (c_mtu c)" using assms(1) by (simp add: can_send_def word_le_nat_alt)
  obtain m4 where m4: "dhcp_option_append m3 (unat (c_mtu c)) (common_offset c) 0 57 [2, 64] =
      Inr (m4, common_offset c + 4)" "fits m4 (common_offset c + 4) (common_options type c)"
    by (rule append_fits [OF m(5), of 57 "[2, 64]" "unat (c_mtu c)" "common_offset c + 4" "common_options type c"])
      (use sz mtu in \<open>simp_all add: common_options_def\<close>)
  have "client_message_init env type c = Inr (c, Inr ((blank_packet 308)\<lparr>pkt_dhcp := m4\<rparr>, 308, common_offset c + 4))"
    using client_message_init_eq [OF assms(1,2) m(1-3)] m(4) m4(1) by (simp add: clift_def)
  moreover have "wf_packet ((blank_packet 308)\<lparr>pkt_dhcp := m4\<rparr>)"
    using m4(2) by (simp add: wf_packet_def blank_packet_def fits_def draft_def)
  moreover have "length (msg_options m4) = 308" using m4(2) by (simp add: fits_def draft_def)
  ultimately show thesis using that m4(2) by simp
qed

definition hostname_sendable :: "cstr option \<Rightarrow> bool" where
  "hostname_sendable h \<longleftrightarrow>
     (case h of None \<Rightarrow> True
      | Some h \<Rightarrow> dns_name_is_single_label h \<or> (\<exists>b name. dns_name_to_wire_format h 255 False = Inr (b # name)))"

lemma append_hostname_fits:
  assumes "fits m off ts" "hostname_sendable h" "off + length (encode_options (hostname_options h)) < 308"
    and r: "off' = off + length (encode_options (hostname_options h))"
  obtains m' where "append_hostname h m 308 off = Inr (m', off')" "fits m' off' (ts @ hostname_options h)"
proof (cases "h = None")
  case True
  then show thesis using that assms(1) r by (simp add: append_hostname_def hostname_options_def encode_options_def)
next
  case False
  then obtain n where h: "h = Some n" by auto
  obtain code val where o: "hostname_options h = [(code, val)]" "code = 12 \<or> code = 81"
    "append_hostname h m 308 off = dhcp_option_append m 308 off 0 code val"
    using assms(2)
    by (cases "dns_name_is_single_label n")
      (auto simp: h hostname_sendable_def hostname_options_def append_hostname_def client_append_fqdn_option_def)
  have l: "length (encode_options (hostname_options h)) = length val + 2"
    by (simp add: o(1) encode_options_single length_encode_option)
  obtain m' where "dhcp_option_append m 308 off 0 code val = Inr (m', off')" "fits m' off' (ts @ hostname_options h)"
    by (rule append_fits [OF assms(1), of code val 308 off' "ts @ hostname_options h"])
      (use o assms(3) l r in auto)
  with that o(3) show thesis by simp
qed

lemma rbind_total: "\<exists>x. m = Inr x \<Longrightarrow> (\<And>x. m = Inr x \<Longrightarrow> \<exists>y. f x = Inr y) \<Longrightarrow> \<exists>y. rbind m f = Inr y"
  by auto

lemma checksum_total: "len \<le> length buf \<Longrightarrow> \<exists>s. dhcp_packet_checksum buf len = Inr s"
  by (simp add: dhcp_packet_checksum_def Let_def)

lemma append_ip_headers_total:
  assumes "wf_packet p" "8 \<le> unat len" "unat len \<le> 268 + length (msg_options (pkt_dhcp p))"
  shows "\<exists>q. dhcp_packet_append_ip_headers p saddr sport daddr dport len = Inr q"
proof -
  have l: "length (packet_bytes (p\<lparr>pkt_ip := ip, pkt_udp := udp\<rparr>)) = 268 + length (msg_options (pkt_dhcp p))" for ip udp
    using assms(1) by (simp add: packet_bytes_def wf_packet_def length_message_bytes)
  have l': "length (packet_bytes (p\<lparr>pkt_udp := udp, pkt_ip := ip\<rparr>)) = 268 + length (msg_options (pkt_dhcp p))" for ip udp
    using assms(1) by (simp add: packet_bytes_def wf_packet_def length_message_bytes)
  have s: "size_diff (unat len) 8 \<le> length (drop 8 (packet_bytes (p\<lparr>pkt_ip := ip, pkt_udp := udp\<rparr>)))" for ip udp
    using assms(2,3) by (simp add: l size_diff_def)
  have t: "20 \<le> length (packet_bytes (p\<lparr>pkt_udp := udp, pkt_ip := ip\<rparr>))" for ip udp by (simp add: l')
  show ?thesis
    unfolding dhcp_packet_append_ip_headers_def Let_def
    by (intro rbind_total checksum_total s) (simp_all add: t)
qed

lemma send_raw_total:
  assumes "grants env" "wf_packet p" "length (msg_options (pkt_dhcp p)) = 308" "off \<le> 308"
  obtains q where "dhcp_client_send_raw env p (268 + off) c = Inr (c\<lparr>c_trace := c_trace c @ [SendRaw q (268 + off)]\<rparr>, Inr ())"
    "pkt_dhcp q = pkt_dhcp p"
proof -
  have u: "unat (of_nat (268 + off) :: u16) = 268 + off" by (simp only: unat_of_nat) (use assms(4) in simp)
  obtain q where q: "dhcp_packet_append_ip_headers p 0 68 0xffffffff 67 (of_nat (268 + off)) = Inr q"
    using append_ip_headers_total [OF assms(2), where len = "of_nat (268 + off)" and saddr = 0
        and sport = 68 and daddr = "0xffffffff" and dport = 67] u assms(3,4) by auto
  show thesis
  proof (rule that [of q])
    show "dhcp_client_send_raw env p (268 + off) c = Inr (c\<lparr>c_trace := c_trace c @ [SendRaw q (268 + off)]\<rparr>, Inr ())"
      unfolding dhcp_client_send_raw_def cm_ok log_action_def
      using q assms(1) by (auto simp: grants_def)
    show "pkt_dhcp q = pkt_dhcp p" by (rule append_ip_headers_ok(1) [OF q])
  qed
qed

lemma encode_nonempty: "length (encode_options (xs @ [t])) \<ge> 2"
  by (simp add: encode_options_def encode_option_def)

lemma client_send_discover_total:
  assumes "can_send env c" "c_state c = DHCP_STATE_INIT \<or> c_state c = DHCP_STATE_SELECTING"
    "hostname_sendable (c_hostname c)" "length (encode_options (discover_options c)) \<le> 307"
  obtains q len where "client_send_discover env c = Inr (c\<lparr>c_trace := c_trace c @ [SendRaw q len]\<rparr>, Inr ())"
proof -
  let ?addr = "if c_last_addr c = 0 then [] else address_option (c_last_addr c)"
  let ?host = "hostname_options (c_hostname c)"
  let ?vendor = "case c_vendor_class_identifier c of None \<Rightarrow> [] | Some v \<Rightarrow> [(SD_DHCP_OPTION_VENDOR_CLASS_IDENTIFIER, v)]"
  have sz: "length (encode_options (common_options 1 c)) + length (encode_options ?addr) + length (encode_options ?host)
      + length (encode_options ?vendor) \<le> 307"
    using assms(4) by (simp add: discover_options_def length_encode_append)
  obtain p off1 where p: "client_message_init env 1 c = Inr (c, Inr (p, 308, off1))"
    "fits (pkt_dhcp p) off1 (common_options 1 c)" "wf_packet p" "length (msg_options (pkt_dhcp p)) = 308"
    by (rule client_message_init_fits [OF assms(1), of 1]) (use sz in auto)
  have o1: "off1 = length (encode_options (common_options 1 c))" using p(2) by (simp add: fits_def)
  let ?a2 = "if c_last_addr c = 0 then Inr (pkt_dhcp p, off1)
         else dhcp_option_append (pkt_dhcp p) 308 off1 0 50 (unaligned_write_be32 (c_last_addr c))"
  obtain m2 off2 where m2: "?a2 = Inr (m2, off2)" "fits m2 off2 (common_options 1 c @ ?addr)"
  proof (cases "c_last_addr c = 0")
    case False
    have e: "length (encode_options ?addr) = 6" using False
      by (simp add: address_option_def encode_options_single length_encode_option)
    show thesis
      by (rule append_fits [OF p(2), of 50 "unaligned_write_be32 (c_last_addr c)" 308 "off1 + 6" "common_options 1 c @ ?addr"])
        (use False sz e o1 that in \<open>auto simp: address_option_def\<close>)
  qed (use p(2) that in auto)
  have o2: "off2 = length (encode_options (common_options 1 c)) + length (encode_options ?addr)"
    using m2(2) by (simp add: fits_def length_encode_append)
  obtain m3 off3 where m3: "append_hostname (c_hostname c) m2 308 off2 = Inr (m3, off3)"
    "fits m3 off3 ((common_options 1 c @ ?addr) @ ?host)" "off3 = off2 + length (encode_options ?host)"
    by (rule append_hostname_fits [OF m2(2) assms(3), of "off2 + length (encode_options ?host)"]) (use sz o2 in auto)
  let ?a4 = "case c_vendor_class_identifier c of None \<Rightarrow> Inr (m3, off3)
         | Some vci \<Rightarrow> dhcp_option_append m3 308 off3 0 60 vci"
  obtain m4 off4 where m4: "?a4 = Inr (m4, off4)" "fits m4 off4 (discover_options c)"
  proof (cases "c_vendor_class_identifier c")
    case None
    then show thesis using that m3(2) by (simp add: discover_options_def)
  next
    case (Some v)
    have e: "length (encode_options ?vendor) = length v + 2"
      using Some by (simp add: encode_options_single length_encode_option)
    show thesis
      by (rule append_fits [OF m3(2), of 60 v 308 "off3 + length v + 2" "discover_options c"])
        (use Some sz e o2 m3(3) that in \<open>auto simp: discover_options_def\<close>)
  qed
  have o4: "off4 \<le> 307" using m4(2) assms(4) by (simp add: fits_def)
  obtain m5 where m5: "dhcp_option_append m4 308 off4 0 255 [] = Inr (m5, off4 + 1)"
    by (rule append_end_fits [OF m4(2)]) (use o4 in auto)
  have d5: "length (msg_options m5) = 308" "wf_message m5"
    using append_end(4,5) [OF m5, of "discover_options c"] m4(2) by (auto simp: fits_def)
  obtain q where q: "dhcp_client_send_raw env (p\<lparr>pkt_dhcp := m5\<rparr>) (268 + (off4 + 1)) c =
      Inr (c\<lparr>c_trace := c_trace c @ [SendRaw q (268 + (off4 + 1))]\<rparr>, Inr ())"
    by (rule send_raw_total [of env "p\<lparr>pkt_dhcp := m5\<rparr>" "off4 + 1" c])
      (use assms(1) p(3) d5 o4 in \<open>auto simp: can_send_def wf_packet_def\<close>)
  show thesis
  proof (rule that [of q "268 + (off4 + 1)"])
    show "client_send_discover env c = Inr (c\<lparr>c_trace := c_trace c @ [SendRaw q (268 + (off4 + 1))]\<rparr>, Inr ())"
      using assms(2) p(1) m2(1) m3(1) m4(1) m5 q unfolding client_send_discover_def cm_ok
      by (intro exI [of _ c] conjI) (auto simp: cm_ok)
  qed
qed

definition requestable :: "sd_dhcp_client \<Rightarrow> bool" where
  "requestable c \<longleftrightarrow> c_state c = DHCP_STATE_INIT_REBOOT
     \<or> c_state c \<in> {DHCP_STATE_REQUESTING, DHCP_STATE_RENEWING, DHCP_STATE_REBINDING} \<and> c_lease c \<noteq> None \<and> 0 \<le> c_fd c"

lemma fits_ciaddr: "fits m off ts \<Longrightarrow> fits (m\<lparr>msg_ciaddr := a\<rparr>) off ts"
  by (auto simp: fits_def draft_fields)

lemma request_options_fits:
  assumes "fits m off ts" "requestable c" "off + length (encode_options (request_extra c)) < 308"
  obtains m' off' where "request_options c m 308 off = Inr (m', off')" "fits m' off' (ts @ request_extra c)"
proof (cases "c_state c = DHCP_STATE_INIT_REBOOT")
  case True
  let ?a = "unaligned_write_be32 (c_last_addr c)"
  have e: "request_extra c = [(50, ?a)]" using True by (simp add: request_extra_def address_option_def)
  obtain m' where "dhcp_option_append m 308 off 0 50 ?a = Inr (m', off + 6)" "fits m' (off + 6) (ts @ request_extra c)"
    by (rule append_fits [OF assms(1), of 50 ?a 308 "off + 6" "ts @ request_extra c"])
      (use assms(3) e in \<open>auto simp: encode_options_single length_encode_option\<close>)
  then show thesis using that True by (simp add: request_options_def)
next
  case False
  then obtain l where l: "c_lease c = Some l"
    "c_state c \<in> {DHCP_STATE_REQUESTING, DHCP_STATE_RENEWING, DHCP_STATE_REBINDING}"
    using assms(2) by (auto simp: requestable_def)
  show thesis
  proof (cases "c_state c = DHCP_STATE_REQUESTING")
    case True
    let ?s = "unaligned_write_be32 (le_server_address l)" and ?a = "unaligned_write_be32 (le_address l)"
    have e: "request_extra c = [(54, ?s), (50, ?a)]"
      using True l(1) by (simp add: request_extra_def address_option_def)
    have len: "length (encode_options (request_extra c)) = 12"
      by (simp add: e encode_options_def encode_option_def)
    obtain m1 where m1: "dhcp_option_append m 308 off 0 54 ?s = Inr (m1, off + 6)" "fits m1 (off + 6) (ts @ [(54, ?s)])"
      by (rule append_fits [OF assms(1), of 54 ?s 308 "off + 6" "ts @ [(54, ?s)]"]) (use assms(3) len in auto)
    obtain m2 where "dhcp_option_append m1 308 (off + 6) 0 50 ?a = Inr (m2, off + 12)" "fits m2 (off + 12) (ts @ request_extra c)"
      by (rule append_fits [OF m1(2), of 50 ?a 308 "off + 12" "ts @ request_extra c"]) (use assms(3) len e in auto)
    with m1(1) True l(1) that show thesis by (simp add: request_options_def)
  next
    case False
    then have "c_state c = DHCP_STATE_RENEWING \<or> c_state c = DHCP_STATE_REBINDING" using l(2) by auto
    then show thesis
      using that [of "m\<lparr>msg_ciaddr := le_address l\<rparr>" off] l(1) fits_ciaddr [OF assms(1)]
      by (auto simp: request_options_def request_extra_def)
  qed
qed

lemma client_send_request_total:
  assumes "can_send env c" "requestable c" "hostname_sendable (c_hostname c)"
    "length (encode_options (all_request_options c)) \<le> 307"
  obtains a where "client_send_request env c = Inr (c\<lparr>c_trace := c_trace c @ [a]\<rparr>, Inr ())"
proof -
  let ?host = "hostname_options (c_hostname c)"
  have sz: "length (encode_options (common_options 3 c)) + length (encode_options (request_extra c))
      + length (encode_options ?host) \<le> 307"
    using assms(4) by (simp add: all_request_options_def length_encode_append)
  obtain p off1 where p: "client_message_init env 3 c = Inr (c, Inr (p, 308, off1))"
    "fits (pkt_dhcp p) off1 (common_options 3 c)" "wf_packet p" "length (msg_options (pkt_dhcp p)) = 308"
    by (rule client_message_init_fits [OF assms(1), of 3]) (use sz in auto)
  obtain m2 off2 where m2: "request_options c (pkt_dhcp p) 308 off1 = Inr (m2, off2)"
    "fits m2 off2 (common_options 3 c @ request_extra c)"
    by (rule request_options_fits [OF p(2) assms(2)]) (use sz p(2) in \<open>auto simp: fits_def\<close>)
  have o2: "off2 = length (encode_options (common_options 3 c)) + length (encode_options (request_extra c))"
    using m2(2) by (simp add: fits_def length_encode_append)
  obtain m3 off3 where m3: "append_hostname (c_hostname c) m2 308 off2 = Inr (m3, off3)"
    "fits m3 off3 (all_request_options c)"
    by (rule append_hostname_fits [OF m2(2) assms(3), of "off2 + length (encode_options ?host)"])
      (use sz o2 in \<open>auto simp: all_request_options_def\<close>)
  have o3: "off3 \<le> 307" using m3(2) assms(4) by (simp add: fits_def)
  obtain m4 off4 where m4: "dhcp_option_append m3 308 off3 0 255 [] = Inr (m4, off4)" "off4 \<le> 308"
    by (rule append_end_fits [OF m3(2)]) (use o3 in auto)
  have d4: "length (msg_options m4) = 308" "wf_message m4"
    using append_end(4,5) [OF m4(1), of "all_request_options c"] m3(2) by (auto simp: fits_def)
  obtain q where q: "dhcp_client_send_raw env (p\<lparr>pkt_dhcp := m4\<rparr>) (268 + off4) c =
      Inr (c\<lparr>c_trace := c_trace c @ [SendRaw q (268 + off4)]\<rparr>, Inr ())"
    by (rule send_raw_total [of env "p\<lparr>pkt_dhcp := m4\<rparr>" off4 c])
      (use assms(1) p(3) d4 m4(2) in \<open>auto simp: can_send_def wf_packet_def\<close>)
  let ?udp = "c_state c = DHCP_STATE_RENEWING"
  obtain a where a: "(case (c_state c, c_lease c) of
       (DHCP_STATE_RENEWING, Some lease) \<Rightarrow>
         cthen (cassert (0 \<le> c_fd c))
         (cthen (cerrno (e_send_udp env)) (log_action (SendUdp (le_server_address lease) m4 (240 + off4))))
     | _ \<Rightarrow> dhcp_client_send_raw env (p\<lparr>pkt_dhcp := m4\<rparr>) (268 + off4)) c =
       Inr (c\<lparr>c_trace := c_trace c @ [a]\<rparr>, Inr ())"
  proof (cases ?udp)
    case True
    then obtain l where "c_lease c = Some l" "0 \<le> c_fd c" using assms(2) by (auto simp: requestable_def)
    then show thesis
      using True assms(1) that [of "SendUdp (le_server_address l) m4 (240 + off4)"]
      by (simp add: cm_ok log_action_def can_send_def grants_def)
  next
    case False
    then show thesis using q that [of "SendRaw q (268 + off4)"] by (cases "c_state c") simp_all
  qed
  show thesis
    by (rule that [of a]) (simp add: client_send_request_def cbind_def ctry_def cget_def clift_def
      p(1) m2(1) m3(1) m4(1) a [simplified])
qed

section \<open>Sending succeeds\<close>

text \<open>
  C25.  The client sends what it is asked to: when the outside grants everything, the configuration is
  complete and the options take at most 307 bytes, a DISCOVER goes out in INIT and SELECTING, and a
  REQUEST in INIT-REBOOT and, with a lease and a socket, in REQUESTING, RENEWING and REBINDING.  Nothing
  of the client changes but the log.
\<close>

theorem client_messages_sent:
  assumes "can_send env c" and "hostname_sendable (c_hostname c)"
    and "length (encode_options (discover_options c)) \<le> 307"
    and "length (encode_options (all_request_options c)) \<le> 307"
  shows "(c_state c = DHCP_STATE_INIT \<or> c_state c = DHCP_STATE_SELECTING \<longrightarrow>
      (\<exists>p len. client_send_discover env c = Inr (c\<lparr>c_trace := c_trace c @ [SendRaw p len]\<rparr>, Inr ())))
    \<and> (requestable c \<longrightarrow>
      (\<exists>a. client_send_request env c = Inr (c\<lparr>c_trace := c_trace c @ [a]\<rparr>, Inr ())))"
  using client_send_discover_total [OF assms(1) _ assms(2,3)] client_send_request_total [OF assms(1) _ assms(2,4)]
  by metis

text \<open>
  C26.  The option with the maximum message size is appended with the MTU as the size of the buffer,
  which has 308 bytes for options.  When the identifier and the parameter request list end in the last
  three bytes of the buffer, the client writes past its end.
\<close>

theorem client_message_overflow:
  assumes "can_send env c" and "type = DHCP_DISCOVER \<or> type = DHCP_REQUEST"
    and "298 \<le> length (client_id_bytes c) + length (c_req_opts c)"
    and "length (client_id_bytes c) + length (c_req_opts c) \<le> 300"
  shows "client_message_init env type c = Inl OutOfBounds"
proof -
  have off: "305 \<le> common_offset c" "common_offset c \<le> 307" using assms(3,4) by (simp_all add: common_offset_def)
  obtain now m0 m3 where m: "e_event_now env = Inr now" "c_start_time c \<le> now"
    "dhcp_message_init (blank_message 308) 1 (c_xid c) type (c_arp_type c) 308 = Inr (m0, 3)"
    "append_common c 576 (message_fields c now m0) 308 3 =
       dhcp_option_append m3 (unat (c_mtu c)) (common_offset c) 0 57 [2, 64]"
    "fits m3 (common_offset c) ([(53, [type])] @ [(61, client_id_bytes c)] @ [(55, c_req_opts c)])"
    by (rule common_options_fits [OF assms(1) off(2), of type]) auto
  have mtu: "576 \<le> unat (c_mtu c)" using assms(1) by (simp add: can_send_def word_le_nat_alt)
  have "length (msg_options m3) = 308" using m(5) by (simp add: fits_def draft_def)
  then have "dhcp_option_append m3 (unat (c_mtu c)) (common_offset c) 0 57 [2, 64] = Inl OutOfBounds"
    using off mtu by (simp add: dhcp_option_append_plain option_append_def buf_write_def)
  with client_message_init_eq [OF assms(1,2) m(1-3)] m(4) show ?thesis by (simp add: clift_def)
qed

section \<open>A client on an Ethernet link\<close>

definition granting_env :: "u64 \<Rightarrow> dhcp_env" where
  "granting_env now = \<lparr>e_alloc = (\<lambda>_. True), e_event_now = Inr now, e_clock = now, e_random = (\<lambda>_. 7),
     e_add_source = (\<lambda>_. None), e_set_priority = (\<lambda>_. None), e_set_description = (\<lambda>_. None),
     e_bind_raw = Inr 3, e_bind_udp = Inr 4, e_send_raw = None, e_send_udp = None, e_datagram_size = None,
     e_read = Inr [], e_checksum = True, e_machine_id = Inr (replicate 16 1), e_zoneinfo = (\<lambda>_. False),
     e_callback = (\<lambda>_ c. Inr c)\<rparr>"

definition ethernet_client :: "DHCPState \<Rightarrow> sd_dhcp_client" where
  "ethernet_client state = \<lparr>c_n_ref = 1, c_state = state, c_event = True, c_event_priority = 0,
     c_timeout_resend = None, c_index = 2, c_fd = 3, c_receive_message = Some Raw_handler,
     c_request_broadcast = False, c_req_opts = default_req_opts, c_req_opts_allocated = 0,
     c_last_addr = 0xC0A80064, c_mac_addr = [2, 0, 0, 0, 0, 1] @ replicate 14 0, c_mac_addr_len = 6,
     c_arp_type = 1, c_client_id_type = 1, c_client_id_data = [2, 0, 0, 0, 0, 1] @ replicate 128 0,
     c_client_id_len = 7, c_hostname = None, c_vendor_class_identifier = Some [120], c_mtu = 576,
     c_xid = 42, c_start_time = 1000000, c_attempt = 1, c_request_sent = 0, c_timeout_t1 = None,
     c_timeout_t2 = None, c_timeout_expire = None, c_cb = True, c_lease = None, c_start_delay = 0, c_trace = []\<rparr>"

lemma ethernet_client_id: "client_id_bytes (ethernet_client s) = [1, 2, 0, 0, 0, 0, 1]"
  by (simp add: client_id_bytes_def ethernet_client_def)

lemma ethernet_client_simps [simp]:
  "c_req_opts (ethernet_client s) = [1, 3, 12, 15, 6]" "c_last_addr (ethernet_client s) = 0xC0A80064"
  "c_vendor_class_identifier (ethernet_client s) = Some [120]"
  "c_state (ethernet_client s) = s" "c_lease (ethernet_client s) = None" "c_fd (ethernet_client s) = 3"
  "c_hostname (ethernet_client s) = None" "c_trace (ethernet_client s) = []" "length (c_mac_addr (ethernet_client s)) = 20"
  by (simp_all add: ethernet_client_def default_req_opts_def)

lemma ethernet_client_can_send: "can_send (granting_env 3000000) (ethernet_client s)"
  by (simp add: can_send_def grants_def granting_env_def ethernet_client_def)

lemma ethernet_client_options:
  "discover_options (ethernet_client s) =
     [(53, [1]), (61, [1, 2, 0, 0, 0, 0, 1]), (55, [1, 3, 12, 15, 6]), (57, [2, 64]), (50, [192, 168, 0, 100]), (60, [120])]"
  "common_options t (ethernet_client s) =
     [(53, [t]), (61, [1, 2, 0, 0, 0, 0, 1]), (55, [1, 3, 12, 15, 6]), (57, [2, 64])]"
  "request_extra (ethernet_client DHCP_STATE_INIT_REBOOT) = [(50, [192, 168, 0, 100])]"
  by (simp_all add: discover_options_def common_options_def ethernet_client_id hostname_options_def address_option_def
      request_extra_def unaligned_write_be32_def unaligned_write_be16_def)

lemma ethernet_request_options:
  "all_request_options (ethernet_client DHCP_STATE_INIT_REBOOT) =
     [(53, [3]), (61, [1, 2, 0, 0, 0, 0, 1]), (55, [1, 3, 12, 15, 6]), (57, [2, 64]), (50, [192, 168, 0, 100])]"
  by (simp add: all_request_options_def ethernet_client_options hostname_options_def)

lemma options_of_log [simp]:
  "discover_options (c\<lparr>c_trace := t\<rparr>) = discover_options c" "all_request_options (c\<lparr>c_trace := t\<rparr>) = all_request_options c"
  by (simp_all add: discover_options_def all_request_options_def common_options_def client_id_bytes_def request_extra_def
      split: DHCPState.split)

theorem client_messages_sent_witness:
  "(\<exists>p len. client_send_discover (granting_env 3000000) (ethernet_client DHCP_STATE_INIT) =
      Inr ((ethernet_client DHCP_STATE_INIT)\<lparr>c_trace := [SendRaw p len]\<rparr>, Inr ()))
   \<and> (\<exists>a. client_send_request (granting_env 3000000) (ethernet_client DHCP_STATE_INIT_REBOOT) =
      Inr ((ethernet_client DHCP_STATE_INIT_REBOOT)\<lparr>c_trace := [a]\<rparr>, Inr ()))"
proof -
  have d: "length (encode_options (discover_options (ethernet_client s))) \<le> 307" for s
    by (simp add: ethernet_client_options encode_options_def encode_option_def)
  have r: "length (encode_options (all_request_options (ethernet_client s))) \<le> 307"
    if "s = DHCP_STATE_INIT \<or> s = DHCP_STATE_INIT_REBOOT" for s
    using that by (auto simp: all_request_options_def ethernet_client_options hostname_options_def encode_options_def
        encode_option_def request_extra_def address_option_def)
  have h: "hostname_sendable (c_hostname (ethernet_client s))" for s by (simp add: hostname_sendable_def)
  show ?thesis
    using client_messages_sent [OF ethernet_client_can_send h d r, of DHCP_STATE_INIT]
      client_messages_sent [OF ethernet_client_can_send h d r, of DHCP_STATE_INIT_REBOOT]
    by (simp add: requestable_def)
qed

theorem client_message_overflow_witness:
  "client_message_init (granting_env 3000000)  DHCP_DISCOVER
     ((ethernet_client DHCP_STATE_INIT)\<lparr>c_client_id_len := 133, c_req_opts := replicate 165 1\<rparr>) = Inl OutOfBounds"
proof -
  let ?c = "(ethernet_client DHCP_STATE_INIT)\<lparr>c_client_id_len := 133, c_req_opts := replicate 165 1\<rparr>"
  have "can_send (granting_env 3000000) ?c"
    by (simp add: can_send_def grants_def granting_env_def ethernet_client_def)
  moreover have "length (client_id_bytes ?c) = 133" "length (c_req_opts ?c) = 165"
    by (simp_all add: client_id_bytes_def ethernet_client_def)
  ultimately show ?thesis using client_message_overflow [of "granting_env 3000000" ?c 1] by simp
qed



end
