(* ===== verification/Dhcp_Client_Wp.thy ===== *)
theory Dhcp_Client_Wp
  imports Dhcp_Client_Messages Dhcp_Client_Timers Dhcp_Lease_Facts
begin

text \<open>
  Weakest preconditions for the operations of the client: what an operation leaves for its caller, for
  every errno it may return, and the faults it may end in.  The rules are simplification rules that
  follow the monad.  The second half applies them to building and sending a message: whatever the
  configuration, appending options stays within the packet or ends in an errno.
\<close>

section \<open>Weakest preconditions\<close>

text \<open>
  \<open>wp F m Q c\<close>: running \<open>m\<close> on \<open>c\<close> ends in a fault that \<open>F\<close> allows or in a result and a client with
  \<open>Q\<close>.  \<open>wpd\<close> is the same for the functions that may free the client.
\<close>

definition wp :: "(fault \<Rightarrow> bool) \<Rightarrow> 'a cm \<Rightarrow> (errno + 'a \<Rightarrow> sd_dhcp_client \<Rightarrow> bool) \<Rightarrow> sd_dhcp_client \<Rightarrow> bool" where
  "wp F m Q c \<longleftrightarrow> (case m c of Inl f \<Rightarrow> F f | Inr (c', r) \<Rightarrow> Q r c')"

definition wpd :: "(fault \<Rightarrow> bool) \<Rightarrow> (sd_dhcp_client \<Rightarrow> (sd_dhcp_client option \<times> (errno + 'a)) res) \<Rightarrow>
    (errno + 'a \<Rightarrow> sd_dhcp_client option \<Rightarrow> bool) \<Rightarrow> sd_dhcp_client \<Rightarrow> bool" where
  "wpd F m Q c \<longleftrightarrow> (case m c of Inl f \<Rightarrow> F f | Inr (c', r) \<Rightarrow> Q r c')"

lemma wp_mono: "wp F m Q c \<Longrightarrow> (\<And>r c'. Q r c' \<Longrightarrow> Q' r c') \<Longrightarrow> wp F m Q' c"
  by (auto simp: wp_def split: sum.splits)

lemma wpd_mono: "wpd F m Q c \<Longrightarrow> (\<And>r c'. Q r c' \<Longrightarrow> Q' r c') \<Longrightarrow> wpd F m Q' c"
  by (auto simp: wpd_def split: sum.splits)

text \<open>Simplification follows the computation: what comes after it waits until it has been run.\<close>

lemma wp_cong [cong]: "m = m' \<Longrightarrow> c = c' \<Longrightarrow> wp F m Q c = wp F m' Q c'"
  by simp

lemma wpd_cong [cong]: "m = m' \<Longrightarrow> c = c' \<Longrightarrow> wpd F m Q c = wpd F m' Q c'"
  by simp

lemma wp_cret [simp]: "wp F (cret x) Q c = Q (Inr x) c"
  by (simp add: wp_def cret_def)

lemma wp_cfail [simp]: "wp F (cfail e) Q c = Q (Inl e) c"
  by (simp add: wp_def cfail_def)

lemma wp_ctry [simp]: "wp F (ctry m f) Q c = wp F m (\<lambda>r. wp F (f r) Q) c"
  by (cases "m c") (auto simp: wp_def ctry_def split: prod.splits)

lemma wp_cbind [simp]: "wp F (cbind m f) Q c = wp F m (\<lambda>r. case r of Inl e \<Rightarrow> Q (Inl e) | Inr x \<Rightarrow> wp F (f x) Q) c"
proof -
  have "(\<lambda>r. wp F (case_sum cfail f r) Q) = (\<lambda>r. case r of Inl e \<Rightarrow> Q (Inl e) | Inr x \<Rightarrow> wp F (f x) Q)"
    by (rule ext) (simp add: fun_eq_iff split: sum.split)
  then show ?thesis by (simp only: cbind_def wp_ctry)
qed

lemma wp_cthen [simp]: "wp F (cthen m n) Q c = wp F m (\<lambda>r. case r of Inl e \<Rightarrow> Q (Inl e) | Inr _ \<Rightarrow> wp F n Q) c"
  by (simp add: cthen_def)

lemma wp_cget [simp]: "wp F (cget f) Q c = wp F (f c) Q c"
  by (simp add: wp_def cget_def)

lemma wp_cmodify [simp]: "wp F (cmodify f) Q c = Q (Inr ()) (f c)"
  by (simp add: wp_def cmodify_def)

lemma wp_cassert [simp]: "wp F (cassert b) Q c = (if b then Q (Inr ()) c else F Abort)"
  by (simp add: wp_def cassert_def)

lemma wp_assert_return [simp]: "wp F (assert_return b e) Q c = (if b then Q (Inr ()) c else Q (Inl e) c)"
  by (simp add: wp_def assert_return_def cret_def cfail_def)

lemma wp_clift [simp]:
  "wp F (clift r) Q c = (case r of Inl (Errno e) \<Rightarrow> Q (Inl e) c | Inl f \<Rightarrow> F f | Inr x \<Rightarrow> Q (Inr x) c)"
  by (simp add: wp_def clift_def split: sum.split fault.split)

lemma wp_cerrno [simp]: "wp F (cerrno e) Q c = (case e of None \<Rightarrow> Q (Inr ()) c | Some e \<Rightarrow> Q (Inl e) c)"
  by (simp add: cerrno_def split: option.split)

lemma wp_cupdate [simp]: "wp F (cupdate f) Q c = (case f c of Inl x \<Rightarrow> F x | Inr c' \<Rightarrow> Q (Inr ()) c')"
  by (simp add: wp_def cupdate_def split: sum.split)

lemma wp_if [simp]: "wp F (if b then m else n) Q c = (if b then wp F m Q c else wp F n Q c)"
  by simp

lemma wp_log_action [simp]: "wp F (log_action a) Q c = Q (Inr ()) (c\<lparr>c_trace := c_trace c @ [a]\<rparr>)"
  by (simp add: log_action_def)

lemma wp_nested [simp]: "wp F (nested m) Q c = wpd F m (\<lambda>r c'. case c' of None \<Rightarrow> F UseAfterFree | Some c' \<Rightarrow> Q r c') c"
  by (simp add: wp_def wpd_def nested_def split: sum.split option.split prod.split)

lemma wp_conj: "wp F m Q c \<Longrightarrow> wp F m Q' c \<Longrightarrow> wp F m (\<lambda>r c'. Q r c' \<and> Q' r c') c"
  by (auto simp: wp_def split: sum.splits)

section \<open>Releasing a lease\<close>

text \<open>
  A lease whose list of private options is a proper list is released; when the list has lost its first
  nodes, the freed head is used again.
\<close>

lemma free_private_chain:
  assumes "chain h None head as" shows "\<exists>h'. free_private h head = Some (Inr h')"
  using assms
proof (induction as arbitrary: h head)
  case Nil
  then have "head = None" by (simp add: chain_def)
  then show ?case by (simp add: free_private.simps)
next
  case (Cons a as)
  then obtain n where n: "head = Some a" "h a = Some n" "l_prev n = None" "lseg h (Some a) (l_next n) as None"
      "distinct as" "a \<notin> set as"
    by (auto simp: chain_def split: option.splits)
  show ?case
  proof (cases as)
    case Nil
    with n have e: "l_next n = None" by simp
    have "LIST_REMOVE h head a = Inr (h(a \<mapsto> n\<lparr>l_next := None, l_prev := None\<rparr>), None)"
      using n e by (simp add: LIST_REMOVE_def link_defs)
    then show ?thesis using n(1) by (simp add: free_private.simps)
  next
    case (Cons b bs)
    with n obtain m where m: "l_next n = Some b" "h b = Some m" "l_prev m = Some a" "lseg h (Some b) (l_next m) bs None"
      by (auto split: option.splits)
    have ab: "a \<noteq> b" using n(6) Cons by auto
    let ?h = "h(b \<mapsto> m\<lparr>l_prev := None\<rparr>, a \<mapsto> n\<lparr>l_next := None, l_prev := None\<rparr>)"
    have r: "LIST_REMOVE h head a = Inr (?h, Some b)"
      using n m ab by (simp add: LIST_REMOVE_def link_defs)
    have "chain (?h(a := None)) None (Some b) as"
      using n m ab Cons by (auto simp: chain_def lseg_frame)
    moreover have "free_private h head = free_private (?h(a := None)) (Some b)"
      using n(1) r by (subst free_private.simps) simp
    ultimately show ?thesis using Cons.IH by metis
  qed
qed

lemma free_private_detached:
  assumes "chain h (Some q) head as" "as \<noteq> []" shows "free_private h head = Some (Inl UseAfterFree)"
proof -
  obtain a bs n nq where n: "as = a # bs" "head = Some a" "h a = Some n" "l_prev n = Some q" "h q = Some nq" "q \<noteq> a"
      "q \<notin> set bs" "lseg h (Some a) (l_next n) bs None"
    using assms by (cases as) (auto simp: chain_def split: option.splits)
  obtain h' where r: "LIST_REMOVE h head a = Inr (h', head)" "a \<in> dom h'"
  proof (cases bs)
    case Nil
    then show thesis using n that by (auto simp: LIST_REMOVE_def link_defs)
  next
    case (Cons b cs)
    then obtain m where "l_next n = Some b" "h b = Some m" "b \<noteq> a"
      using n(8) assms(1) n(1) by (auto simp: chain_def split: option.splits)
    with n Cons that show thesis by (auto simp: LIST_REMOVE_def link_defs)
  qed
  have "free_private h head = free_private (h'(a := None)) (Some a)"
    using r n(2) by (subst free_private.simps) auto
  then show ?thesis by (simp add: free_private.simps [of "h'(a := None)"] LIST_REMOVE_def link_defs)
qed

lemma unref_wf:
  assumes "wf_lease l" "sd_dhcp_lease_unref l = Inl f" shows "f = UseAfterFree"
proof -
  obtain p as where c: "chain (le_heap l) p (le_private_options l) as"
    using assms(1) by (auto simp: wf_lease_def private_view_def)
  have ref: "\<not> le_n_ref l < 1" using assms(1) by (simp add: wf_lease_def word_le_nat_alt word_less_nat_alt)
  have "free_private (le_heap l) (le_private_options l) = Some (Inl UseAfterFree)
    \<or> (\<exists>h. free_private (le_heap l) (le_private_options l) = Some (Inr h))"
  proof (cases "p = None \<or> as = []")
    case True
    then show ?thesis
    proof
      assume "as = []"
      then have "le_private_options l = None" using c by (simp add: chain_def)
      then show ?thesis by (simp add: free_private.simps)
    qed (use c free_private_chain in blast)
  next
    case False
    then show ?thesis using c by (cases p) (auto dest: free_private_detached)
  qed
  then show ?thesis using assms(2) ref by (auto simp: sd_dhcp_lease_unref_def split: if_splits)
qed

section \<open>Building messages does not fault\<close>

text \<open>
  What the setters keep of the configuration.  160 requested options leave room for the longest
  identifier, so that the options before the maximum message size end before the last bytes.
\<close>

definition config :: "sd_dhcp_client \<Rightarrow> bool" where
  "config c \<longleftrightarrow> length (c_mac_addr c) = MAX_MAC_ADDR_LEN \<and> length (c_client_id_data c) = sizeof_client_id_data
     \<and> c_client_id_len c \<le> sizeof_client_id_data \<and> length (c_req_opts c) \<le> 160 \<and> 576 \<le> c_mtu c"

text \<open>What a running client has: an event loop, a start time and a supported link.\<close>

definition ready :: "sd_dhcp_client \<Rightarrow> bool" where
  "ready c \<longleftrightarrow> c_event c \<and> c_start_time c \<noteq> 0 \<and> (c_arp_type c = ARPHRD_ETHER \<or> c_arp_type c = ARPHRD_INFINIBAND)"

text \<open>Sending changes the identifier, when there was none, and the log.\<close>

definition send_frame :: "sd_dhcp_client \<Rightarrow> sd_dhcp_client \<Rightarrow> bool" where
  "send_frame c c' \<longleftrightarrow> (\<exists>type data len tr. c' = c\<lparr>c_client_id_type := type, c_client_id_data := data,
     c_client_id_len := len, c_trace := tr\<rparr> \<and> length data = sizeof_client_id_data \<and> len \<le> sizeof_client_id_data)"

lemma send_frame_refl: "config c \<Longrightarrow> send_frame c c"
  unfolding send_frame_def config_def
  by (rule exI [of _ "c_client_id_type c"], rule exI [of _ "c_client_id_data c"], rule exI [of _ "c_client_id_len c"],
      rule exI [of _ "c_trace c"]) simp

lemma send_frame_trace: "send_frame c c' \<Longrightarrow> send_frame c (c'\<lparr>c_trace := tr\<rparr>)"
  unfolding send_frame_def by (elim exE conjE) (simp, blast)

lemma send_frame_fields:
  assumes "send_frame c c'"
  shows "c_mac_addr c' = c_mac_addr c" "c_arp_type c' = c_arp_type c" "c_req_opts c' = c_req_opts c" "c_mtu c' = c_mtu c"
    "c_state c' = c_state c" "c_lease c' = c_lease c" "c_fd c' = c_fd c" "c_start_time c' = c_start_time c"
    "c_event c' = c_event c" "c_hostname c' = c_hostname c" "c_last_addr c' = c_last_addr c"
    "c_attempt c' = c_attempt c" "c_request_sent c' = c_request_sent c"
    "c_timeout_resend c' = c_timeout_resend c" "c_timeout_t1 c' = c_timeout_t1 c"
  using assms by (auto simp: send_frame_def)

lemma send_frame_config: "send_frame c c' \<Longrightarrow> config c \<Longrightarrow> config c'"
  by (auto simp: send_frame_def config_def)

definition sized :: "DHCPMessage \<Rightarrow> bool" where
  "sized m \<longleftrightarrow> wf_message m \<and> length (msg_options m) = DHCP_MIN_OPTIONS_SIZE"

lemma append_sized:
  assumes "sized m"
  shows "errno_only (dhcp_option_append m 308 off 0 code val)"
    and "dhcp_option_append m 308 off 0 code val = Inr (m', off') \<Longrightarrow> sized m' \<and> off' \<le> 308"
proof -
  have s: "faults_in (\<lambda>f. f = Errno ENOBUFS) (option_append (msg_options m) 308 off code val)"
    using option_append_safe [of 308 "msg_options m" off code val] assms by (auto simp: faults_in_def sized_def)
  show "errno_only (dhcp_option_append m 308 off 0 code val)"
    using s by (auto simp: dhcp_option_append_plain faults_in_def rbind_Inl_iff)
  assume a: "dhcp_option_append m 308 off 0 code val = Inr (m', off')"
  then obtain options where o: "option_append (msg_options m) 308 off code val = Inr (options, off')"
    "m' = m\<lparr>msg_options := options\<rparr>"
    by (auto simp: dhcp_option_append_plain rbind_Inr_iff split: if_splits)
  show "sized m' \<and> off' \<le> 308"
    using option_append_length [OF o(1)] option_append_offset [OF _ o(1)] o(2) assms
    by (auto simp: sized_def wf_message_def)
qed

lemma append_mtu_sized:
  assumes "sized m" "off \<le> 304"
  shows "errno_only (dhcp_option_append m sz off 0 57 [a, b])"
    and "dhcp_option_append m sz off 0 57 [a, b] = Inr (m', off') \<Longrightarrow> sized m' \<and> off' \<le> 308"
proof -
  have l: "length (msg_options m) = 308" using assms(1) by (simp add: sized_def)
  show "errno_only (dhcp_option_append m sz off 0 57 [a, b])"
    using assms(2) l
    by (auto simp: dhcp_option_append_plain faults_in_def rbind_Inl_iff option_append_def buf_write_def split: if_splits)
  assume "dhcp_option_append m sz off 0 57 [a, b] = Inr (m', off')"
  then obtain options where o: "option_append (msg_options m) sz off 57 [a, b] = Inr (options, off')"
    "m' = m\<lparr>msg_options := options\<rparr>"
    by (auto simp: dhcp_option_append_plain rbind_Inr_iff split: if_splits)
  have "off' = off + 4" using o(1) by (auto simp: option_append_def rbind_Inr_iff split: if_splits)
  then show "sized m' \<and> off' \<le> 308"
    using assms option_append_length [OF o(1)] o(2) by (simp add: sized_def wf_message_def)
qed

lemma append_offset:
  assumes "dhcp_option_append m 308 off 0 code val = Inr (m', off')" "code \<noteq> 0" "code \<noteq> 255"
  shows "off' = off + length val + 2"
  using assms by (auto simp: dhcp_option_append_plain rbind_Inr_iff option_append_def split: if_splits)

lemma errno_only_wire: "errno_only (dns_name_to_wire_format s n canonical)"
proof -
  have "errno_only (wire_loop s n canonical)"
  proof (induction s n canonical rule: wire_loop.induct)
    case (1 s n canonical)
    show ?case
      by (subst wire_loop.simps)
        (use "1.IH" in \<open>auto intro!: faults_in_rbind errno_only_unescape simp: Let_def\<close>)
  qed
  then show ?thesis unfolding dns_name_to_wire_format_def by (rule faults_in_rbind) simp
qed

lemma append_hostname_sized:
  assumes "sized m"
  shows "errno_only (append_hostname h m 308 off)"
    and "append_hostname h m 308 off = Inr (m', off') \<Longrightarrow> off \<le> 308 \<Longrightarrow> sized m' \<and> off' \<le> 308"
  using append_sized [OF assms] assms
  by (auto simp: append_hostname_def client_append_fqdn_option_def rbind_Inr_iff
      intro!: faults_in_rbind errno_only_wire split: option.splits if_splits)

lemma append_common_sized:
  assumes "sized m" "config c" "off \<le> 3" "c_client_id_len c \<noteq> 0"
  shows "errno_only (append_common c sz m 308 off)"
    and "append_common c sz m 308 off = Inr (m', off') \<Longrightarrow> sized m' \<and> off' \<le> 308"
proof -
  obtain a b where w: "unaligned_write_be16 (of_nat sz) = [a, b]" by (simp add: unaligned_write_be16_def)
  have lid: "length (client_id_bytes c) \<le> 134" and lreq: "length (c_req_opts c) \<le> 160"
    using assms(2) by (auto simp: config_def client_id_bytes_def)
  have m: "errno_only (dhcp_option_append m2 (unat (c_mtu c)) off2 0 57 [a, b]) \<and>
      (dhcp_option_append m2 (unat (c_mtu c)) off2 0 57 [a, b] = Inr (m3, off3) \<longrightarrow> sized m3 \<and> off3 \<le> 308)"
    if "dhcp_option_append m 308 off 0 61 (client_id_bytes c) = Inr (m1, off1)"
      "dhcp_option_append m1 308 off1 0 55 (c_req_opts c) = Inr (m2, off2)" for m1 off1 m2 off2 m3 off3
  proof -
    have "off2 \<le> 304" using append_offset [OF that(1)] append_offset [OF that(2)] lid lreq assms(3) by simp
    moreover have "sized m2" using append_sized(2) [OF _ that(2)] append_sized(2) [OF assms(1) that(1)] by simp
    ultimately show ?thesis using append_mtu_sized by blast
  qed
  show "errno_only (append_common c sz m 308 off)"
    unfolding append_common_def w using assms(4) m append_sized assms(1)
    by (auto intro!: faults_in_rbind split: prod.splits) 
  show "append_common c sz m 308 off = Inr (m', off') \<Longrightarrow> sized m' \<and> off' \<le> 308"
    unfolding append_common_def w using assms(4) m
    by (auto simp: rbind_Inr_iff split: prod.splits if_splits)
qed

lemma ensure_client_id_wp:
  assumes "config c" "errno_only (e_machine_id env)"
  shows "wp (\<lambda>_. False) (ensure_client_id env) (\<lambda>r c'. send_frame c c' \<and> (r = Inr () \<longrightarrow> c_client_id_len c' \<noteq> 0)) c"
proof (cases "c_client_id_len c = 0")
  case True
  obtain iaid where i: "dhcp_identifier_set_iaid (take (c_mac_addr_len c) (c_mac_addr c)) = Inr iaid"
    using set_iaid_ok by blast
  have l: "length (unaligned_write_be32 iaid) = 4" by simp
  have fr: "send_frame c (c\<lparr>c_client_id_type := 255, c_client_id_data := overwrite (unaligned_write_be32 iaid) (c_client_id_data c)\<rparr>)"
    using assms(1) True unfolding send_frame_def config_def
    by (intro exI [of _ 255] exI [of _ "overwrite (unaligned_write_be32 iaid) (c_client_id_data c)"] exI [of _ 0]
        exI [of _ "c_trace c"]) (simp add: overwrite_def)
  show ?thesis
  proof (cases "e_machine_id env")
    case (Inl f)
    then show ?thesis
      using assms(2) True i fr
      by (auto simp: ensure_client_id_def is_errno_def dhcp_identifier_set_duid_en_def)
  next
    case (Inr mid)
    obtain duid where d: "dhcp_identifier_set_duid_en (Inr mid) = Inr duid" "length duid = 14" using set_duid_en_ok by blast
    let ?data = "overwrite (unaligned_write_be32 iaid @ duid) (overwrite (unaligned_write_be32 iaid) (c_client_id_data c))"
    have "send_frame c (c\<lparr>c_client_id_type := 255, c_client_id_data := ?data, c_client_id_len := 19\<rparr>)"
      using assms(1) d unfolding send_frame_def config_def
      by (intro exI [of _ 255] exI [of _ ?data] exI [of _ 19] exI [of _ "c_trace c"]) (simp add: overwrite_def)
    then show ?thesis using True i d Inr by (simp add: ensure_client_id_def set_identity_def)
  qed
qed (use send_frame_refl [OF assms(1)] in \<open>simp add: ensure_client_id_def\<close>)

lemma client_message_init_wp:
  assumes "config c" "ready c" "errno_only (e_machine_id env)" "e_event_now env = Inr now" "c_start_time c \<le> now"
    "type = 1 \<or> type = 3"
  shows "wp (\<lambda>_. False) (client_message_init env type) (\<lambda>r c'. send_frame c c'
      \<and> (case r of Inl _ \<Rightarrow> True | Inr (p, optlen, off) \<Rightarrow> optlen = (308 :: nat) \<and> off \<le> 308 \<and> wf_packet p \<and> sized (pkt_dhcp p))) c"
proof -
  have b: "pkt_dhcp (blank_packet 308) = blank_message 308" by (simp add: blank_packet_def)
  let ?m = "(blank_message 308)\<lparr>msg_op := 1, msg_htype := ucast (c_arp_type c),
               msg_hlen := (if c_arp_type c = 1 then 6 else 0), msg_xid := c_xid c, msg_magic := DHCP_MAGIC_COOKIE\<rparr>"
  have f0: "fits ?m 0 []" by (simp add: fits_def draft_def wf_message_def blank_message_def encode_options_def)
  obtain m0 where m0: "dhcp_option_append ?m 308 0 0 53 [type] = Inr (m0, 3)" "fits m0 3 [(53, [type])]"
    by (rule append_fits [OF f0, of 53 "[type]" 308 3 "[(53, [type])]"]) simp_all
  have init: "dhcp_message_init (blank_message 308) 1 (c_xid c) type (c_arp_type c) 308 = Inr (m0, 3)"
    using assms(2) m0(1) by (auto simp: dhcp_message_init_def ready_def)
  note i = dhcp_message_init_ok [OF init]
  have s: "sized (message_fields c' now m0)" if "send_frame c c'" for c'
    using i(1,10) assms(1) send_frame_fields(1) [OF that]
    by (auto simp: sized_def draft_def wf_message_def message_fields_def Let_def config_def overwrite_def)
  have common: "errno_only (append_common c' 576 (message_fields c' now m0) 308 3)
      \<and> (\<forall>m off. append_common c' 576 (message_fields c' now m0) 308 3 = Inr (m, off) \<longrightarrow> sized m \<and> off \<le> 308)"
    if "send_frame c c'" "c_client_id_len c' \<noteq> 0" for c'
    using append_common_sized [OF s [OF that(1)] send_frame_config [OF that(1) assms(1)], of 3 576] that(2) by auto
  have packet: "wf_packet ((blank_packet 308)\<lparr>pkt_dhcp := m\<rparr>)" if "sized m" for m
    using that by (simp add: wf_packet_def blank_packet_def sized_def)
  let ?Q = "\<lambda>r c'. send_frame c c'
      \<and> (case r of Inl _ \<Rightarrow> True | Inr (p, optlen, off) \<Rightarrow> optlen = (308 :: nat) \<and> off \<le> 308 \<and> wf_packet p \<and> sized (pkt_dhcp p))"
  have rest: "wp (\<lambda>_. False) (cbind (clift (append_common c' 576 (message_fields c' now m0) 308 3)) (\<lambda>(dhcp, optoffset).
      cret ((blank_packet 308)\<lparr>pkt_dhcp := dhcp\<rparr>, 308, optoffset))) ?Q c'"
    if "send_frame c c'" "c_client_id_len c' \<noteq> 0" for c'
    using common [OF that] that(1) packet
    by (cases "append_common c' 576 (message_fields c' now m0) 308 3") (auto simp: is_errno_def)
  show ?thesis
    unfolding client_message_init_def
    using assms(2,4-6) init send_frame_refl [OF assms(1)]
    by (simp add: Let_def b ready_def)
      (intro impI wp_mono [OF ensure_client_id_wp [OF assms(1,3)]], use rest in \<open>simp split: sum.split\<close>)
qed

lemma wp_post: "wp F m Q c \<Longrightarrow> (\<And>r c'. Q r c' \<Longrightarrow> Q' r c') \<Longrightarrow> (\<And>f. F f \<Longrightarrow> F' f) \<Longrightarrow> wp F' m Q' c"
  by (auto simp: wp_def split: sum.splits)

text \<open>A call in the middle of a function: its postcondition, then the rest.\<close>

lemma wp_cbindI:
  assumes "wp F m R c" "\<And>x c'. R (Inr x) c' \<Longrightarrow> wp F (f x) Q c'" "\<And>e c'. R (Inl e) c' \<Longrightarrow> Q (Inl e) c'"
  shows "wp F (cbind m f) Q c"
  unfolding wp_cbind by (rule wp_mono [OF assms(1)]) (use assms(2,3) in \<open>auto split: sum.split\<close>)

lemma wp_clift_errno:
  assumes "errno_only r" "\<And>e. Q (Inl e) c" "\<And>x. r = Inr x \<Longrightarrow> Q (Inr x) c"
  shows "wp F (clift r) Q c"
  using assms by (cases r) (auto simp: is_errno_def)

lemma send_raw_wp:
  assumes "wf_packet p" "sized (pkt_dhcp p)" "off \<le> 308" "config c" "send_frame c0 c"
  shows "wp (\<lambda>_. False) (dhcp_client_send_raw env p (268 + off)) (\<lambda>r c'. send_frame c0 c') c"
proof -
  have u: "unat (of_nat (268 + off) :: u16) = 268 + off" by (simp only: unat_of_nat) (use assms(3) in simp)
  obtain q where "dhcp_packet_append_ip_headers p 0 68 0xffffffff 67 (of_nat (268 + off)) = Inr q"
    using append_ip_headers_total [OF assms(1), where len = "of_nat (268 + off)" and saddr = 0
        and sport = 68 and daddr = "0xffffffff" and dport = 67] u assms(2,3) by (auto simp: sized_def)
  then show ?thesis
    using assms(5) by (simp add: dhcp_client_send_raw_def send_frame_trace split: option.split)
qed

lemma packet_with: "wf_packet p \<Longrightarrow> sized m \<Longrightarrow> wf_packet (p\<lparr>pkt_dhcp := m\<rparr>)"
  by (simp add: wf_packet_def sized_def)

text \<open>A step in the construction of a message: it fails with an errno or leaves a message of full size.\<close>

definition builds :: "(DHCPMessage \<times> nat) res \<Rightarrow> bool" where
  "builds r \<longleftrightarrow> errno_only r \<and> (\<forall>m off. r = Inr (m, off) \<longrightarrow> sized m \<and> off \<le> 308)"

lemma builds_intros:
  "sized m \<Longrightarrow> off \<le> 308 \<Longrightarrow> builds (Inr (m, off))" "builds (Inl (Errno e))"
  "sized m \<Longrightarrow> builds (dhcp_option_append m 308 off 0 code val)"
  "sized m \<Longrightarrow> off \<le> 308 \<Longrightarrow> builds (append_hostname h m 308 off)"
  "builds a \<Longrightarrow> builds b \<Longrightarrow> builds (if p then a else b)"
  "builds a \<Longrightarrow> (\<And>v. builds (f v)) \<Longrightarrow> builds (case x of None \<Rightarrow> a | Some v \<Rightarrow> f v)"
  using append_sized [of m] append_hostname_sized(1) [of m h off]
  by (auto simp: builds_def append_hostname_def client_append_fqdn_option_def rbind_Inr_iff split: option.splits if_splits)

lemma builds_rbind:
  assumes "builds r" "\<And>m off. sized m \<Longrightarrow> off \<le> 308 \<Longrightarrow> builds (f m off)"
  shows "builds (rbind r (\<lambda>(m, off). f m off))"
proof (cases r)
  case (Inr p)
  obtain m off where "p = (m, off)" by (cases p)
  moreover have "builds (f m off)" by (rule assms(2)) (use assms(1) Inr calculation in \<open>auto simp: builds_def\<close>)
  ultimately show ?thesis using Inr by simp
qed (use assms(1) in \<open>simp add: builds_def\<close>)

lemma wp_build:
  assumes "builds r" "\<And>e. Q (Inl e) c" "\<And>m off. sized m \<Longrightarrow> off \<le> 308 \<Longrightarrow> wp F (f m off) Q c"
  shows "wp F (cbind (clift r) (\<lambda>(m, off). f m off)) Q c"
  using assms by (cases r) (auto simp: builds_def is_errno_def)

lemma wp_message_init:
  assumes "config c" "ready c" "errno_only (e_machine_id env)" "e_event_now env = Inr now" "c_start_time c \<le> now"
    "type = 1 \<or> type = 3"
    and "\<And>p off c'. send_frame c c' \<Longrightarrow> wf_packet p \<Longrightarrow> sized (pkt_dhcp p) \<Longrightarrow>
      off \<le> 308 \<Longrightarrow> wp (\<lambda>_. False) (f (p, 308, off)) Q c'"
    and "\<And>e c'. send_frame c c' \<Longrightarrow> Q (Inl e) c'"
  shows "wp (\<lambda>_. False) (cbind (client_message_init env type) f) Q c"
  by (rule wp_cbindI [OF client_message_init_wp [OF assms(1-6)]]) (use assms(7,8) in auto)

lemma client_send_discover_wp:
  assumes "config c" "ready c" "errno_only (e_machine_id env)" "e_event_now env = Inr now" "c_start_time c \<le> now"
    "c_state c = DHCP_STATE_INIT \<or> c_state c = DHCP_STATE_SELECTING"
  shows "wp (\<lambda>_. False) (client_send_discover env) (\<lambda>r c'. send_frame c c') c"
proof -
  have "wp (\<lambda>_. False) (cbind (client_message_init env 1) (\<lambda>(p, optlen, off).
     cbind (clift (if c_last_addr c = 0 then Inr (pkt_dhcp p, off)
         else dhcp_option_append (pkt_dhcp p) optlen off 0 50 (unaligned_write_be32 (c_last_addr c)))) (\<lambda>(dhcp, off).
     cbind (clift (append_hostname (c_hostname c) dhcp optlen off)) (\<lambda>(dhcp, off).
     cbind (clift (case c_vendor_class_identifier c of None \<Rightarrow> Inr (dhcp, off)
         | Some vci \<Rightarrow> dhcp_option_append dhcp optlen off 0 60 vci)) (\<lambda>(dhcp, off).
     cbind (clift (dhcp_option_append dhcp optlen off 0 255 [])) (\<lambda>(dhcp, off).
     dhcp_client_send_raw env (p\<lparr>pkt_dhcp := dhcp\<rparr>) (268 + off))))))) (\<lambda>r c'. send_frame c c') c"
    apply (rule wp_message_init [OF assms(1-5)])
      apply simp
     apply (simp only: prod.case)
     apply (intro wp_build builds_intros send_raw_wp packet_with)
                    apply (simp_all add: send_frame_config [OF _ assms(1)])
    done
  then show ?thesis
    using assms(6) by (auto simp: client_send_discover_def simp del: wp_cbind)
qed

text \<open>When a REQUEST can be built: there is an address to ask for and, for a unicast, a socket.\<close>

definition may_request :: "sd_dhcp_client \<Rightarrow> bool" where
  "may_request c \<longleftrightarrow> c_state c = DHCP_STATE_INIT_REBOOT
     \<or> c_state c \<in> {DHCP_STATE_REQUESTING, DHCP_STATE_RENEWING, DHCP_STATE_REBINDING} \<and> c_lease c \<noteq> None
       \<and> (c_state c = DHCP_STATE_RENEWING \<longrightarrow> 0 \<le> c_fd c)"

lemma client_send_request_wp:
  assumes "config c" "ready c" "errno_only (e_machine_id env)" "e_event_now env = Inr now" "c_start_time c \<le> now"
    "may_request c"
  shows "wp (\<lambda>_. False) (client_send_request env) (\<lambda>r c'. send_frame c c') c"
proof -
  have opts: "builds (request_options c' m 308 off)" if "sized m" "off \<le> 308" "send_frame c c'" for c' m off
  proof -
    have m: "sized (m\<lparr>msg_ciaddr := a\<rparr>)" for a using that(1) by (simp add: sized_def wf_message_def)
    show ?thesis
      using assms(6) that(1,2) m send_frame_fields(5,6) [OF that(3)]
      unfolding may_request_def
      by (elim disjE conjE) (auto simp: request_options_def intro!: builds_rbind builds_intros)
  qed
  have send: "wp (\<lambda>_. False) (case (c_state c', c_lease c') of
       (DHCP_STATE_RENEWING, Some lease) \<Rightarrow>
         cthen (cassert (0 \<le> c_fd c'))
         (cthen (cerrno (e_send_udp env))
           (log_action (SendUdp (le_server_address lease) m (240 + off))))
     | _ \<Rightarrow> dhcp_client_send_raw env (p\<lparr>pkt_dhcp := m\<rparr>) (268 + off)) (\<lambda>r c'. send_frame c c') c'"
    if "send_frame c c'" "wf_packet p" "sized m" "off \<le> 308" for c' p m off
  proof -
    note fr = that(1)
    have raw: "wp (\<lambda>_. False) (dhcp_client_send_raw env (p\<lparr>pkt_dhcp := m\<rparr>) (268 + off)) (\<lambda>r c'. send_frame c c') c'"
      using that by (intro send_raw_wp packet_with) (simp_all add: send_frame_config [OF _ assms(1)])
    show ?thesis
    proof (cases "c_state c' = DHCP_STATE_RENEWING")
      case True
      then obtain l where "c_lease c' = Some l" "0 \<le> c_fd c'"
        using assms(6) send_frame_fields(5-7) [OF fr] by (auto simp: may_request_def)
      then show ?thesis using True fr send_frame_trace [OF fr] by (cases "e_send_udp env") simp_all
    next
      case False
      then show ?thesis using raw by (cases "c_state c'") simp_all
    qed
  qed
  show ?thesis
    unfolding client_send_request_def
    apply (rule wp_message_init [OF assms(1-5)])
      apply simp
     apply (simp only: prod.case wp_cget)
     apply (intro wp_build builds_intros opts)
          apply (assumption | rule send [unfolded prod.case])+
    done
qed

end
