(* ===== verification/Dhcp_Client_Invariant.thy ===== *)
theory Dhcp_Client_Invariant
  imports Dhcp_Client_Wp
begin

text \<open>
  The invariant of the client, and that starting, stopping and the timers keep it.  A function that
  holds a reference may be called back into by the user of the library at every notification: \<open>base\<close>
  is what holds there, \<open>client_inv\<close> what holds between events.
\<close>

section \<open>The invariant\<close>

definition lease_ready :: "sd_dhcp_lease \<Rightarrow> bool" where
  "lease_ready l \<longleftrightarrow> wf_lease l \<and> le_address l \<noteq> 0 \<and> le_server_address l \<noteq> 0 \<and> le_lifetime l \<noteq> 0"

definition has_lease :: "DHCPState \<Rightarrow> bool" where
  "has_lease s \<longleftrightarrow> s \<in> {DHCP_STATE_REQUESTING, DHCP_STATE_BOUND, DHCP_STATE_RENEWING, DHCP_STATE_REBINDING}"

definition lease_timer :: "sd_dhcp_client \<Rightarrow> bool" where
  "lease_timer c \<longleftrightarrow> c_timeout_t1 c \<noteq> None \<or> c_timeout_t2 c \<noteq> None \<or> c_timeout_expire c \<noteq> None"

text \<open>A client that the event loop can call, or that has a lease.\<close>

definition active :: "sd_dhcp_client \<Rightarrow> bool" where
  "active c \<longleftrightarrow> c_timeout_resend c \<noteq> None \<or> c_receive_message c \<noteq> None \<or> lease_timer c \<or> c_lease c \<noteq> None"

text \<open>
  \<open>base t h c\<close> holds of a client at time \<open>t\<close> whenever code outside of it may look at it, while \<open>h\<close>
  references are held by functions that are still running.
\<close>

definition base :: "u64 \<Rightarrow> nat \<Rightarrow> sd_dhcp_client \<Rightarrow> bool" where
  "base t h c \<longleftrightarrow>
     h \<le> unat (c_n_ref c) \<and> config c
     \<and> (\<forall>l. c_lease c = Some l \<longrightarrow> lease_ready l)
     \<and> (has_lease (c_state c) \<or> lease_timer c \<longrightarrow> c_lease c \<noteq> None)
     \<and> (active c \<longrightarrow> ready c)
     \<and> c_attempt c \<in> {1, 2, 4, 8, 16, 32, 64}
     \<and> c_start_time c \<le> t \<and> c_request_sent c \<le> t"

text \<open>A renewal goes out over the socket that is bound to the address.\<close>

definition sock :: "sd_dhcp_client \<Rightarrow> bool" where
  "sock c \<longleftrightarrow> (c_timeout_t1 c \<noteq> None \<or> c_state c = DHCP_STATE_BOUND \<or> c_state c = DHCP_STATE_RENEWING \<longrightarrow> 0 \<le> c_fd c)"

definition client_inv :: "u64 \<Rightarrow> nat \<Rightarrow> sd_dhcp_client \<Rightarrow> bool" where
  "client_inv t h c \<longleftrightarrow> base t h c \<and> sock c"

lemmas client_inv_defs = client_inv_def base_def sock_def active_def lease_timer_def has_lease_def ready_def config_def

lemma base_later: "base t h c \<Longrightarrow> t \<le> t' \<Longrightarrow> base t' h c"
  by (auto simp: base_def)

lemma inv_later: "client_inv t h c \<Longrightarrow> t \<le> t' \<Longrightarrow> client_inv t' h c"
  by (auto simp: client_inv_def intro: base_later)

lemma trace_simps [simp]:
  "base t h (c\<lparr>c_trace := tr\<rparr>) = base t h c" "ready (c\<lparr>c_trace := tr\<rparr>) = ready c" "sock (c\<lparr>c_trace := tr\<rparr>) = sock c"
  by (simp_all add: client_inv_defs)

text \<open>
  What is left of a fault-free client: options that a server can send make the parser loop, and a list of
  private options that lost its head is used after it was freed.
\<close>

definition server_fault :: "fault \<Rightarrow> bool" where
  "server_fault f \<longleftrightarrow> f = Diverges \<or> f = UseAfterFree"

lemma server_fault_simps [simp]: "server_fault Diverges" "server_fault UseAfterFree" "\<not> server_fault Abort"
    "\<not> server_fault OutOfBounds" "\<not> server_fault (Errno e)"
  by (simp_all add: server_fault_def)

text \<open>
  The user of the client: a callback may do anything to the client that the interface allows, which
  keeps the invariant, does not drop references it does not have, and does not take away the event loop
  of a running client.
\<close>

definition callback_ok :: "dhcp_env \<Rightarrow> bool" where
  "callback_ok env \<longleftrightarrow> (\<forall>event h c. 1 \<le> h \<longrightarrow> base (e_clock env) h c \<longrightarrow>
     (\<exists>c'. e_callback env event c = Inr c' \<and> base (e_clock env) h c' \<and> (ready c \<longrightarrow> ready c') \<and> (sock c \<longrightarrow> sock c')))"

lemma client_notify_wp:
  assumes "callback_ok env" "1 \<le> h" "base (e_clock env) h c"
  shows "wp server_fault (client_notify env event)
    (\<lambda>r c'. r = Inr () \<and> base (e_clock env) h c' \<and> (ready c \<longrightarrow> ready c') \<and> (sock c \<longrightarrow> sock c')) c"
proof -
  obtain c' where "e_callback env event (c\<lparr>c_trace := c_trace c @ [Notify event]\<rparr>) = Inr c'" "base (e_clock env) h c'"
    "ready c \<longrightarrow> ready c'" "sock c \<longrightarrow> sock c'"
    using assms unfolding callback_ok_def by (metis trace_simps)
  then show ?thesis using assms(3) by (simp add: client_notify_def)
qed

lemma drop_lease_fault: "base t h c \<Longrightarrow> drop_lease (c_lease c) = Inl f \<Longrightarrow> f = UseAfterFree"
  using unref_wf by (auto simp: drop_lease_def rbind_Inl_iff base_def lease_ready_def split: option.splits)

definition initialized :: "sd_dhcp_client \<Rightarrow> sd_dhcp_client" where
  "initialized c = c\<lparr>c_receive_message := None, c_fd := -1, c_timeout_resend := None, c_timeout_t1 := None,
     c_timeout_t2 := None, c_timeout_expire := None, c_attempt := 1, c_state := DHCP_STATE_INIT, c_xid := 0, c_lease := None\<rparr>"

lemma initialized_simps [simp]:
  "c_state (initialized c) = DHCP_STATE_INIT" "c_xid (initialized c) = 0" "c_fd (initialized c) = -1"
  "c_event (initialized c) = c_event c" "c_index (initialized c) = c_index c" "ready (initialized c) = ready c"
  "c_last_addr (initialized c) = c_last_addr c" "c_n_ref (initialized c) = c_n_ref c" "\<not> active (initialized c)"
  by (simp_all add: initialized_def client_inv_defs)

lemma inv_initialized: "base t h c \<Longrightarrow> client_inv t h (initialized c)"
  by (auto simp: initialized_def client_inv_defs)

lemma client_initialize_wp:
  "base t h c \<Longrightarrow> wp server_fault client_initialize (\<lambda>r c'. r = Inr () \<and> c' = initialized c) c"
  using drop_lease_fault [of t h c]
  by (cases "drop_lease (c_lease c)") (auto simp: client_initialize_def initialized_def)

lemma client_stop_wp:
  assumes "callback_ok env" "1 \<le> h" "base (e_clock env) h c"
  shows "wp server_fault (client_stop env event)
    (\<lambda>r c'. r = Inr () \<and> client_inv (e_clock env) h c' \<and> (ready c \<longrightarrow> ready c') \<and> \<not> active c' \<and> c_state c' = DHCP_STATE_INIT) c"
  unfolding client_stop_def wp_cthen
  by (rule wp_mono [OF client_notify_wp [OF assms]])
    (auto intro!: wp_mono [OF client_initialize_wp] inv_initialized)

lemma arm_timer_wp:
  "wp F (arm_timer env s usec) (\<lambda>r c'. c' = set_timer s (Some usec) c \<or> (\<exists>e. r = Inl e) \<and> c' = c) c"
  by (simp add: arm_timer_def split: option.split)

section \<open>Starting\<close>

lemma wp_stop_on_error:
  assumes "callback_ok env" "1 \<le> h"
    and "wp server_fault m (\<lambda>r c'. base (e_clock env) h c' \<and> ready c' \<and> (r = Inr () \<longrightarrow> sock c')) c"
  shows "wp server_fault (ctry m (case_sum (\<lambda>e. client_stop env (EVENT_ERROR e)) cret))
    (\<lambda>r c'. r = Inr () \<and> client_inv (e_clock env) h c' \<and> ready c') c"
  unfolding wp_ctry
  by (rule wp_mono [OF assms(3)])
    (auto simp: client_inv_def split: sum.split intro: wp_mono [OF client_stop_wp [OF assms(1,2)]])

lemma client_initialize_io_events_wp:
  assumes "callback_ok env" "1 \<le> h" "client_inv (e_clock env) h c" "ready c"
  shows "wp server_fault (client_initialize_io_events env io) (\<lambda>r c'. r = Inr () \<and> client_inv (e_clock env) h c' \<and> ready c') c"
proof -
  have "c_event c" using assms(4) by (simp add: ready_def)
  moreover have "base (e_clock env) h c \<and> sock c" "base (e_clock env) h (c\<lparr>c_receive_message := Some io\<rparr>)
      \<and> sock (c\<lparr>c_receive_message := Some io\<rparr>) \<and> ready (c\<lparr>c_receive_message := Some io\<rparr>)"
    using assms(3,4) by (auto simp: client_inv_defs)
  ultimately show ?thesis
    unfolding client_initialize_io_events_def using assms(4)
    by (simp del: wp_ctry) (rule wp_stop_on_error [OF assms(1,2)], simp split: option.split)
qed

lemma resend_armed:
  "client_inv t h c \<Longrightarrow> ready c \<Longrightarrow> client_inv t h (c\<lparr>c_timeout_resend := x\<rparr>) \<and> ready (c\<lparr>c_timeout_resend := x\<rparr>)"
  by (auto simp: client_inv_defs)

lemma arm_resend_wp:
  assumes "client_inv t h c" "ready c"
  shows "wp F (arm_timer env Resend usec) (\<lambda>r c'. client_inv t h c' \<and> ready c') c"
  by (rule wp_mono [OF arm_timer_wp]) (use assms resend_armed [OF assms] in \<open>auto simp: set_timer_def\<close>)

lemma client_initialize_time_events_wp:
  assumes "callback_ok env" "1 \<le> h" "client_inv (e_clock env) h c" "ready c" "\<not> isl (e_event_now env)"
  shows "wp server_fault (client_initialize_time_events env) (\<lambda>r c'. r = Inr () \<and> client_inv (e_clock env) h c' \<and> ready c') c"
proof -
  have "c_event c" using assms(4) by (simp add: ready_def)
  moreover note resend_armed [OF assms(3,4), of None]
  ultimately show ?thesis
    unfolding client_initialize_time_events_def using assms(5)
    by (simp add: set_timer_def del: wp_ctry)
      (intro conjI impI wp_stop_on_error [OF assms(1,2)] wp_mono [OF arm_resend_wp], auto simp: client_inv_def)
qed

lemma client_initialize_events_wp:
  assumes "callback_ok env" "1 \<le> h" "client_inv (e_clock env) h c" "ready c" "\<not> isl (e_event_now env)"
  shows "wp server_fault (client_initialize_events env io) (\<lambda>r c'. r = Inr () \<and> client_inv (e_clock env) h c' \<and> ready c') c"
  unfolding client_initialize_events_def wp_cthen
  by (rule wp_mono [OF client_initialize_io_events_wp [OF assms(1-4)]])
    (auto intro!: client_initialize_time_events_wp assms)

lemma bind_raw_ok:
  "dhcp_network_bind_raw_socket b n arp = Inr fd \<Longrightarrow> arp = ARPHRD_ETHER \<or> arp = ARPHRD_INFINIBAND"
  by (auto simp: dhcp_network_bind_raw_socket_def split: if_splits)

text \<open>What every function needs of the outside.\<close>

definition env_ok :: "u64 \<Rightarrow> dhcp_env \<Rightarrow> bool" where
  "env_ok t env \<longleftrightarrow> callback_ok env \<and> errno_only (e_machine_id env)
     \<and> (\<exists>now. e_event_now env = Inr now \<and> t \<le> now \<and> now \<le> e_clock env \<and> now \<noteq> 0) \<and> unat (e_clock env) < 2 ^ 52"

lemma env_okD:
  assumes "env_ok t env"
  shows "callback_ok env" "errno_only (e_machine_id env)" "\<not> isl (e_event_now env)" "0 < e_clock env" "t \<le> e_clock env"
proof -
  obtain now where "e_event_now env = Inr now" "t \<le> now" "now \<le> e_clock env" "now \<noteq> 0"
    using assms by (auto simp: env_ok_def)
  then show "\<not> isl (e_event_now env)" "0 < e_clock env" "t \<le> e_clock env"
    by (auto simp: word_neq_0_conv dest: less_le_trans)
qed (use assms in \<open>simp_all add: env_ok_def\<close>)

lemma client_start_delayed_wp:
  assumes "env_ok t env" "1 \<le> h" "client_inv (e_clock env) h c"
  shows "wp server_fault (client_start_delayed env) (\<lambda>r c'. client_inv (e_clock env) h c') c"
proof -
  note e = env_okD [OF assms(1)]
  have xid: "base (e_clock env) h (c\<lparr>c_xid := x\<rparr>)" for x using assms(3) by (auto simp: client_inv_defs)
  have run: "wp server_fault (client_initialize_events env Raw_handler) (\<lambda>r c'. client_inv (e_clock env) h c')
      (c\<lparr>c_xid := x, c_fd := int fd, c_start_time := e_clock env\<rparr>)" (is "wp _ _ _ ?c")
    if "c_event c" "dhcp_network_bind_raw_socket (e_bind_raw env) (c_mac_addr_len c) (c_arp_type c) = Inr fd" for x fd
  proof -
    have r: "ready ?c" using that(1) bind_raw_ok [OF that(2)] e(4) by (auto simp: ready_def)
    have "client_inv (e_clock env) h ?c" using assms(3) r by (auto simp: client_inv_defs)
    from client_initialize_events_wp [OF e(1) assms(2) this r e(3)] show ?thesis by (rule wp_mono) simp
  qed
  show ?thesis
  proof (cases "dhcp_network_bind_raw_socket (e_bind_raw env) (c_mac_addr_len c) (c_arp_type c)")
    case (Inl r)
    then show ?thesis
      using assms(3) by (simp add: client_start_delayed_def)
        (intro conjI impI; rule wp_mono [OF client_stop_wp [OF e(1) assms(2) xid]], simp)
  next
    case (Inr fd)
    then show ?thesis using assms(3) run by (simp add: client_start_delayed_def)
  qed
qed

lemma client_start_wp:
  assumes "env_ok t env" "1 \<le> h" "client_inv (e_clock env) h c"
  shows "wp server_fault (client_start env) (\<lambda>r c'. client_inv (e_clock env) h c') c"
  unfolding client_start_def
  by (simp, rule client_start_delayed_wp [OF assms(1,2)]) (use assms(3) in \<open>auto simp: client_inv_defs\<close>)

lemma sd_dhcp_client_start_wp:
  assumes "env_ok t env" "1 \<le> h" "base (e_clock env) h c"
  shows "wp server_fault (sd_dhcp_client_start env) (\<lambda>r c'. client_inv (e_clock env) h c') c"
proof -
  have "client_inv (e_clock env) h ((initialized c)\<lparr>c_state := DHCP_STATE_INIT_REBOOT\<rparr>)"
    using inv_initialized [OF assms(3)] by (auto simp: client_inv_defs initialized_def)
  then show ?thesis
    unfolding sd_dhcp_client_start_def wp_cthen
    by (intro wp_mono [OF client_initialize_wp [OF assms(3)]])
      (auto intro!: client_start_wp [OF assms(1,2)] inv_initialized [OF assms(3)])
qed

section \<open>Resending\<close>

lemma inv_send_frame: "send_frame c c' \<Longrightarrow> client_inv t h c \<Longrightarrow> ready c \<Longrightarrow> client_inv t h c' \<and> ready c'"
  unfolding send_frame_def by (elim exE conjE) (simp add: client_inv_defs)

lemma inv_attempt:
  "client_inv t h c \<Longrightarrow> a \<in> {1, 2, 4, 8, 16, 32, 64} \<Longrightarrow> client_inv t h (c\<lparr>c_attempt := a\<rparr>)"
  by (simp add: client_inv_defs)

lemma give_up_wp: "client_inv t h c \<Longrightarrow> wp F (give_up e) (\<lambda>r c'. client_inv t h c') c"
  by (simp add: give_up_def)

lemma resend_message_wp:
  assumes "errno_only (e_machine_id env)" "e_event_now env = Inr now" "client_inv now h c" "ready c"
  shows "wp server_fault (resend_message env now) (\<lambda>r c'. client_inv now h c') c"
proof -
  have base: "config c" "c_start_time c \<le> now" using assms(3) by (simp_all add: client_inv_defs)
  note discover = client_send_discover_wp [OF base(1) assms(4,1,2) base(2)]
  note request = client_send_request_wp [OF base(1) assms(4,1,2) base(2)]
  note frame = inv_send_frame [OF _ assms(3,4)]
  have sel: "client_inv now h (c'\<lparr>c_state := DHCP_STATE_SELECTING, c_attempt := 1\<rparr>)" if "client_inv now h c'" for c'
    using that by (simp add: client_inv_defs)
  have req: "client_inv now h (c'\<lparr>c_state := (if c_state c' = DHCP_STATE_INIT_REBOOT then DHCP_STATE_REBOOTING else c_state c'),
      c_request_sent := now\<rparr>)" if "client_inv now h c'" for c'
    using that by (cases "c_state c' = DHCP_STATE_INIT_REBOOT") (simp_all add: client_inv_defs)
  have may: "may_request c" if "c_state c \<in> {DHCP_STATE_INIT_REBOOT, DHCP_STATE_REQUESTING, DHCP_STATE_RENEWING, DHCP_STATE_REBINDING}"
    using that assms(3) by (simp add: may_request_def client_inv_defs) blast
  have d: "wp server_fault (client_send_discover env) (\<lambda>r c'. client_inv now h c') c"
    if "c_state c = DHCP_STATE_INIT \<or> c_state c = DHCP_STATE_SELECTING"
    by (rule wp_post [OF discover [OF that]]) (use frame in auto)
  have r: "wp server_fault (client_send_request env) (\<lambda>r c'. client_inv now h c') c" if "may_request c"
    by (rule wp_post [OF request [OF that]]) (use frame in auto)
  have ask: "wp server_fault
      (cthen (ctry (client_send_request env) (\<lambda>r. case r of Inr _ \<Rightarrow> cret () | Inl e \<Rightarrow> give_up e))
         (cmodify (\<lambda>c. c\<lparr>c_state := (if c_state c = DHCP_STATE_INIT_REBOOT then DHCP_STATE_REBOOTING else c_state c),
            c_request_sent := now\<rparr>))) (\<lambda>r c'. client_inv now h c') c" if "may_request c"
    unfolding wp_cthen wp_ctry
    by (rule wp_mono [OF r [OF that]]) (auto simp: give_up_def req split: sum.split)
  have found: "wp server_fault (ctry (client_send_discover env) (\<lambda>r. case r of
       Inr _ \<Rightarrow> cmodify (\<lambda>c. c\<lparr>c_state := DHCP_STATE_SELECTING, c_attempt := 1\<rparr>) | Inl e \<Rightarrow> give_up e))
      (\<lambda>r c'. client_inv now h c') c" if "c_state c = DHCP_STATE_INIT"
    unfolding wp_ctry by (rule wp_mono [OF d]) (use that in \<open>auto simp: give_up_def sel split: sum.split\<close>)
  have again: "wp server_fault (ctry (client_send_discover env) (\<lambda>r. case r of Inr _ \<Rightarrow> cret () | Inl e \<Rightarrow> give_up e))
      (\<lambda>r c'. client_inv now h c') c" if "c_state c = DHCP_STATE_SELECTING"
    unfolding wp_ctry by (rule wp_mono [OF d]) (use that in \<open>auto simp: give_up_def split: sum.split\<close>)
  show ?thesis
    unfolding resend_message_def wp_cget
    using ask may found again assms(3) by (cases "c_state c") (simp_all del: wp_ctry wp_cthen)
qed

lemma attempt_doubles:
  "client_inv t h c \<Longrightarrow> client_inv t h (if backs_off (c_state c) \<and> c_attempt c < 64 then c\<lparr>c_attempt := c_attempt c * 2\<rparr> else c)"
proof -
  assume i: "client_inv t h c"
  have "c_attempt c * 2 \<in> {1, 2, 4, 8, 16, 32, 64}" if "c_attempt c < 64"
    using that i by (auto simp: client_inv_def base_def)
  then show ?thesis using i inv_attempt by simp
qed

lemma resend_wp:
  assumes "env_ok t env" "1 \<le> h" "client_inv t h c" "ready c"
  shows "wp server_fault (resend env) (\<lambda>r c'. client_inv (e_clock env) h c') c"
proof -
  obtain now where now: "e_event_now env = Inr now" "t \<le> now" "now \<le> e_clock env"
    using assms(1) by (auto simp: env_ok_def)
  have inv: "client_inv now h c" "client_inv (e_clock env) h c"
    using assms(3) now inv_later by (blast, meson inv_later order_trans)
  have ev: "c_event c" using assms(4) by (simp add: ready_def)
  let ?c = "if backs_off (c_state c) \<and> c_attempt c < 64 then c\<lparr>c_attempt := c_attempt c * 2\<rparr> else c"
  have c1: "client_inv now h ?c" "ready ?c" using attempt_doubles [OF inv(1)] assms(4) by (auto simp: ready_def)
  have delay: "\<exists>d. resend_delay ?c = Inr d"
    using c1(1) by (cases "c_state ?c"; cases "c_lease ?c") (auto simp: resend_delay_def client_inv_defs)
  have msg: "wp server_fault (resend_message env now) (\<lambda>r c'. client_inv (e_clock env) h c') c'"
    if "client_inv now h c'" "ready c'" for c'
    by (rule wp_mono [OF resend_message_wp [OF env_okD(2) [OF assms(1)] now(1) that]]) (rule inv_later [OF _ now(3)])
  note idle = resend_armed [OF c1, of None]
  obtain d where d: "resend_delay ?c = Inr d" using delay by blast
  have send: "wp server_fault (cthen (arm_timer env Resend u) (resend_message env now))
      (\<lambda>r c'. client_inv (e_clock env) h c') (?c\<lparr>c_timeout_resend := None\<rparr>)" for u
    unfolding wp_cthen
    by (rule wp_mono [OF arm_resend_wp]) (use idle msg inv_later [OF _ now(3)] in \<open>auto split: sum.split\<close>)
  have "base (e_clock env) h c" using inv(2) by (simp add: client_inv_def)
  then have reboot: "wp server_fault (cthen client_initialize (client_start env)) (\<lambda>r c'. client_inv (e_clock env) h c') c"
    unfolding wp_cthen
    by (intro wp_mono [OF client_initialize_wp]) (auto intro: client_start_wp [OF assms(1,2)] inv_initialized)
  consider "c_state c = DHCP_STATE_REBOOTING" | "c_state c = DHCP_STATE_STOPPED"
    | "c_state c \<noteq> DHCP_STATE_REBOOTING" "c_state c \<noteq> DHCP_STATE_STOPPED" by blast
  then show ?thesis
  proof cases
    case 3
    then show ?thesis
      unfolding resend_def using ev now(1) d send by (simp add: set_timer_def)
  qed (use ev now(1) inv(2) reboot in \<open>simp_all add: resend_def\<close>)
qed

section \<open>References\<close>

lemma inv_n_ref:
  "client_inv t h c \<Longrightarrow> h' \<le> unat n \<Longrightarrow> client_inv t h' (c\<lparr>c_n_ref := n\<rparr>)"
  by (simp add: client_inv_defs)

lemma inv_ref:
  assumes "client_inv t h c" "0 < c_n_ref c" "unat (c_n_ref c) < 2 ^ 32 - 1"
  shows "sd_dhcp_client_ref c = Inr (c\<lparr>c_n_ref := c_n_ref c + 1\<rparr>)"
    and "client_inv t (Suc h) (c\<lparr>c_n_ref := c_n_ref c + 1\<rparr>)" and "ready c \<Longrightarrow> ready (c\<lparr>c_n_ref := c_n_ref c + 1\<rparr>)"
proof -
  have s: "unat (c_n_ref c + 1) = Suc (unat (c_n_ref c))"
    using assms(3) by (subst unat_plus_if') simp
  show "sd_dhcp_client_ref c = Inr (c\<lparr>c_n_ref := c_n_ref c + 1\<rparr>)"
    using assms(2) by (simp add: sd_dhcp_client_ref_def word_less_nat_alt)
  show "client_inv t (Suc h) (c\<lparr>c_n_ref := c_n_ref c + 1\<rparr>)" "ready c \<Longrightarrow> ready (c\<lparr>c_n_ref := c_n_ref c + 1\<rparr>)"
    using assms(1) s by (simp_all add: client_inv_defs)
qed

lemma inv_unref:
  assumes "client_inv t (Suc h) c" "sd_dhcp_client_unref c = r"
  shows "r = Inl UseAfterFree \<or> r = Inr None \<and> h = 0
    \<or> (\<exists>c'. r = Inr (Some c') \<and> c' = c\<lparr>c_n_ref := c_n_ref c - 1\<rparr> \<and> client_inv t h c' \<and> 0 < c_n_ref c')"
proof -
  have u: "Suc h \<le> unat (c_n_ref c)" using assms(1) by (simp add: client_inv_def base_def)
  then have pos: "\<not> c_n_ref c < 1" and s: "unat (c_n_ref c - 1) = unat (c_n_ref c) - 1"
    by (simp_all add: word_less_nat_alt unat_sub_if_size)
  let ?c = "c\<lparr>c_n_ref := c_n_ref c - 1\<rparr>"
  have inv: "client_inv t h ?c" using u s by (intro inv_n_ref [OF assms(1)]) simp_all
  show ?thesis
  proof (cases "0 < c_n_ref ?c")
    case True
    then show ?thesis using assms(2) pos inv by (simp add: sd_dhcp_client_unref_def)
  next
    case False
    then have z: "c_n_ref c - 1 = 0" by (simp add: word_neq_0_conv [symmetric] del: eq_iff_diff_eq_0)
    then have "unat (c_n_ref c - 1) = 0" by simp
    then have h: "h = 0" using s u by simp
    have "wp server_fault client_initialize (\<lambda>r c'. r = Inr () \<and> c' = initialized ?c) ?c"
      by (rule client_initialize_wp [of t h]) (use inv in \<open>simp add: client_inv_def\<close>)
    moreover have "client_initialize ?c = Inl f \<Longrightarrow> f = UseAfterFree" for f
      using drop_lease_fault [of t h ?c] inv
      by (cases "drop_lease (c_lease c)") (auto simp: client_initialize_def cupdate_def client_inv_def)
    moreover have "c_lease (initialized ?c) = None" by (simp add: initialized_def)
    ultimately show ?thesis
      using assms(2) pos z h
      by (cases "client_initialize ?c") (auto simp: sd_dhcp_client_unref_def wp_def drop_lease_def)
  qed
qed

text \<open>The state after a function that holds a reference of its own.\<close>

definition left :: "u64 \<Rightarrow> nat \<Rightarrow> sd_dhcp_client option \<Rightarrow> bool" where
  "left t h x \<longleftrightarrow> (case x of None \<Rightarrow> h = 0 | Some c \<Rightarrow> client_inv t h c \<and> 0 < c_n_ref c)"

lemma dont_destroy_wpd:
  assumes "client_inv t h c" "0 < c_n_ref c" "unat (c_n_ref c) < 2 ^ 32 - 1" "\<And>f. server_fault f \<Longrightarrow> F f"
    and "wp F m (\<lambda>r c'. client_inv t' (Suc h) c') (c\<lparr>c_n_ref := c_n_ref c + 1\<rparr>)"
  shows "wpd F (DHCP_CLIENT_DONT_DESTROY m) (\<lambda>r. left t' h) c"
proof -
  have uaf: "F UseAfterFree" by (rule assms(4)) simp
  show ?thesis
    unfolding wpd_def DHCP_CLIENT_DONT_DESTROY_def inv_ref(1) [OF assms(1-3)]
  proof (cases "m (c\<lparr>c_n_ref := c_n_ref c + 1\<rparr>)")
    case (Inr p)
    obtain c' r where p: "p = (c', r)" by (cases p)
    then have "client_inv t' (Suc h) c'" using assms(5) Inr by (simp add: wp_def)
    from inv_unref [OF this refl] uaf show "case rbind (Inr (c\<lparr>c_n_ref := c_n_ref c + 1\<rparr>))
          (\<lambda>c. rbind (m c) (\<lambda>(c, r). rbind (sd_dhcp_client_unref c) (\<lambda>c. Inr (c, r)))) of
        Inl x \<Rightarrow> F x | Inr (c', r) \<Rightarrow> left t' h c'"
      by (auto simp: Inr p left_def)
  qed (use assms(5) in \<open>simp add: wp_def\<close>)
qed

section \<open>Timers\<close>

lemma client_timeout_resend_wpd:
  assumes "env_ok t env" "client_inv t h c" "0 < c_n_ref c" "unat (c_n_ref c) < 2 ^ 32 - 1" "ready c"
  shows "wpd server_fault (client_timeout_resend env) (\<lambda>r. left (e_clock env) h) c"
  unfolding client_timeout_resend_def
proof (rule dont_destroy_wpd [OF assms(2-4)])
  let ?c = "c\<lparr>c_n_ref := c_n_ref c + 1\<rparr>"
  note r = inv_ref [OF assms(2-4)]
  show "wp server_fault (ctry (resend env) (\<lambda>r. case r of Inl e \<Rightarrow> client_stop env (EVENT_ERROR e) | Inr _ \<Rightarrow> cret ()))
      (\<lambda>r c'. client_inv (e_clock env) (Suc h) c') ?c"
    unfolding wp_ctry
    by (rule wp_mono [OF resend_wp [OF assms(1) _ r(2) r(3) [OF assms(5)]]])
      (auto split: sum.split simp: client_inv_def intro!: wp_mono [OF client_stop_wp [OF env_okD(1) [OF assms(1)], of "Suc h"]])
qed

lemma client_timeout_expire_wpd:
  assumes "env_ok t env" "client_inv t h c" "0 < c_n_ref c" "unat (c_n_ref c) < 2 ^ 32 - 1"
  shows "wpd server_fault (client_timeout_expire env) (\<lambda>r. left (e_clock env) h) c"
  unfolding client_timeout_expire_def
proof (rule dont_destroy_wpd [OF assms(2-4)])
  let ?c = "c\<lparr>c_n_ref := c_n_ref c + 1\<rparr>"
  note e = env_okD [OF assms(1)]
  have b: "base (e_clock env) (Suc h) ?c" "sock ?c"
    using inv_later [OF inv_ref(2) [OF assms(2-4)] e(5)] by (simp_all add: client_inv_def)
  have start: "wp server_fault (client_start env) (\<lambda>r c'. client_inv (e_clock env) (Suc h) c') (initialized c')"
    if "base (e_clock env) (Suc h) c'" for c'
    using client_start_wp [OF assms(1) _ inv_initialized [OF that]] by simp
  show "wp server_fault (cthen (client_notify env EVENT_EXPIRED)
     (cget (\<lambda>c. if c_state c = DHCP_STATE_STOPPED then cret ()
        else cthen client_initialize (ctry (client_start env) (\<lambda>_. cret ())))))
      (\<lambda>r c'. client_inv (e_clock env) (Suc h) c') ?c"
    unfolding wp_cthen
    by (rule wp_mono [OF client_notify_wp [OF e(1) _ b(1)]])
      (use b(2) start in \<open>auto simp: client_inv_def intro!: wp_mono [OF client_initialize_wp] wp_mono [OF start]\<close>)
qed

lemma client_timeout_t2_wpd:
  assumes "env_ok t env" "client_inv t h c" "0 < c_n_ref c" "unat (c_n_ref c) < 2 ^ 32 - 1" "ready c" "c_lease c \<noteq> None"
  shows "wpd server_fault (client_timeout_t2 env) (\<lambda>r. left (e_clock env) h) c"
  unfolding client_timeout_t2_def
proof (rule dont_destroy_wpd [OF assms(2-4)])
  note e = env_okD [OF assms(1)]
  let ?c = "c\<lparr>c_n_ref := c_n_ref c + 1, c_receive_message := None, c_fd := -1, c_state := DHCP_STATE_REBINDING, c_attempt := 1\<rparr>"
  have i: "client_inv (e_clock env) (Suc h) (c\<lparr>c_n_ref := c_n_ref c + 1\<rparr>)" by (rule inv_later [OF inv_ref(2) [OF assms(2-4)] e(5)])
  have b: "base (e_clock env) (Suc h) ?c" using i assms(5,6) by (simp add: client_inv_defs)
  have run: "client_inv (e_clock env) (Suc h) (?c\<lparr>c_fd := int fd\<rparr>)" "ready (?c\<lparr>c_fd := int fd\<rparr>)" for fd
    using b assms(5) by (simp_all add: client_inv_defs)
  show "wp server_fault
     (cthen (cmodify (\<lambda>c. c\<lparr>c_receive_message := None, c_fd := -1, c_state := DHCP_STATE_REBINDING, c_attempt := 1\<rparr>))
     (cget (\<lambda>c.
        case dhcp_network_bind_raw_socket (e_bind_raw env) (c_mac_addr_len c) (c_arp_type c) of
          Inl r \<Rightarrow> client_stop env (EVENT_ERROR r)
        | Inr fd \<Rightarrow> cthen (cmodify (\<lambda>c. c\<lparr>c_fd := int fd\<rparr>)) (client_initialize_events env Raw_handler))))
     (\<lambda>r c'. client_inv (e_clock env) (Suc h) c') (c\<lparr>c_n_ref := c_n_ref c + 1\<rparr>)"
  proof (cases "dhcp_network_bind_raw_socket (e_bind_raw env) (c_mac_addr_len c) (c_arp_type c)")
    case (Inl r)
    then show ?thesis by simp (rule wp_mono [OF client_stop_wp [OF e(1) _ b]], simp_all)
  next
    case (Inr fd)
    then show ?thesis
      by simp (rule wp_mono [OF client_initialize_events_wp [OF e(1) _ run [simplified] e(3)]], simp_all)
  qed
qed

lemma client_timeout_t1_wpd:
  assumes "env_ok t env" "client_inv t h c" "0 < c_n_ref c" "unat (c_n_ref c) < 2 ^ 32 - 1" "ready c" "c_lease c \<noteq> None" "0 \<le> c_fd c"
  shows "wpd server_fault (client_timeout_t1 env) (\<lambda>r. left (e_clock env) h) c"
  unfolding client_timeout_t1_def
proof (rule dont_destroy_wpd [OF assms(2-4)])
  note e = env_okD [OF assms(1)]
  let ?c = "c\<lparr>c_n_ref := c_n_ref c + 1, c_state := DHCP_STATE_RENEWING, c_attempt := 1\<rparr>"
  have i: "client_inv (e_clock env) (Suc h) (c\<lparr>c_n_ref := c_n_ref c + 1\<rparr>)" by (rule inv_later [OF inv_ref(2) [OF assms(2-4)] e(5)])
  have b: "client_inv (e_clock env) (Suc h) ?c" "ready ?c" using i assms(5-7) by (simp_all add: client_inv_defs)
  show "wp server_fault
     (cthen (cmodify (\<lambda>c. c\<lparr>c_state := DHCP_STATE_RENEWING, c_attempt := 1\<rparr>)) (client_initialize_time_events env))
     (\<lambda>r c'. client_inv (e_clock env) (Suc h) c') (c\<lparr>c_n_ref := c_n_ref c + 1\<rparr>)"
    by simp (rule wp_mono [OF client_initialize_time_events_wp [OF e(1) _ b [simplified] e(3)]], simp_all)
qed

end
