(* ===== verification/Dhcp_Client_Receive.thy ===== *)
theory Dhcp_Client_Receive
  imports Dhcp_Client_Invariant
begin

text \<open>
  The invariant of the client while messages arrive: offers, acknowledgements, refusals and forced
  renewals, whatever bytes a server sends.
\<close>

section \<open>Received messages\<close>

lemma wf_lease_fields [simp]:
  "wf_lease (l\<lparr>le_next_server := a\<rparr>) = wf_lease l" "wf_lease (l\<lparr>le_address := b\<rparr>) = wf_lease l"
  "wf_lease (l\<lparr>le_t1 := t\<rparr>) = wf_lease l" "wf_lease (l\<lparr>le_t2 := t\<rparr>) = wf_lease l"
  "wf_lease (l\<lparr>le_client_id := i\<rparr>) = wf_lease l" "wf_lease (l\<lparr>le_client_id_len := n\<rparr>) = wf_lease l"
  "wf_lease (l\<lparr>le_subnet_mask := m\<rparr>) = wf_lease l" "wf_lease (l\<lparr>le_have_subnet_mask := x\<rparr>) = wf_lease l"
  by (simp_all add: wf_lease_def private_view_def)

lemma receive_lease_wp:
  assumes "len \<le> 240 + length (msg_options m)"
  shows "wp server_fault (receive_lease env m len)
    (\<lambda>r c'. c' = c \<and> (\<forall>type l. r = Inr (Some (type, l)) \<longrightarrow> wf_lease l)) c"
proof (cases "dhcp_lease_new (e_alloc env)")
  case (Inl f)
  then have "f = Errno ENOMEM" by (auto simp: dhcp_lease_new_def split: if_splits)
  then show ?thesis using Inl by (simp add: receive_lease_def)
next
  case (Inr l0)
  let ?r = "if c_client_id_len c = 0 then Inr l0 else dhcp_lease_set_client_id (e_alloc env) (Some l0) (client_id_bytes c)"
  have l0: "wf_lease l0" by (rule wf_lease_new [OF Inr])
  have "?r = Inl (Errno ENOMEM) \<or> (\<exists>l. ?r = Inr l \<and> wf_lease l)"
    using l0 by (simp add: dhcp_lease_set_client_id_def)
  then consider "?r = Inl (Errno ENOMEM)" | l where "?r = Inr l" "wf_lease l" by blast
  then show ?thesis
  proof cases
    case (2 l)
    let ?p = "dhcp_option_parse (e_alloc env) m len (Some (dhcp_lease_parse_options (e_alloc env) (e_zoneinfo env))) l"
    have f: "faults_in (\<lambda>f. f = Diverges \<or> is_errno f) ?p"
      using lease_handler.dhcp_option_parse_faults [OF 2(2) assms, of "e_alloc env" "e_alloc env" "e_zoneinfo env"]
      by (auto simp: faults_in_def lease_handler.ok_fault_def)
    show ?thesis
    proof (cases ?p)
      case (Inl x)
      then show ?thesis using f 2(1) Inr \<open>dhcp_lease_new (e_alloc env) = Inr l0\<close>
        by (auto simp: receive_lease_def is_errno_def simp del: split_paired_All)
    next
      case (Inr y)
      obtain type l' e where y: "y = (type, l', e)" by (cases y)
      then have "wf_lease l'" using lease_handler.dhcp_option_parse_inv [OF 2(2)] Inr by blast
      then show ?thesis using Inr 2(1) y \<open>dhcp_lease_new (e_alloc env) = Inr l0\<close> by (simp add: receive_lease_def)
    qed
  qed (use Inr in \<open>simp add: receive_lease_def\<close>)
qed

lemma ignore_message_wp: "wf_lease l \<Longrightarrow> wp server_fault (ignore_message l e) (\<lambda>r c'. r = Inl e \<and> c' = c) c"
  using unref_wf [of l] by (cases "sd_dhcp_lease_unref l") (auto simp: ignore_message_def drop_lease_def)

text \<open>Taking over a lease: the old one is released.\<close>

definition took_lease :: "sd_dhcp_client \<Rightarrow> sd_dhcp_client \<Rightarrow> bool" where
  "took_lease c c' \<longleftrightarrow> (\<exists>l. c' = c\<lparr>c_lease := Some l\<rparr> \<and> lease_ready l)"

definition taken :: "sd_dhcp_client \<Rightarrow> errno + 'a \<Rightarrow> sd_dhcp_client \<Rightarrow> bool" where
  "taken c r c' \<longleftrightarrow> (case r of Inl _ \<Rightarrow> c' = c | Inr _ \<Rightarrow> took_lease c c')"

lemma taken_simps [simp]: "taken c (Inl e) c' \<longleftrightarrow> c' = c" "taken c (Inr x) c' \<longleftrightarrow> took_lease c c'"
  by (simp_all add: taken_def)

lemma set_default_subnet_mask_frame:
  assumes "dhcp_lease_set_default_subnet_mask l = Inr l'" "wf_lease l" "le_address l \<noteq> 0" "le_server_address l \<noteq> 0" "le_lifetime l \<noteq> 0"
  shows "lease_ready l'"
  using assms by (auto simp: dhcp_lease_set_default_subnet_mask_def lease_ready_def rbind_Inr_iff split: if_splits)

lemma drop_lease_wp:
  assumes "base t h c" "Q (Inr ()) c"
  shows "wp server_fault (clift (drop_lease (c_lease c))) Q c"
proof (cases "drop_lease (c_lease c)")
  case (Inl f)
  then show ?thesis using drop_lease_fault [OF assms(1)] by simp
qed (use assms(2) in simp)

lemma client_handle_offer_wp:
  assumes "len \<le> 240 + length (msg_options m)" "base t h c"
  shows "wp server_fault (client_handle_offer env m len)(taken c) c"
proof -
  have ign: "wp server_fault (ignore_message l ENOMSG :: unit cm) (taken c) c" if "wf_lease l" for l
    by (rule wp_mono [OF ignore_message_wp [OF that]]) simp
  have take: "wp server_fault (cget (\<lambda>c. cbind (clift (drop_lease (c_lease c))) (\<lambda>_. cmodify (\<lambda>c. c\<lparr>c_lease := Some l\<rparr>)))) (taken c) c"
    if "lease_ready l" for l
    unfolding wp_cget wp_cbind by (rule drop_lease_wp [OF assms(2)]) (use that in \<open>auto simp: took_lease_def\<close>)
  have offer: "wp server_fault (let l = l\<lparr>le_next_server := msg_siaddr m, le_address := msg_yiaddr m\<rparr>
            in if le_address l = 0 \<or> le_server_address l = 0 \<or> le_lifetime l = 0 then ignore_message l ENOMSG
               else (case (if le_have_subnet_mask l then Inr l else dhcp_lease_set_default_subnet_mask l) of
                   Inl _ \<Rightarrow> ignore_message l ENOMSG
                 | Inr lease \<Rightarrow> cget (\<lambda>c. cbind (clift (drop_lease (c_lease c))) (\<lambda>_. cmodify (\<lambda>c. c\<lparr>c_lease := Some lease\<rparr>))))) (taken c) c"
    if "wf_lease l" for l
  proof -
    let ?l = "l\<lparr>le_next_server := msg_siaddr m, le_address := msg_yiaddr m\<rparr>"
    have wf: "wf_lease ?l" using that by simp
    show ?thesis
      using ign take set_default_subnet_mask_frame [OF _ wf] wf
      by (cases "dhcp_lease_set_default_subnet_mask ?l") (simp_all add: Let_def lease_ready_def del: wp_cget)
  qed
  show ?thesis
    unfolding client_handle_offer_def wp_cbind
    by (rule wp_mono [OF receive_lease_wp [OF assms(1)]])
      (use offer ign in \<open>auto split: sum.split option.split\<close>)
qed

lemma client_handle_ack_wp:
  assumes "len \<le> 240 + length (msg_options m)" "base t h c"
  shows "wp server_fault (client_handle_ack env m len) (taken c) c"
proof -
  let ?take = "\<lambda>lease. cget (\<lambda>c. cbind (clift (drop_lease (c_lease c))) (\<lambda>_.
                     cthen (cmodify (\<lambda>c. c\<lparr>c_lease := Some lease\<rparr>))
                     (cret (case c_lease c of
                          None \<Rightarrow> EVENT_IP_ACQUIRE
                        | Some old \<Rightarrow>
                            if le_address old \<noteq> le_address lease \<or> le_subnet_mask old \<noteq> le_subnet_mask lease
                               \<or> le_router old \<noteq> le_router lease
                            then EVENT_IP_CHANGE else EVENT_RENEW))))"
  have ign: "wp server_fault (ignore_message l e :: client_event cm) (taken c) c" if "wf_lease l" for l e
    by (rule wp_mono [OF ignore_message_wp [OF that]]) simp
  have take: "wp server_fault (?take l) (taken c) c" if "lease_ready l" for l
    unfolding wp_cget wp_cbind by (rule drop_lease_wp [OF assms(2)]) (use that in \<open>auto simp: took_lease_def\<close>)
  have ack: "wp server_fault (let l = l\<lparr>le_next_server := msg_siaddr m, le_address := msg_yiaddr m\<rparr>
            in if le_address l = 0 \<or> le_server_address l = 0 \<or> le_lifetime l = 0 then ignore_message l ENOMSG
               else (case (if le_subnet_mask l = 0 then dhcp_lease_set_default_subnet_mask l else Inr l) of
                   Inl _ \<Rightarrow> ignore_message l ENOMSG
                 | Inr lease \<Rightarrow> ?take lease)) (taken c) c"
    if "wf_lease l" for l
  proof -
    let ?l = "l\<lparr>le_next_server := msg_siaddr m, le_address := msg_yiaddr m\<rparr>"
    have wf: "wf_lease ?l" using that by simp
    show ?thesis
      using ign take set_default_subnet_mask_frame [OF _ wf] wf
      by (cases "dhcp_lease_set_default_subnet_mask ?l") (simp_all add: Let_def lease_ready_def del: wp_cget)
  qed
  show ?thesis
    unfolding client_handle_ack_def wp_cbind
    by (rule wp_mono [OF receive_lease_wp [OF assms(1)]])
      (use ack ign in \<open>auto split: sum.split option.split simp del: wp_cget\<close>)
qed

text \<open>Without a callback the parser does what it does with one that ignores every option.\<close>

definition skip_option :: "'u option_cb" where
  "skip_option code v u = Inr (u, None)"

interpretation skip_handler: faulting_handler skip_option "\<lambda>_. True" "\<lambda>_ _. False"
  by unfold_locales (auto simp: skip_option_def)

lemma parse_options_None:
  fixes st :: "'u popts"
  shows "parse_options alloc None ov options off st = parse_options alloc (Some skip_option) ov options off st"
proof (induction alloc "None :: 'u option_cb option" ov options off st rule: parse_options.induct)
  case (1 alloc ov options off st)
  have p: "parse_option alloc None ov code v st = parse_option alloc (Some skip_option) ov code v st" for code v
    by (simp add: parse_option_def skip_option_def)
  show ?case
    by (subst (1 2) parse_options.simps) (use 1 p in \<open>auto simp: Let_def intro!: rbind_cong\<close>)
qed

lemma forcerenew_errno:
  assumes "len \<le> 240 + length (msg_options m)"
  shows "errno_only (dhcp_option_parse alloc m len None u)"
proof -
  have "dhcp_option_parse alloc m len None u = dhcp_option_parse alloc m len (Some skip_option) u"
    unfolding dhcp_option_parse_def parse_options_None ..
  then show ?thesis
    using skip_handler.dhcp_option_parse_faults [OF TrueI assms, of alloc u]
    by (simp add: faults_in_def skip_handler.ok_fault_def)
qed

lemma client_handle_forcerenew_wp:
  assumes "len \<le> 240 + length (msg_options m)"
  shows "wp F (client_handle_forcerenew env m len) (\<lambda>r c'. c' = c) c"
  using forcerenew_errno [OF assms, of "e_alloc env" "()"]
  by (cases "dhcp_option_parse (e_alloc env) m len (None :: unit option_cb option) ()")
    (auto simp: client_handle_forcerenew_def is_errno_def)

section \<open>Becoming bound\<close>

text \<open>The assertion on the time of the request fails when none was sent.\<close>

definition ack_fault :: "sd_dhcp_client \<Rightarrow> fault \<Rightarrow> bool" where
  "ack_fault c f \<longleftrightarrow> server_fault f \<or> f = Abort \<and> c_request_sent c = 0"

definition timers_set :: "sd_dhcp_client \<Rightarrow> sd_dhcp_client \<Rightarrow> bool" where
  "timers_set c c' \<longleftrightarrow> (\<exists>a b e l. c' = c\<lparr>c_timeout_t1 := a, c_timeout_t2 := b, c_timeout_expire := e, c_lease := Some l\<rparr>
     \<and> lease_ready l)"

lemma lease_ready_timers [simp]:
  "lease_ready (l\<lparr>le_t1 := t\<rparr>) = lease_ready l" "lease_ready (l\<lparr>le_t2 := t\<rparr>) = lease_ready l"
  by (simp_all add: lease_ready_def)

lemma lease_timeouts_ready:
  assumes "lease_timeouts rs random l = Inr (l', e, t2, t1)" "lease_ready l" shows "lease_ready l'"
proof -
  define ok where "ok r \<longleftrightarrow> (\<forall>l' x. r = Inr (l', x) \<longrightarrow> lease_ready l')" for r :: "(sd_dhcp_lease \<times> u64 \<times> u64 \<times> u64) res"
  have bind: "ok (rbind m f)" if "\<And>x. ok (f x)" for m :: "u64 res" and f using that by (cases m) (auto simp: ok_def)
  have cond: "ok (if b then r else r')" if "ok r" "ok r'" for b r r' using that by simp
  have ret: "ok (Inr (l', x))" if "lease_ready l'" for l' x using that by (simp add: ok_def)
  have "ok (lease_timeouts rs random l)"
    unfolding lease_timeouts_def Let_def by (intro bind cond ret) (use assms(2) in simp_all)
  then show ?thesis using assms(1) by (simp add: ok_def)
qed

lemma timers_setI:
  "lease_ready l \<Longrightarrow>
   timers_set c (c\<lparr>c_timeout_t1 := a, c_timeout_t2 := b, c_timeout_expire := e, c_lease := Some l\<rparr>)"
  by (auto simp: timers_set_def)

lemma arm_lease_timer_wp:
  assumes "timers_set c0 c" "s = T1 \<or> s = T2 \<or> s = Expire"
  shows "wp F (arm_timer env s usec) (\<lambda>r c'. timers_set c0 c') c"
proof -
  have "timers_set c0 (set_timer s (Some usec) c)"
  proof -
    obtain a b e l where "c = c0\<lparr>c_timeout_t1 := a, c_timeout_t2 := b, c_timeout_expire := e, c_lease := Some l\<rparr>" "lease_ready l"
      using assms(1) by (auto simp: timers_set_def)
    then have "set_timer T1 (Some usec) c = c0\<lparr>c_timeout_t1 := Some usec, c_timeout_t2 := b, c_timeout_expire := e, c_lease := Some l\<rparr>"
      "set_timer T2 (Some usec) c = c0\<lparr>c_timeout_t1 := a, c_timeout_t2 := Some usec, c_timeout_expire := e, c_lease := Some l\<rparr>"
      "set_timer Expire (Some usec) c = c0\<lparr>c_timeout_t1 := a, c_timeout_t2 := b, c_timeout_expire := Some usec, c_lease := Some l\<rparr>"
      "lease_ready l"
      by (simp_all add: set_timer_def)
    with assms(2) show ?thesis by (elim disjE) (simp_all only: timers_setI)
  qed
  then show ?thesis by (intro wp_mono [OF arm_timer_wp]) (use assms(1) in auto)
qed

lemma client_set_lease_timeouts_wp:
  assumes "c_event c" "c_lease c = Some l" "lease_ready l" "e_event_now env = Inr now" "c_request_sent c \<le> now" "unat now < 2 ^ 52"
  shows "wp (ack_fault c) (client_set_lease_timeouts env) (\<lambda>r c'. timers_set c c') c"
proof -
  let ?c = "c\<lparr>c_timeout_t1 := None, c_timeout_t2 := None, c_timeout_expire := None\<rparr>"
  have life: "le_lifetime l \<noteq> 0" using assms(3) by (simp add: lease_ready_def)
  have t0: "timers_set c (?c\<lparr>c_lease := Some l'\<rparr>)" if "lease_ready l'" for l'
    using timers_setI [OF that, of c None None None] by simp
  have arm: "wp (ack_fault c) (cthen (arm_timer env Expire e) (if e \<le> now then cret ()
       else cthen (arm_timer env T2 t2) (if t2 \<le> now then cret () else arm_timer env T1 t1))) (\<lambda>r c'. timers_set c c')
      (?c\<lparr>c_lease := Some l'\<rparr>)" if "lease_ready l'" for l' e t2 t1
    unfolding wp_cthen
    by (rule wp_mono [OF arm_lease_timer_wp [OF t0 [OF that]]])
      (auto split: sum.split intro!: wp_mono [OF arm_lease_timer_wp] arm_lease_timer_wp)
  consider (inf) "le_lifetime l = 0xffffffff" | (none) "le_lifetime l \<noteq> 0xffffffff" "c_request_sent c = 0"
    | (fin) "le_lifetime l \<noteq> 0xffffffff" "c_request_sent c \<noteq> 0" by blast
  then show ?thesis
  proof cases
    case inf
    have "?c = ?c\<lparr>c_lease := Some l\<rparr>" using assms(2) by (intro sd_dhcp_client.equality) simp_all
    then have "timers_set c ?c" using t0 [OF assms(3)] by simp
    then show ?thesis using inf assms(1,2) by (simp add: client_set_lease_timeouts_def)
  next
    case none
    have "lease_timeouts 0 (e_random env) l = Inl Abort"
      by (simp add: lease_timeouts_def client_compute_timeout_def Let_def)
    then show ?thesis
      using none assms(1,2,4,5) life by (simp add: client_set_lease_timeouts_def ack_fault_def)
  next
    case fin
    have "sane_clock (c_request_sent c)"
      using fin(2) assms(5,6) by (simp add: sane_clock_def word_less_nat_alt word_le_nat_alt unat_eq_zero [symmetric])
    from lease_timeouts_total [OF this life, of "e_random env"] obtain l' e t2 t1 where
      lt: "lease_timeouts (c_request_sent c) (e_random env) l = Inr (l', e, t2, t1)" by blast
    show ?thesis
      using fin(1) assms(1,2,4,5) life lt arm [OF lease_timeouts_ready [OF lt assms(3)], of e t2 t1]
      by (simp add: client_set_lease_timeouts_def)
  qed
qed

lemma ack_fault_server: "server_fault f \<Longrightarrow> ack_fault c f"
  by (simp add: ack_fault_def)

lemma bound_base:
  assumes "base t h c" "ready c" "lease_ready l"
    and "c' = c\<lparr>c_start_delay := 0, c_timeout_resend := None, c_receive_message := None, c_fd := fd,
      c_state := DHCP_STATE_BOUND, c_attempt := 1, c_last_addr := x,
      c_timeout_t1 := a, c_timeout_t2 := b, c_timeout_expire := e, c_lease := Some l\<rparr>"
  shows "base t h c' \<and> ready c' \<and> (0 \<le> fd \<longrightarrow> sock c')"
  using assms by (simp add: client_inv_defs)

lemma client_bound_wp:
  assumes "env_ok t env" "1 \<le> h" "base t h c" "ready c" "c_lease c = Some l" "lease_ready l"
  shows "wp (ack_fault c) (client_bound env ev) (\<lambda>r c'. base (e_clock env) h c' \<and> (r = Inr () \<longrightarrow> sock c')) c"
proof -
  note e = env_okD [OF assms(1)]
  obtain now where now: "e_event_now env = Inr now" "t \<le> now" "now \<le> e_clock env" "unat (e_clock env) < 2 ^ 52"
    using assms(1) by (auto simp: env_ok_def)
  have b: "base (e_clock env) h c" by (rule base_later [OF assms(3) e(5)])
  let ?c = "c\<lparr>c_start_delay := 0, c_timeout_resend := None, c_receive_message := None, c_fd := -1,
      c_state := DHCP_STATE_BOUND, c_attempt := 1, c_last_addr := le_address l\<rparr>"
  have rs: "c_request_sent ?c \<le> now" "unat now < 2 ^ 52" "c_event ?c" "c_lease ?c = Some l"
    using assms(3-5) now by (auto simp: base_def ready_def word_le_nat_alt intro: order_trans)
  have bound: "base (e_clock env) h c' \<and> ready c' \<and> (0 \<le> fd \<longrightarrow> sock (c'\<lparr>c_fd := fd\<rparr>))
      \<and> base (e_clock env) h (c'\<lparr>c_fd := fd\<rparr>) \<and> ready (c'\<lparr>c_fd := fd\<rparr>)" if "timers_set ?c c'" for c' fd
  proof -
    obtain a b' x l' where c': "c' = ?c\<lparr>c_timeout_t1 := a, c_timeout_t2 := b', c_timeout_expire := x, c_lease := Some l'\<rparr>"
      "lease_ready l'" using \<open>timers_set ?c c'\<close> by (auto simp: timers_set_def)
    have f: "c'\<lparr>c_fd := fd\<rparr> = c\<lparr>c_start_delay := 0, c_timeout_resend := None, c_receive_message := None, c_fd := fd,
      c_state := DHCP_STATE_BOUND, c_attempt := 1, c_last_addr := le_address l,
      c_timeout_t1 := a, c_timeout_t2 := b', c_timeout_expire := x, c_lease := Some l'\<rparr>" for fd
      by (simp add: c'(1))
    have g: "c'\<lparr>c_fd := -1\<rparr> = c'" by (simp add: c'(1))
    show ?thesis using bound_base [OF b assms(4) c'(2) f [of fd]] bound_base [OF b assms(4) c'(2) f [of "-1"]] g by simp
  qed
  have notify: "wp (ack_fault c) (case notify_of (c_state c) ev of None \<Rightarrow> cret () | Some x \<Rightarrow> client_notify env x)
      (\<lambda>r c'. base (e_clock env) h c' \<and> (r = Inr () \<longrightarrow> sock c')) c'" if "client_inv (e_clock env) h c'" for c'
  proof (cases "notify_of (c_state c) ev")
    case (Some x)
    have "base (e_clock env) h c'" "sock c'" using that by (simp_all add: client_inv_def)
    from wp_post [OF client_notify_wp [OF e(1) assms(2) this(1)], where Q' = "\<lambda>r c'. base (e_clock env) h c' \<and> (r = Inr () \<longrightarrow> sock c')"]
      this(2) ack_fault_server Some show ?thesis by auto
  qed (use that in \<open>simp add: client_inv_def\<close>)
  have udp: "wp (ack_fault c) (cthen (client_initialize_io_events env Udp_handler)
          (case notify_of (c_state c) ev of None \<Rightarrow> cret () | Some event \<Rightarrow> client_notify env event))
      (\<lambda>r c'. base (e_clock env) h c' \<and> (r = Inr () \<longrightarrow> sock c')) (c'\<lparr>c_fd := int fd\<rparr>)" if "timers_set ?c c'" for c' fd
    unfolding wp_cthen
    by (rule wp_post [OF client_initialize_io_events_wp [OF e(1) assms(2)]])
      (use bound [OF that, of "int fd"] ack_fault_server notify in \<open>auto simp: client_inv_def\<close>)
  have set: "wp (ack_fault c) (client_set_lease_timeouts env) (\<lambda>r c'. timers_set ?c c') ?c"
    by (rule wp_post [OF client_set_lease_timeouts_wp [OF rs(3,4) assms(6) now(1) rs(1,2)]]) (simp_all add: ack_fault_def)
  show ?thesis
    unfolding client_bound_def
    by (simp add: assms(5), rule wp_mono [OF set])
      (use bound udp in \<open>auto split: sum.split\<close>)
qed

lemma client_restart_wp:
  assumes "env_ok t env" "1 \<le> h" "base t h c"
  shows "wp server_fault (client_restart env) (\<lambda>r c'. client_inv (e_clock env) h c') c"
proof -
  have b: "base (e_clock env) h (c\<lparr>c_timeout_resend := None\<rparr>)"
    using base_later [OF assms(3) env_okD(5) [OF assms(1)]] by (simp add: client_inv_defs)
  have d: "client_inv (e_clock env) h (c'\<lparr>c_start_delay := x\<rparr>)" if "client_inv (e_clock env) h c'" for c' x
    using that by (simp add: client_inv_defs)
  show ?thesis
    unfolding client_restart_def wp_cthen wp_cmodify
    by (simp add: set_timer_def, rule wp_mono [OF client_initialize_wp [OF b]])
      (auto simp: d split: sum.split intro!: wp_mono [OF client_start_delayed_wp [OF assms(1,2) inv_initialized [OF b]]])
qed

lemma offer_taken:
  assumes "base t h c" "ready c" "took_lease c c'"
    "c'' = c'\<lparr>c_timeout_resend := None, c_state := DHCP_STATE_REQUESTING, c_attempt := 1\<rparr>" "sock c" "c_state c = DHCP_STATE_SELECTING"
  shows "client_inv t h c'' \<and> ready c''"
  using assms unfolding took_lease_def by (elim exE conjE) (simp add: client_inv_defs)

lemma took_lease_base:
  assumes "base t h c" "ready c" "took_lease c c'"
  shows "base t h c'" "ready c'" "\<exists>l. c_lease c' = Some l \<and> lease_ready l" "c_request_sent c' = c_request_sent c"
proof -
  obtain l where l: "c' = c\<lparr>c_lease := Some l\<rparr>" "lease_ready l" using assms(3) by (auto simp: took_lease_def)
  show "base t h c'" "ready c'" using assms(1,2) l(2) by (simp_all add: l(1) client_inv_defs)
  show "\<exists>l. c_lease c' = Some l \<and> lease_ready l" "c_request_sent c' = c_request_sent c" using l by simp_all
qed

lemma handle_message_wp:
  assumes "env_ok t env" "1 \<le> h" "unat (c_n_ref c) < 2 ^ 32 - 1" "client_inv t h c" "ready c" "len \<le> 240 + length (msg_options m)"
  shows "wp (ack_fault c) (handle_message env m len) (\<lambda>r c'. base (e_clock env) h c' \<and> (r = Inr () \<longrightarrow> sock c')) c"
    (is "wp _ _ ?Q c")
proof -
  note e = env_okD [OF assms(1)]
  have b: "base t h c" "sock c" "c_event c" using assms(4,5) by (simp_all add: client_inv_def ready_def)
  have c: "?Q r c" for r using base_later [OF b(1) e(5)] b(2) by simp
  have req: "wp (ack_fault c) (arm_timer env Resend 0) ?Q
      (c'\<lparr>c_timeout_resend := None, c_state := DHCP_STATE_REQUESTING, c_attempt := 1\<rparr>)"
    if "c_state c = DHCP_STATE_SELECTING" "took_lease c c'" for c'
  proof -
    note o = offer_taken [OF b(1) assms(5) that(2) refl b(2) that(1)]
    show ?thesis
      by (rule wp_mono [OF arm_resend_wp [OF inv_later [OF conjunct1 [OF o] e(5)] conjunct2 [OF o]]])
        (simp add: client_inv_def)
  qed
  have offer: "wp (ack_fault c) (ctry (client_handle_offer env m len) (\<lambda>r. case r of
            Inr _ \<Rightarrow> cthen (cmodify (\<lambda>c. c\<lparr>c_timeout_resend := None, c_state := DHCP_STATE_REQUESTING, c_attempt := 1\<rparr>))
              (arm_timer env Resend 0)
          | Inl e \<Rightarrow> if e = ENOMSG then cret () else cfail e)) ?Q c" if "c_state c = DHCP_STATE_SELECTING"
    unfolding wp_ctry
    by (rule wp_post [OF client_handle_offer_wp [OF assms(6) b(1)]])
      (use c req [OF that] ack_fault_server in \<open>auto split: sum.split simp del: wp_ctry\<close>)
  have renew: "wp (ack_fault c) (ctry (client_handle_forcerenew env m len) (\<lambda>r. case r of
            Inr _ \<Rightarrow> nested (client_timeout_t1 env)
          | Inl e \<Rightarrow> if e = ENOMSG then cret () else cfail e)) ?Q c" if "c_state c = DHCP_STATE_BOUND"
  proof -
    have l: "c_lease c \<noteq> None" "0 \<le> c_fd c" "0 < c_n_ref c"
      using that b(1,2) assms(2) by (auto simp: client_inv_defs word_less_nat_alt)
    have "wpd (ack_fault c) (client_timeout_t1 env) (\<lambda>r. left (e_clock env) h) c"
      using client_timeout_t1_wpd [OF assms(1,4) l(3) assms(3,5) l(1,2)]
      by (auto simp: wpd_def ack_fault_server split: sum.splits)
    then have t1: "wpd (ack_fault c) (client_timeout_t1 env) (\<lambda>r x. case x of None \<Rightarrow> ack_fault c UseAfterFree | Some c' \<Rightarrow> ?Q r c') c"
      by (rule wpd_mono) (use assms(2) in \<open>auto simp: left_def client_inv_def split: option.splits\<close>)
    show ?thesis
      unfolding wp_ctry
      by (rule wp_mono [OF client_handle_forcerenew_wp [OF assms(6)]]) (use c t1 in \<open>auto split: sum.split\<close>)
  qed
  have restart: "wp (ack_fault c) (client_restart env) ?Q c"
    by (rule wp_post [OF client_restart_wp [OF assms(1,2) b(1)]]) (simp_all add: client_inv_def ack_fault_server)
  have bound: "wp (ack_fault c) (client_bound env ev) ?Q c'" if "took_lease c c'" for ev c'
  proof -
    note tb = took_lease_base [OF b(1) assms(5) that]
    obtain l where l: "c_lease c' = Some l" "lease_ready l" using tb(3) by blast
    show ?thesis
      by (rule wp_post [OF client_bound_wp [OF assms(1,2) tb(1,2) l]]) (use tb(4) in \<open>simp_all add: ack_fault_def\<close>)
  qed
  have ack: "wp (ack_fault c) (ctry (client_handle_ack env m len) (\<lambda>r. case r of
            Inr event \<Rightarrow> client_bound env event
          | Inl e \<Rightarrow> if e = EADDRNOTAVAIL then client_restart env else if e = ENOMSG then cret () else cfail e)) ?Q c"
    unfolding wp_ctry
    by (rule wp_post [OF client_handle_ack_wp [OF assms(6) b(1)]])
      (use c bound restart ack_fault_server in \<open>auto split: sum.split\<close>)
  show ?thesis
    unfolding handle_message_def wp_cget wp_cthen
    using b(3) c offer renew ack by (cases "c_state c") (simp_all del: wp_ctry)
qed

lemma client_handle_message_wpd:
  assumes "env_ok t env" "unat (c_n_ref c) < 2 ^ 32 - 2" "client_inv t h c" "0 < c_n_ref c" "ready c" "len \<le> 240 + length (msg_options m)"
  shows "wpd (ack_fault c) (client_handle_message env m len) (\<lambda>r. left (e_clock env) h) c"
  unfolding client_handle_message_def
proof (rule dont_destroy_wpd [OF assms(3,4)])
  let ?c = "c\<lparr>c_n_ref := c_n_ref c + 1\<rparr>"
  have s: "unat (c_n_ref c + 1) = Suc (unat (c_n_ref c))" using assms(2) by (subst unat_plus_if') simp
  have h: "unat (c_n_ref c) < 2 ^ 32 - 1" "unat (c_n_ref ?c) < 2 ^ 32 - 1" using assms(2) s by simp_all
  note r = inv_ref [OF assms(3,4) h(1)]
  have m: "wp (ack_fault c) (handle_message env m len)
      (\<lambda>r c'. base (e_clock env) (Suc h) c' \<and> (r = Inr () \<longrightarrow> sock c')) ?c"
    by (rule wp_post [OF handle_message_wp [OF assms(1) _ h(2) r(2) r(3) [OF assms(5)] assms(6)]])
      (simp_all add: ack_fault_def)
  have stop: "wp (ack_fault c) (client_stop env x) (\<lambda>r c'. r = Inr () \<and> client_inv (e_clock env) (Suc h) c') c'"
    if "base (e_clock env) (Suc h) c'" for c' x
    by (rule wp_post [OF client_stop_wp [OF env_okD(1) [OF assms(1)] _ that]]) (simp_all add: ack_fault_server)
  show "wp (ack_fault c) (ctry (handle_message env m len) (\<lambda>r. case r of
        Inl e \<Rightarrow> cthen (client_stop env (EVENT_ERROR e)) (cfail e) | Inr _ \<Rightarrow> cret ()))
      (\<lambda>r c'. client_inv (e_clock env) (Suc h) c') ?c"
    unfolding wp_ctry
    by (rule wp_mono [OF m]) (auto simp: client_inv_def split: sum.split intro!: wp_mono [OF stop])
qed (use assms(2) in \<open>simp_all add: ack_fault_server\<close>)

lemma nibbles_less: "drop_bit 4 (b :: u8) < 16" "b AND 15 < (16 :: u8)"
proof -
  have "unat b < 256" using unsigned_less [of b] by simp
  then have "unat b div 16 < 16" by linarith
  then show "drop_bit 4 b < 16" by (simp add: word_less_nat_alt drop_bit_eq_div unat_div)
  have "b AND 15 = take_bit 4 b" by (simp add: take_bit_eq_mask mask_eq_exp_minus_1)
  then have "unat (b AND 15) = unat b mod 16" by (simp add: take_bit_eq_mod unat_mod)
  then show "b AND 15 < 16" by (simp add: word_less_nat_alt)
qed

lemma packet_of_bytes_wf:
  assumes "268 \<le> length bs"
  shows "wf_packet (packet_of_bytes bs)" "length (msg_options (pkt_dhcp (packet_of_bytes bs))) = length bs - 268"
  using assms nibbles_less by (simp_all add: packet_of_bytes_def message_of_bytes_def wf_packet_def wf_message_def)

lemma receive_datagram_ok: "receive_datagram env n = Inr (Some bs) \<Longrightarrow> n \<le> length bs"
  by (auto simp: receive_datagram_def split: option.splits sum.splits if_splits)

lemma receive_keeps: "client_inv t h c \<Longrightarrow> 0 < c_n_ref c \<Longrightarrow> t \<le> t' \<Longrightarrow> left t' h (Some c)"
  by (simp add: left_def inv_later)

lemma client_receive_message_udp_wpd:
  assumes "env_ok t env" "unat (c_n_ref c) < 2 ^ 32 - 2" "client_inv t h c" "0 < c_n_ref c" "ready c"
  shows "wpd (ack_fault c) (client_receive_message_udp env) (\<lambda>r. left (e_clock env) h) c"
proof -
  note k = receive_keeps [OF assms(3,4) env_okD(5) [OF assms(1)]]
  have m: "wpd (ack_fault c) (client_handle_message env (message_of_bytes bs) (length bs)) (\<lambda>r. left (e_clock env) h) c"
    if "240 \<le> length bs" for bs
    by (rule client_handle_message_wpd [OF assms]) (use that in \<open>simp add: message_of_bytes_def\<close>)
  show ?thesis
  proof (cases "receive_datagram env 240")
    case (Inr x)
    then show ?thesis
      using k m receive_datagram_ok [of env 240]
      by (cases x) (simp_all add: client_receive_message_udp_def wpd_def Let_def)
  qed (use k in \<open>simp add: client_receive_message_udp_def wpd_def\<close>)
qed

lemma client_receive_message_raw_wpd:
  assumes "env_ok t env" "unat (c_n_ref c) < 2 ^ 32 - 2" "client_inv t h c" "0 < c_n_ref c" "ready c"
  shows "wpd (ack_fault c) (client_receive_message_raw env) (\<lambda>r. left (e_clock env) h) c"
proof -
  note k = receive_keeps [OF assms(3,4) env_okD(5) [OF assms(1)]]
  show ?thesis
  proof (cases "receive_datagram env 268")
    case (Inr x)
    then show ?thesis
    proof (cases x)
      case (Some bs)
      have l: "268 \<le> length bs" using Inr Some receive_datagram_ok by simp
      note p = packet_of_bytes_wf [OF l]
      show ?thesis
      proof (cases "dhcp_packet_verify_headers (packet_of_bytes bs) (length bs) (e_checksum env)")
        case (Inl f)
        then have "f = Errno EINVAL" using verify_headers_Inl [OF p(1) _ Inl] p(2) l by simp
        then show ?thesis using k Inl Inr Some by (simp add: client_receive_message_raw_def wpd_def)
      next
        case (Inr q)
        have "wpd (ack_fault c) (client_handle_message env (pkt_dhcp q) (length bs - 28)) (\<lambda>r. left (e_clock env) h) c"
          by (rule client_handle_message_wpd [OF assms]) (use verify_headers_Inr(5) [OF Inr] p(2) l in simp)
        then show ?thesis using \<open>receive_datagram env 268 = Inr x\<close> Some Inr
          by (simp add: client_receive_message_raw_def wpd_def)
      qed
    qed (use k Inr in \<open>simp add: client_receive_message_raw_def wpd_def\<close>)
  qed (use k in \<open>simp add: client_receive_message_raw_def wpd_def\<close>)
qed

end
