(* ===== verification/Dhcp_Client_Machine.thy ===== *)
theory Dhcp_Client_Machine
  imports Dhcp_Client_Receive
begin

text \<open>
  The client as a machine: the calls of its interface, the events that the loop delivers to it, and
  every order of them.  \<open>client_step\<close> is one event or call, \<open>reachable\<close> what they lead to from a new
  client.  The callback of the application is a parameter; it may do to the client what an application
  can do through the interface.
\<close>

section \<open>The interface of the client\<close>

lemma inv_less_refs: "client_inv t h c \<Longrightarrow> h' \<le> h \<Longrightarrow> client_inv t h' c"
  by (auto simp: client_inv_def base_def)

inductive setter :: "sd_dhcp_client \<Rightarrow> unit cm \<Rightarrow> bool" where
  "setter c (sd_dhcp_client_set_callback cb)"
| "setter c (sd_dhcp_client_set_request_broadcast b)"
| "length (c_req_opts c) < 160 \<Longrightarrow> setter c (sd_dhcp_client_set_request_option alloc opt)"
| "setter c (sd_dhcp_client_set_request_address a)"
| "setter c (sd_dhcp_client_set_index i)"
| "setter c (sd_dhcp_client_set_hostname alloc name)"
| "setter c (sd_dhcp_client_set_vendor_class_identifier alloc v)"
| "setter c (sd_dhcp_client_set_mtu mtu)"
| "setter c (sd_dhcp_client_attach_event event priority)"

definition user :: "'a cm \<Rightarrow> sd_dhcp_client \<Rightarrow> (sd_dhcp_client option \<times> (errno + 'a)) res" where
  "user m c = rbind (m c) (\<lambda>(c, r). Inr (Some c, r))"

text \<open>What a caller of the interface leaves as it was, also from inside the callback.\<close>

definition kept :: "u64 \<Rightarrow> nat \<Rightarrow> sd_dhcp_client \<Rightarrow> sd_dhcp_client \<Rightarrow> bool" where
  "kept t h c c' \<longleftrightarrow> (base t h c \<longrightarrow> base t h c') \<and> (ready c \<longrightarrow> ready c') \<and> (sock c \<longrightarrow> sock c')"

lemma kept_refl [simp]: "kept t h c c"
  by (simp add: kept_def)

lemma kept_trans: "kept t h c c' \<Longrightarrow> kept t h c' c'' \<Longrightarrow> kept t h c c''"
  by (simp add: kept_def)

lemma kept_fields [simp]:
  "kept t h c (c\<lparr>c_cb := a1\<rparr>)" "kept t h c (c\<lparr>c_request_broadcast := a2\<rparr>)"
  "kept t h c (c\<lparr>c_last_addr := a3\<rparr>)" "kept t h c (c\<lparr>c_index := a4\<rparr>)"
  "kept t h c (c\<lparr>c_vendor_class_identifier := a5\<rparr>)" "kept t h c (c\<lparr>c_hostname := a6\<rparr>)"
  "kept t h c (c\<lparr>c_event := True, c_event_priority := a7\<rparr>)" "kept t h c (c\<lparr>c_trace := a9\<rparr>)"
  "576 \<le> m \<Longrightarrow> kept t h c (c\<lparr>c_mtu := m\<rparr>)"
  "length rs \<le> 160 \<Longrightarrow> kept t h c (c\<lparr>c_req_opts := rs, c_req_opts_allocated := a8\<rparr>)"
  "c_n_ref c \<le> n \<Longrightarrow> kept t h c (c\<lparr>c_n_ref := n\<rparr>)"
  by (simp_all add: kept_def client_inv_defs word_le_nat_alt)

lemma lease_ready_refs: "lease_ready l \<Longrightarrow> 0 < n \<Longrightarrow> lease_ready (l\<lparr>le_n_ref := n\<rparr>)"
  by (simp add: lease_ready_def wf_lease_def private_view_def)

lemma kept_lease:
  "c_lease c = Some l \<Longrightarrow> 0 < n \<Longrightarrow> kept t h c (c\<lparr>c_lease := Some (l\<lparr>le_n_ref := n\<rparr>)\<rparr>)"
  using lease_ready_refs by (simp add: kept_def client_inv_defs)

lemma kept_initialize:
  assumes "client_initialize c = Inr (c', r)"
  shows "kept t h c (c'\<lparr>c_state := DHCP_STATE_STOPPED\<rparr>)"
proof -
  have "c' = initialized c"
    using assms by (cases "drop_lease (c_lease c)") (auto simp: client_initialize_def initialized_def monad_defs)
  then show ?thesis by (simp add: kept_def client_inv_defs initialized_def)
qed

lemma errno_only_concat: "errno_only (dns_name_concat alloc want a b)"
  unfolding dns_name_concat_def
  by (rule faults_in_rbind) (auto intro!: faults_in_rbind errno_only_concat_loop errno_only_grow split: option.split)

lemma set_hostname_kept: "wp F (sd_dhcp_client_set_hostname alloc n) (\<lambda>r. kept t h c) c"
  using errno_only_concat [of "\<lambda>_. True" False n None]
  by (cases "dns_name_concat (\<lambda>_. True) False n None")
    (auto simp: sd_dhcp_client_set_hostname_def is_errno_def split: option.splits)

lemma setter_kept: "setter c m \<Longrightarrow> wp F m (\<lambda>r. kept t h c) c"
  by (erule setter.cases; hypsubst)
    (simp_all add: set_hostname_kept sd_dhcp_client_set_callback_def sd_dhcp_client_set_request_broadcast_def
      sd_dhcp_client_set_request_address_def sd_dhcp_client_set_index_def sd_dhcp_client_set_mtu_def
      sd_dhcp_client_set_vendor_class_identifier_def sd_dhcp_client_attach_event_def
      sd_dhcp_client_set_request_option_def split: option.split)

text \<open>Changes of the identity, with a restart when the client is running.\<close>

lemma restart_wp:
  assumes "env_ok t env" "1 \<le> h" "base (e_clock env) h c"
    and "\<And>c. client_inv (e_clock env) h c \<Longrightarrow> client_inv (e_clock env) h (change c)"
  shows "wp server_fault (cthen (client_stop env EVENT_STOP) (cthen (cmodify change)
       (cget (\<lambda>c. if c_state c \<noteq> DHCP_STATE_STOPPED then ctry (sd_dhcp_client_start env) (\<lambda>_. cret ()) else cret ()))))
    (\<lambda>r c'. client_inv (e_clock env) h c') c"
proof -
  have s: "wp server_fault (sd_dhcp_client_start env) (\<lambda>r c'. client_inv (e_clock env) h c') c'"
    if "client_inv (e_clock env) h c'" for c'
    by (rule sd_dhcp_client_start_wp [OF assms(1,2)]) (use that in \<open>simp add: client_inv_def\<close>)
  show ?thesis
    unfolding wp_cthen
    by (rule wp_mono [OF client_stop_wp [OF env_okD(1) [OF assms(1)] assms(2,3)]])
      (auto intro!: wp_mono [OF s] assms(4))
qed

lemma restarting_wp:
  assumes "env_ok t env" "1 \<le> h" "client_inv (e_clock env) h c"
    and "\<And>c. client_inv (e_clock env) h c \<Longrightarrow> client_inv (e_clock env) h (change c)"
  shows "wp server_fault (restarting env change) (\<lambda>r c'. client_inv (e_clock env) h c') c"
proof -
  have "base (e_clock env) h c" using assms(3) by (simp add: client_inv_def)
  from restart_wp [OF assms(1,2) this assms(4)] assms(3,4) show ?thesis
    unfolding restarting_def wp_cget by (simp only: wp_if wp_cmodify) simp
qed

lemma inv_identity:
  assumes "client_inv t h c"
  shows "length m = 20 \<Longrightarrow> a = ARPHRD_ETHER \<or> a = ARPHRD_INFINIBAND \<Longrightarrow>
      client_inv t h (c\<lparr>c_mac_addr := m, c_mac_addr_len := n, c_arp_type := a\<rparr>)"
    and "length d = 134 \<Longrightarrow> l \<le> 134 \<Longrightarrow>
      client_inv t h (c\<lparr>c_client_id_type := ty, c_client_id_data := d, c_client_id_len := l\<rparr>)"
    and "length d = 134 \<Longrightarrow> client_inv t h (c\<lparr>c_client_id_type := ty, c_client_id_data := d\<rparr>)"
    and "length d = 134 \<Longrightarrow> client_inv t h (c\<lparr>c_client_id_data := d\<rparr>)"
    and "length d = 134 \<Longrightarrow> l \<le> 134 \<Longrightarrow> client_inv t h (c\<lparr>c_client_id_data := d, c_client_id_len := l\<rparr>)"
  using assms by (auto simp: client_inv_defs)

lemma inv_sizes: "client_inv t h c \<Longrightarrow> length (c_mac_addr c) = 20 \<and> length (c_client_id_data c) = 134"
  by (simp add: client_inv_def base_def config_def)

lemma sd_dhcp_client_set_mac_wpd:
  assumes "env_ok t env" "client_inv t h c" "0 < c_n_ref c" "unat (c_n_ref c) < 2 ^ 32 - 1"
  shows "wpd server_fault (sd_dhcp_client_set_mac env addr arp) (\<lambda>r. left (e_clock env) h) c"
  unfolding sd_dhcp_client_set_mac_def
proof (rule dont_destroy_wpd [OF assms(2-4)])
  let ?c = "c\<lparr>c_n_ref := c_n_ref c + 1\<rparr>"
  have i: "client_inv (e_clock env) (Suc h) ?c"
    by (rule inv_later [OF inv_ref(2) [OF assms(2-4)] env_okD(5) [OF assms(1)]])
  have r: "wp server_fault (restarting env (\<lambda>c. c\<lparr>c_mac_addr := overwrite addr (c_mac_addr c),
             c_mac_addr_len := length addr, c_arp_type := arp\<rparr>)) (\<lambda>r c'. client_inv (e_clock env) (Suc h) c') ?c"
    if "length addr \<le> 20" "arp = ARPHRD_ETHER \<or> arp = ARPHRD_INFINIBAND"
    by (rule restarting_wp [OF assms(1) _ i])
      (use that inv_sizes in \<open>auto intro!: inv_identity(1) simp: overwrite_def\<close>)
  show "wp server_fault (cget (\<lambda>c.
     cthen (assert_return (addr \<noteq> [] \<and> length addr \<le> MAX_MAC_ADDR_LEN) EINVAL)
     (cthen (assert_return (0 < arp) EINVAL)
     (cthen
       (if arp = ARPHRD_ETHER then assert_return (length addr = ETH_ALEN) EINVAL
        else if arp = ARPHRD_INFINIBAND then assert_return (length addr = INFINIBAND_ALEN) EINVAL
        else cfail EINVAL)
     (if c_mac_addr_len c = length addr \<and> take (length addr) (c_mac_addr c) = addr then cret ()
      else restarting env (\<lambda>c. c\<lparr>c_mac_addr := overwrite addr (c_mac_addr c),
             c_mac_addr_len := length addr, c_arp_type := arp\<rparr>))))))
     (\<lambda>r c'. client_inv (e_clock env) (Suc h) c') ?c"
    using i r by auto
qed simp

lemma sd_dhcp_client_set_client_id_wpd:
  assumes "env_ok t env" "client_inv t h c" "0 < c_n_ref c" "unat (c_n_ref c) < 2 ^ 32 - 1"
  shows "wpd server_fault (sd_dhcp_client_set_client_id env type data) (\<lambda>r. left (e_clock env) h) c"
  unfolding sd_dhcp_client_set_client_id_def
proof (rule dont_destroy_wpd [OF assms(2-4)])
  let ?c = "c\<lparr>c_n_ref := c_n_ref c + 1\<rparr>"
  have i: "client_inv (e_clock env) (Suc h) ?c"
    by (rule inv_later [OF inv_ref(2) [OF assms(2-4)] env_okD(5) [OF assms(1)]])
  have r: "wp server_fault (restarting env (\<lambda>c. c\<lparr>c_client_id_type := type,
             c_client_id_data := overwrite data (c_client_id_data c), c_client_id_len := length data + 1\<rparr>))
      (\<lambda>r c'. client_inv (e_clock env) (Suc h) c') ?c" if "length data \<le> 132"
    by (rule restarting_wp [OF assms(1) _ i])
      (use that inv_sizes in \<open>auto intro!: inv_identity(2) simp: overwrite_def\<close>)
  show "wp server_fault (cget (\<lambda>c.
     cthen (assert_return (data \<noteq> [] \<and> length data \<le> MAX_CLIENT_ID_LEN) EINVAL)
     (if type = ucast ARPHRD_ETHER \<and> length data \<noteq> ETH_ALEN then cfail EINVAL
      else if type = ucast ARPHRD_INFINIBAND \<and> length data \<noteq> INFINIBAND_ALEN then cfail EINVAL
      else if c_client_id_len c = length data + 1 \<and> c_client_id_type c = type
          \<and> take (length data) (c_client_id_data c) = data then cret ()
      else restarting env (\<lambda>c. c\<lparr>c_client_id_type := type,
             c_client_id_data := overwrite data (c_client_id_data c), c_client_id_len := length data + 1\<rparr>))))
     (\<lambda>r c'. client_inv (e_clock env) (Suc h) c') ?c"
    using i r by simp
qed simp

lemma sd_dhcp_client_stop_wpd:
  assumes "env_ok t env" "client_inv t h c" "0 < c_n_ref c" "unat (c_n_ref c) < 2 ^ 32 - 1"
  shows "wpd server_fault (sd_dhcp_client_stop env) (\<lambda>r. left (e_clock env) h) c"
  unfolding sd_dhcp_client_stop_def
proof (rule dont_destroy_wpd [OF assms(2-4)])
  let ?c = "c\<lparr>c_n_ref := c_n_ref c + 1\<rparr>"
  have i: "base (e_clock env) (Suc h) ?c"
    using inv_later [OF inv_ref(2) [OF assms(2-4)] env_okD(5) [OF assms(1)]] by (simp add: client_inv_def)
  have s: "client_inv (e_clock env) (Suc h) (c'\<lparr>c_state := DHCP_STATE_STOPPED\<rparr>)"
    if "client_inv (e_clock env) (Suc h) c'" "\<not> active c'" for c'
    using that by (simp add: client_inv_defs)
  show "wp server_fault (cthen (client_stop env EVENT_STOP) (cmodify (\<lambda>c. c\<lparr>c_state := DHCP_STATE_STOPPED\<rparr>)))
      (\<lambda>r c'. client_inv (e_clock env) (Suc h) c') ?c"
    unfolding wp_cthen
    by (rule wp_mono [OF client_stop_wp [OF env_okD(1) [OF assms(1)] _ i]]) (auto intro: s)
qed simp

lemma set_identity_wp:
  assumes "client_inv t h c" "length duid \<le> 129"
  shows "wp F (set_identity iaid duid) (\<lambda>r c'. client_inv t h c') c"
  using assms inv_sizes [OF assms(1)] by (auto simp: set_identity_def overwrite_def intro!: inv_identity(5))

lemma duid_wp:
  assumes "errno_only machine_id" "duid_len \<le> length duid"
  shows "wp F (if duid_len = 0 then clift (dhcp_identifier_set_duid_en machine_id)
        else
          cbind (clift (dhcp_validate_duid_len (unaligned_read_be16 255 0) (duid_len - 1))) (\<lambda>_.
          clift (if length duid < duid_len then Inl OutOfBounds else Inr (take duid_len duid))))
      (\<lambda>r c'. c' = c \<and> (\<forall>d. r = Inr d \<longrightarrow> length d \<le> 129)) c"
proof (cases "duid_len = 0")
  case True
  have "errno_only (dhcp_identifier_set_duid_en machine_id)"
    using assms(1) by (auto simp: dhcp_identifier_set_duid_en_def siphash24_HASH_KEY intro!: faults_in_rbind)
  then show ?thesis
    unfolding if_P [OF True] by (rule wp_clift_errno) (auto dest: set_duid_en_length)
qed (use assms(2) in \<open>auto simp: dhcp_validate_duid_len_def split: if_splits\<close>)

lemma sd_dhcp_client_set_iaid_duid_wpd:
  assumes "env_ok t env" "client_inv t h c" "0 < c_n_ref c" "unat (c_n_ref c) < 2 ^ 32 - 1" "duid_len \<le> length duid"
  shows "wpd server_fault (sd_dhcp_client_set_iaid_duid env iaid duid_len duid) (\<lambda>r. left (e_clock env) h) c"
  unfolding sd_dhcp_client_set_iaid_duid_def
proof (rule dont_destroy_wpd [OF assms(2-4)])
  let ?I = "client_inv (e_clock env) (Suc h)"
  let ?tail = "cget (\<lambda>c. if idle c then cret ()
        else cthen (client_stop env EVENT_STOP) (ctry (sd_dhcp_client_start env) (\<lambda>_. cret ())))"
  let ?duid = "if duid_len = 0 then clift (dhcp_identifier_set_duid_en (e_machine_id env))
        else
          cbind (clift (dhcp_validate_duid_len (unaligned_read_be16 255 0) (duid_len - 1))) (\<lambda>_.
          clift (if length duid < duid_len then Inl OutOfBounds else Inr (take duid_len duid)))"
  have i: "?I (c\<lparr>c_n_ref := c_n_ref c + 1\<rparr>)"
    by (rule inv_later [OF inv_ref(2) [OF assms(2-4)] env_okD(5) [OF assms(1)]])
  have clear: "?I (x\<lparr>c_client_id_type := ty, c_client_id_data := replicate 134 0\<rparr>)"
    "?I (x\<lparr>c_client_id_data := overwrite (unaligned_write_be32 w) (c_client_id_data x)\<rparr>)" if "?I x" for x ty w
    using inv_identity(3,4) [OF that] inv_sizes [OF that] by (simp_all add: overwrite_def)
  have start: "wp server_fault (sd_dhcp_client_start env) (\<lambda>r c'. ?I c') x" if "?I x" for x
    by (rule sd_dhcp_client_start_wp [OF assms(1)]) (use that in \<open>simp_all add: client_inv_def\<close>)
  have tail: "wp server_fault ?tail (\<lambda>r c'. ?I c') x" if "?I x" for x
  proof -
    have "base (e_clock env) (Suc h) x" using that by (simp add: client_inv_def)
    note stop = wp_mono [OF client_stop_wp [OF env_okD(1) [OF assms(1)] _ this]]
    show ?thesis using that by (auto intro!: stop wp_mono [OF start])
  qed
  have rest: "wp server_fault (cthen (set_identity w d) ?tail) (\<lambda>r c'. ?I c') x" if "?I x" "length d \<le> 129" for x w d
    unfolding wp_cthen by (rule wp_mono [OF set_identity_wp [OF that]]) (auto intro: tail simp del: wp_cget split: sum.split)
  have duid: "wp server_fault (cthen (cmodify (\<lambda>c. c\<lparr>c_client_id_data := overwrite (unaligned_write_be32 iaid) (c_client_id_data c)\<rparr>))
      (cbind ?duid (\<lambda>duid. cthen (set_identity iaid duid) ?tail))) (\<lambda>r c'. ?I c') x" if "?I x" for x iaid
    unfolding wp_cthen wp_cmodify sum.case
    by (rule wp_cbindI [OF duid_wp [OF env_okD(2) [OF assms(1)] assms(5)]])
      (use clear(2) [OF that] rest in \<open>auto simp del: wp_cthen wp_cget\<close>)
  have iaid: "wp server_fault (if iaid = 0 then clift (dhcp_identifier_set_iaid mac) else cret iaid) (\<lambda>r c'. ?I c') x"
    if "?I x" for x mac
    using set_iaid_ok [of mac] that by auto
  show "wp server_fault (cthen (cmodify (\<lambda>c. c\<lparr>c_client_id_type := 255,
       c_client_id_data := replicate sizeof_client_id_data 0\<rparr>))
     (cget (\<lambda>c.
     cbind (if iaid = 0 then clift (dhcp_identifier_set_iaid (take (c_mac_addr_len c) (c_mac_addr c)))
            else cret iaid) (\<lambda>iaid.
     cthen (cmodify (\<lambda>c. c\<lparr>c_client_id_data := overwrite (unaligned_write_be32 iaid) (c_client_id_data c)\<rparr>))
     (cbind ?duid (\<lambda>duid. cthen (set_identity iaid duid) ?tail)))))) (\<lambda>r c'. ?I c') (c\<lparr>c_n_ref := c_n_ref c + 1\<rparr>)"
    unfolding wp_cthen wp_cmodify sum.case wp_cget
    by (rule wp_cbindI [OF iaid [OF clear(1) [OF i]]]) (erule duid)
qed simp

lemma user_wpd:
  assumes "wp F m (\<lambda>r c'. client_inv t h c' \<and> 0 < c_n_ref c') c"
  shows "wpd F (user m) (\<lambda>r. left t h) c"
  using assms by (auto simp: wp_def wpd_def user_def left_def split: sum.splits)

section \<open>The machine\<close>

text \<open>
  What the application does to the client between events and inside its callback: it calls the
  setters, stops the client, and takes and drops references of its own to the client and to the lease.
\<close>

inductive api_call :: "sd_dhcp_client \<Rightarrow> sd_dhcp_client \<Rightarrow> bool" where
  api_set: "setter c m \<Longrightarrow> m c = Inr (c', r) \<Longrightarrow> api_call c c'"
| api_log: "api_call c (c\<lparr>c_trace := es\<rparr>)"
| api_stop: "client_initialize c = Inr (c', r) \<Longrightarrow> api_call c (c'\<lparr>c_state := DHCP_STATE_STOPPED\<rparr>)"
| api_ref: "c_n_ref c \<le> n \<Longrightarrow> api_call c (c\<lparr>c_n_ref := n\<rparr>)"
| api_lease_ref: "c_lease c = Some l \<Longrightarrow> 0 < n \<Longrightarrow> api_call c (c\<lparr>c_lease := Some (l\<lparr>le_n_ref := n\<rparr>)\<rparr>)"

definition application :: "dhcp_env \<Rightarrow> bool" where
  "application env \<longleftrightarrow> (\<forall>event c. \<exists>c'. e_callback env event c = Inr c' \<and> api_call\<^sup>*\<^sup>* c c')"

lemma api_call_kept: "api_call c c' \<Longrightarrow> kept t h c c'"
proof (induction rule: api_call.induct)
  case (api_set c m c' r)
  then show ?case using setter_kept [of c m "\<lambda>_. False" t h] by (simp add: wp_def)
next
  case (api_stop c c' r)
  then show ?case by (rule kept_initialize)
qed (simp_all add: kept_lease)

lemma api_calls_kept: "api_call\<^sup>*\<^sup>* c c' \<Longrightarrow> kept t h c c'"
  by (induction rule: rtranclp_induct) (auto intro: kept_trans api_call_kept)

lemma application_callback_ok: "application env \<Longrightarrow> callback_ok env"
  unfolding application_def callback_ok_def by (metis api_calls_kept kept_def)

text \<open>
  What the client relies on: a callback that goes through the interface, a machine id that can be read
  or not, and a clock that does not go back, is not the error value 0 and has not run for 140 years.
  The event loop hands out a time it has read before.
\<close>

definition host :: "u64 \<Rightarrow> dhcp_env \<Rightarrow> bool" where
  "host t env \<longleftrightarrow> application env \<and> errno_only (e_machine_id env)
     \<and> (\<exists>now. e_event_now env = Inr now \<and> t \<le> now \<and> now \<le> e_clock env \<and> now \<noteq> 0)
     \<and> unat (e_clock env) < 2 ^ 52"

lemma host_env_ok: "host t env \<Longrightarrow> env_ok t env"
  by (simp add: host_def env_ok_def application_callback_ok)

text \<open>The events of the loop and the calls of the application, each as it runs and as it returns.\<close>

inductive client_step ::
  "dhcp_env \<Rightarrow> sd_dhcp_client \<Rightarrow> (sd_dhcp_client option \<times> (errno + unit)) res \<Rightarrow> bool" for env where
  resend: "c_timeout_resend c \<noteq> None \<Longrightarrow> client_step env c (client_timeout_resend env c)"
| t1: "c_timeout_t1 c \<noteq> None \<Longrightarrow> client_step env c (client_timeout_t1 env c)"
| t2: "c_timeout_t2 c \<noteq> None \<Longrightarrow> client_step env c (client_timeout_t2 env c)"
| expire: "c_timeout_expire c \<noteq> None \<Longrightarrow> client_step env c (client_timeout_expire env c)"
| receive_raw: "c_receive_message c = Some Raw_handler \<Longrightarrow> client_step env c (client_receive_message_raw env c)"
| receive_udp: "c_receive_message c = Some Udp_handler \<Longrightarrow> client_step env c (client_receive_message_udp env c)"
| start: "client_step env c (user (sd_dhcp_client_start env) c)"
| stop: "client_step env c (sd_dhcp_client_stop env c)"
| set: "setter c m \<Longrightarrow> client_step env c (user m c)"
| set_mac: "client_step env c (sd_dhcp_client_set_mac env addr arp_type c)"
| set_client_id: "client_step env c (sd_dhcp_client_set_client_id env type data c)"
| set_iaid_duid: "duid_len \<le> length duid \<Longrightarrow>
    client_step env c (sd_dhcp_client_set_iaid_duid env iaid duid_len duid c)"
| detach_event: "\<not> active c \<Longrightarrow> client_step env c (user sd_dhcp_client_detach_event c)"
| lease_ref: "c_lease c = Some l \<Longrightarrow> 0 < n \<Longrightarrow>
    client_step env c (Inr (Some (c\<lparr>c_lease := Some (l\<lparr>le_n_ref := n\<rparr>)\<rparr>), Inr ()))"
| ref: "client_step env c (rbind (sd_dhcp_client_ref c) (\<lambda>c. Inr (Some c, Inr ())))"
| unref: "client_step env c (rbind (sd_dhcp_client_unref c) (\<lambda>c. Inr (c, Inr ())))"

inductive reachable :: "u64 \<Rightarrow> sd_dhcp_client \<Rightarrow> bool" where
  new: "sd_dhcp_client_new alloc = Inr c \<Longrightarrow> reachable t c"
| step: "reachable t c \<Longrightarrow> c_n_ref c < 0xffff0000 \<Longrightarrow> host t env \<Longrightarrow>
    client_step env c (Inr (Some c', r)) \<Longrightarrow> reachable (e_clock env) c'"

lemma armed_active:
  "c_timeout_resend c \<noteq> None \<Longrightarrow> active c" "c_timeout_t1 c \<noteq> None \<Longrightarrow> active c" "c_timeout_t2 c \<noteq> None \<Longrightarrow> active c"
  "c_receive_message c = Some f \<Longrightarrow> active c"
  by (auto simp: active_def lease_timer_def)

definition steps_ok :: "u64 \<Rightarrow> sd_dhcp_client \<Rightarrow> (sd_dhcp_client option \<times> (errno + unit)) res \<Rightarrow> bool" where
  "steps_ok t c x \<longleftrightarrow> (case x of Inl f \<Rightarrow> ack_fault c f | Inr (c', r) \<Rightarrow> left t 0 c')"

lemma steps_okI:
  "wpd server_fault m (\<lambda>r. left t 0) c \<Longrightarrow> steps_ok t c (m c)"
  "wpd (ack_fault c) m (\<lambda>r. left t 0) c \<Longrightarrow> steps_ok t c (m c)"
  by (auto simp: wpd_def steps_ok_def ack_fault_def split: sum.splits)

lemma inv_one: "client_inv t 0 c \<Longrightarrow> 0 < c_n_ref c \<Longrightarrow> client_inv t 1 c"
  by (simp add: client_inv_def base_def word_less_nat_alt)

lemma inv_positive: "client_inv t 1 c \<Longrightarrow> client_inv t 0 c \<and> 0 < c_n_ref c"
  by (simp add: client_inv_def base_def word_less_nat_alt)

lemma call_ok: "wp server_fault m (\<lambda>r c'. client_inv t 1 c') c \<Longrightarrow> steps_ok t c (user m c)"
  by (rule steps_okI(1), rule user_wpd, erule wp_mono, erule inv_positive)

lemma setter_inv:
  assumes "setter c m" "client_inv t h c"
  shows "wp F m (\<lambda>r c'. client_inv t h c') c"
  by (rule wp_mono [OF setter_kept [OF assms(1), of F t h]]) (use assms(2) in \<open>simp add: client_inv_def kept_def\<close>)

lemma detach_wp: "client_inv t h c \<Longrightarrow> \<not> active c \<Longrightarrow> wp F sd_dhcp_client_detach_event (\<lambda>r c'. client_inv t h c') c"
  by (simp add: sd_dhcp_client_detach_event_def client_inv_defs)

lemma unref_ok:
  assumes "client_inv t 1 c"
  shows "steps_ok t c (rbind (sd_dhcp_client_unref c) (\<lambda>c. Inr (c, Inr ())))"
  using inv_unref [of t 0 c, OF _ refl] assms
  by (auto simp: steps_ok_def left_def ack_fault_def server_fault_def)

lemmas step_rules =
  client_timeout_resend_wpd [THEN steps_okI(1)] client_timeout_expire_wpd [THEN steps_okI(1)]
  client_receive_message_raw_wpd [THEN steps_okI(2)] client_receive_message_udp_wpd [THEN steps_okI(2)]
  sd_dhcp_client_stop_wpd [THEN steps_okI(1)] sd_dhcp_client_set_mac_wpd [THEN steps_okI(1)]
  sd_dhcp_client_set_client_id_wpd [THEN steps_okI(1)] sd_dhcp_client_set_iaid_duid_wpd [THEN steps_okI(1)]

lemma step_ok:
  assumes "env_ok t env" "client_inv t 0 c" "0 < c_n_ref c" "c_n_ref c < 0xffff0000" "client_step env c x"
  shows "steps_ok (e_clock env) c x"
proof -
  note pre = assms(1-3)
  have n: "unat (c_n_ref c) < 2 ^ 32 - 1" "unat (c_n_ref c) < 2 ^ 32 - 2"
    using assms(4) by (simp_all add: word_less_nat_alt)
  have r: "active c \<Longrightarrow> ready c" and l: "lease_timer c \<Longrightarrow> c_lease c \<noteq> None" and s: "sock c"
    using assms(2) by (simp_all add: client_inv_def base_def)
  have now: "client_inv (e_clock env) 1 c"
    by (rule inv_later [OF inv_one [OF assms(2,3)] env_okD(5) [OF assms(1)]])
  note act = armed_active [of c, THEN r]
  from assms(5) show ?thesis
  proof cases
    case t1
    then show ?thesis
      using client_timeout_t1_wpd [OF pre n(1) act(2)] l s by (simp add: steps_okI lease_timer_def sock_def)
  next
    case t2
    then show ?thesis
      using client_timeout_t2_wpd [OF pre n(1) act(3)] l by (simp add: steps_okI lease_timer_def)
  next
    case start
    show ?thesis unfolding start
      by (rule call_ok, rule sd_dhcp_client_start_wp [OF assms(1)]) (use now in \<open>simp_all add: client_inv_def\<close>)
  next
    case ref
    show ?thesis unfolding ref using inv_ref(1) [OF now assms(3) n(1)]
        inv_positive [OF inv_less_refs [OF inv_ref(2) [OF now assms(3) n(1)]]] by (simp add: steps_ok_def left_def)
  next
    case lease_ref
    then show ?thesis using kept_lease now by (auto simp: steps_ok_def left_def kept_def client_inv_def base_def word_less_nat_alt)
  qed (use pre n act now in \<open>auto intro!: step_rules call_ok setter_inv detach_wp unref_ok\<close>)
qed

lemma new_inv: "sd_dhcp_client_new alloc = Inr c \<Longrightarrow> client_inv t 1 c"
  by (auto simp: sd_dhcp_client_new_def client_inv_defs default_req_opts_def split: if_splits)

lemma reachable_inv: "reachable t c \<Longrightarrow> client_inv t 1 c"
proof (induction rule: reachable.induct)
  case (step t c env c' r)
  from step_ok [OF host_env_ok [OF step.hyps(3)] _ _ step.hyps(2,4)] inv_positive [OF step.IH] show ?case
    by (auto simp: steps_ok_def left_def inv_one [simplified])
qed (rule new_inv)

lemma granting_host: "0 < now \<Longrightarrow> unat now < 2 ^ 52 \<Longrightarrow> t \<le> now \<Longrightarrow> host t (granting_env now)"
  by (simp add: host_def granting_env_def application_def word_neq_0_conv)

section \<open>The claims\<close>


definition fresh_client :: sd_dhcp_client where
  "fresh_client = projr (sd_dhcp_client_new (\<lambda>_. True))"

lemma fresh_client_new: "sd_dhcp_client_new (\<lambda>_. True) = Inr fresh_client"
  by (simp add: fresh_client_def sd_dhcp_client_new_def)

lemma fresh_reachable: "reachable t fresh_client"
  by (rule reachable.new [OF fresh_client_new])




end
