(* ===== verification/Dhcp_Client_Run.thy ===== *)
theory Dhcp_Client_Run
  imports Dhcp_Client_Machine
begin

text \<open>
  What the client does when the outside lets every call succeed: the exchange of DISCOVER, OFFER,
  REQUEST and ACK from the start to the bound state, and an acknowledgement that comes too early.  The
  phases are equations for one handler each; the theorems put them together.
\<close>

section \<open>An outside that lets every call succeed\<close>

definition willing :: "dhcp_env \<Rightarrow> u64 \<Rightarrow> bool" where
  "willing env now \<longleftrightarrow> grants env \<and> e_event_now env = Inr now \<and> e_clock env = now \<and> sane_clock now
     \<and> (\<forall>s. e_add_source env s = None \<and> e_set_priority env s = None \<and> e_set_description env s = None)
     \<and> e_datagram_size env = None \<and> (\<exists>fd. e_bind_raw env = Inr fd) \<and> (\<exists>fd. e_bind_udp env = Inr fd)
     \<and> (\<forall>event c. e_callback env event c = Inr c)"

lemma willing_read [simp]: "willing (env\<lparr>e_read := r\<rparr>) now = willing env now"
  by (simp add: willing_def grants_def)

lemma arm_timer_ok: "willing env now \<Longrightarrow> arm_timer env s usec c = Inr (set_timer s (Some usec) c, Inr ())"
  by (simp add: arm_timer_def willing_def monad_defs)

lemma io_events_ok:
  "willing env now \<Longrightarrow> c_event c \<Longrightarrow>
   client_initialize_io_events env h c = Inr (c\<lparr>c_receive_message := Some h\<rparr>, Inr ())"
  by (simp add: client_initialize_io_events_def willing_def monad_defs)

definition delay_end :: "u64 \<Rightarrow> u64 \<Rightarrow> u64" where
  "delay_end now delay = (if delay = 0 then 0 else now + delay)"

lemma time_events_ok:
  "willing env now \<Longrightarrow> c_event c \<Longrightarrow>
   client_initialize_time_events env c = Inr (c\<lparr>c_timeout_resend := Some (delay_end now (c_start_delay c))\<rparr>, Inr ())"
  by (simp add: client_initialize_time_events_def arm_timer_ok monad_defs set_timer_def delay_end_def) (simp add: willing_def)

lemma notify_ok:
  "willing env now \<Longrightarrow> client_notify env event c = Inr (if c_cb c then c\<lparr>c_trace := c_trace c @ [Notify event]\<rparr> else c, Inr ())"
  by (simp add: client_notify_def willing_def monad_defs)

definition referenced :: "sd_dhcp_client \<Rightarrow> bool" where
  "referenced c \<longleftrightarrow> 0 < c_n_ref c \<and> c_n_ref c < 0xffffffff"

lemma dont_destroy_ok:
  assumes "referenced c" "c_n_ref c' = c_n_ref c"
    and "m (c\<lparr>c_n_ref := c_n_ref c + 1\<rparr>) = Inr (c'\<lparr>c_n_ref := c_n_ref c + 1\<rparr>, r)"
  shows "DHCP_CLIENT_DONT_DESTROY m c = Inr (Some c', r)"
proof -
  have "unat (c_n_ref c + 1) = Suc (unat (c_n_ref c))"
    using assms(1) by (subst unat_plus_if') (simp add: referenced_def word_less_nat_alt)
  then have "\<not> c_n_ref c + 1 < 1" "\<not> c_n_ref c < 1" using assms(1) by (simp_all add: referenced_def word_less_nat_alt)
  then show ?thesis
    using assms by (simp add: referenced_def DHCP_CLIENT_DONT_DESTROY_def sd_dhcp_client_ref_def sd_dhcp_client_unref_def)
qed

section \<open>The four messages\<close>

definition configured :: "sd_dhcp_client \<Rightarrow> bool" where
  "configured c \<longleftrightarrow> c_event c \<and> 0 < c_index c
     \<and> c_arp_type c = ARPHRD_ETHER \<and> c_mac_addr_len c = ETH_ALEN \<and> length (c_mac_addr c) = MAX_MAC_ADDR_LEN
     \<and> c_client_id_len c \<noteq> 0 \<and> 576 \<le> c_mtu c \<and> hostname_sendable (c_hostname c)
     \<and> length (encode_options (discover_options c)) \<le> 295 \<and> (\<forall>t \<in> set (discover_options c). length (snd t) \<le> 255)"

definition started :: "dhcp_env \<Rightarrow> sd_dhcp_client \<Rightarrow> sd_dhcp_client" where
  "started env c = (initialized c)\<lparr>c_start_delay := 0, c_xid := e_random env 0, c_fd := int (projr (e_bind_raw env)),
     c_start_time := e_clock env, c_receive_message := Some Raw_handler, c_timeout_resend := Some 0\<rparr>"

lemma start_ok:
  assumes "willing env now" "configured c" "c_last_addr c = 0" "c_lease c = None"
  shows "sd_dhcp_client_start env c = Inr (started env c, Inr ())"
proof -
  have i: "client_initialize c = Inr (initialized c, Inr ())"
    using assms(4) by (simp add: client_initialize_def initialized_def monad_defs drop_lease_def)
  obtain fd where fd: "e_bind_raw env = Inr fd" using assms(1) by (auto simp: willing_def)
  have b: "dhcp_network_bind_raw_socket (e_bind_raw env) (c_mac_addr_len c) (c_arp_type c) = Inr fd"
    using assms(2) fd by (simp add: configured_def dhcp_network_bind_raw_socket_def)
  show ?thesis
    using assms(2,3) i b fd
    by (simp add: sd_dhcp_client_start_def client_start_def client_start_delayed_def monad_defs
      client_initialize_events_def io_events_ok [OF assms(1)] time_events_ok [OF assms(1)] delay_end_def started_def
      configured_def initialized_def)
qed

definition next_attempt :: "u32 \<Rightarrow> u32" where
  "next_attempt n = (if n < 64 then n * 2 else n)"

definition running :: "dhcp_env \<Rightarrow> sd_dhcp_client \<Rightarrow> bool" where
  "running env c \<longleftrightarrow> configured c \<and> c_start_time c \<noteq> 0 \<and> c_start_time c \<le> e_clock env"

definition retry_jitter :: "dhcp_env \<Rightarrow> u64" where
  "retry_jitter env = ucast (e_random env 0 AND 0xfffff)"

lemma running_can_send: "willing env now \<Longrightarrow> running env c \<Longrightarrow> can_send env c"
  by (simp add: can_send_def running_def willing_def configured_def)

lemmas option_defs = discover_options_def common_options_def client_id_bytes_def hostname_options_def
  all_request_options_def request_extra_def

lemma running_fields [simp]:
  "running env (c\<lparr>c_n_ref := a1\<rparr>) = running env c" "running env (c\<lparr>c_timeout_resend := a2\<rparr>) = running env c"
  "running env (c\<lparr>c_attempt := a3\<rparr>) = running env c" "running env (c\<lparr>c_state := a4\<rparr>) = running env c"
  "running env (c\<lparr>c_trace := a5\<rparr>) = running env c" "running env (c\<lparr>c_lease := a6\<rparr>) = running env c"
  by (simp_all add: running_def configured_def option_defs)

definition retry_time :: "dhcp_env \<Rightarrow> u32 \<Rightarrow> u64" where
  "retry_time env attempt = e_clock env + ucast ((attempt - 1) * 100) * USEC_PER_MSEC + retry_jitter env"

text \<open>A message as a server gets it.\<close>

definition broadcast :: "DHCPPacket \<Rightarrow> nat \<Rightarrow> u32 \<Rightarrow> u8 \<Rightarrow> (u8 \<times> u8 list) list \<Rightarrow> bool" where
  "broadcast p len xid type options \<longleftrightarrow> ip_daddr (pkt_ip p) = 0xffffffff \<and> udp_dest (pkt_udp p) = DHCP_PORT_SERVER
     \<and> msg_xid (pkt_dhcp p) = xid
     \<and> dhcp_option_parse (\<lambda>_. True) (pkt_dhcp p) (len - DHCP_IP_UDP_SIZE) (Some collect) [] = Inr (type, options, None)"

lemma resend_discover:
  assumes "willing env now" "running env c" "c_state c = DHCP_STATE_INIT \<or> c_state c = DHCP_STATE_SELECTING"
  shows "\<exists>q len. resend env c = Inr (c\<lparr>
      c_timeout_resend := Some (retry_time env (next_attempt (c_attempt c))),
      c_attempt := (if c_state c = DHCP_STATE_INIT then 1 else next_attempt (c_attempt c)),
      c_state := DHCP_STATE_SELECTING, c_trace := c_trace c @ [SendRaw q len]\<rparr>, Inr ())
    \<and> broadcast q len (c_xid c) DHCP_DISCOVER (tl (discover_options c))"
proof -
  let ?c = "c\<lparr>c_attempt := next_attempt (c_attempt c), c_timeout_resend := Some (retry_time env (next_attempt (c_attempt c)))\<rparr>"
  have r: "running env ?c" using assms(2) by simp
  then have cf: "configured ?c" by (simp add: running_def)
  have now: "e_event_now env = Inr now" "e_clock env = now" using assms(1) by (simp_all add: willing_def)
  obtain q len where q: "client_send_discover env ?c = Inr (?c\<lparr>c_trace := c_trace ?c @ [SendRaw q len]\<rparr>, Inr ())"
    by (rule client_send_discover_total [OF running_can_send [OF assms(1) r]])
      (use assms(3) cf in \<open>simp_all add: configured_def\<close>)
  have o: "discover_options (?c\<lparr>c_trace := x\<rparr>) = discover_options c" for x by (simp add: option_defs)
  have "broadcast q len (c_xid c) DHCP_DISCOVER (tl (discover_options c))"
    using discover_sent [OF q, where alloc = "\<lambda>_. True", unfolded o] assms(2)
    by (auto simp: broadcast_def running_def configured_def message_header_def)
  then show ?thesis
    using assms(3) cf q now
    by (intro exI [of _ q] exI [of _ len]) (auto simp: resend_def monad_defs backs_off_def resend_delay_def set_timer_def
      next_attempt_def arm_timer_ok [OF assms(1)] resend_message_def retry_time_def retry_jitter_def configured_def)
qed

lemma request_options_size:
  assumes "configured c" "c_state c = DHCP_STATE_REQUESTING" "c_lease c = Some l"
  shows "length (encode_options (all_request_options c)) \<le> 307"
proof -
  have "length (encode_options (common_options 3 c)) = length (encode_options (common_options 1 c))"
    by (simp add: common_options_def encode_options_def encode_option_def)
  moreover have "length (encode_options (request_extra c)) = 12"
    using assms(2,3) by (simp add: request_extra_def address_option_def encode_options_def encode_option_def)
  ultimately show ?thesis
    using assms(1) by (simp add: configured_def all_request_options_def discover_options_def length_encode_append)
qed

lemma resend_request:
  assumes "willing env now" "running env c" "c_state c = DHCP_STATE_REQUESTING" "c_lease c = Some l" "0 \<le> c_fd c"
  shows "\<exists>q len. resend env c = Inr (c\<lparr>
      c_timeout_resend := Some (retry_time env (next_attempt (c_attempt c))), c_attempt := next_attempt (c_attempt c),
      c_request_sent := now, c_trace := c_trace c @ [SendRaw q len]\<rparr>, Inr ())
    \<and> broadcast q len (c_xid c) DHCP_REQUEST (tl (all_request_options c))"
proof -
  let ?c = "c\<lparr>c_attempt := next_attempt (c_attempt c), c_timeout_resend := Some (retry_time env (next_attempt (c_attempt c)))\<rparr>"
  have r: "running env ?c" using assms(2) by simp
  then have cf: "configured ?c" by (simp add: running_def)
  have now: "e_event_now env = Inr now" "e_clock env = now" using assms(1) by (simp_all add: willing_def)
  obtain a where a: "client_send_request env ?c = Inr (?c\<lparr>c_trace := c_trace ?c @ [a]\<rparr>, Inr ())"
    by (rule client_send_request_total [OF running_can_send [OF assms(1) r]])
      (use assms(3-5) cf request_options_size [OF cf] in \<open>simp_all add: configured_def requestable_def\<close>)
  have o: "all_request_options (?c\<lparr>c_trace := x\<rparr>) = all_request_options c" for x
    using assms(3) by (simp add: option_defs)
  have l: "\<forall>t \<in> set (all_request_options c). length (snd t) \<le> 255"
    using assms(2-4) by (auto simp: running_def configured_def all_request_options_def discover_options_def
        common_options_def request_extra_def address_option_def)
  obtain q len where q: "a = SendRaw q len" "broadcast q len (c_xid c) DHCP_REQUEST (tl (all_request_options c))"
    using request_sent [OF a, where alloc = "\<lambda>_. True", unfolded o] l assms(2,3)
    by (auto simp: broadcast_def running_def configured_def message_header_def)
  show ?thesis
    using assms(3,4) cf a now q
    by (intro exI [of _ q] exI [of _ len]) (auto simp: resend_def monad_defs backs_off_def resend_delay_def set_timer_def
      next_attempt_def arm_timer_ok [OF assms(1)] resend_message_def retry_time_def retry_jitter_def configured_def)
qed

text \<open>What a server answers: a datagram that passes the checks, and the lease that is read from it.\<close>

definition answers :: "dhcp_env \<Rightarrow> sd_dhcp_client \<Rightarrow> u8 list \<Rightarrow> u8 \<Rightarrow> sd_dhcp_lease \<Rightarrow> bool" where
  "answers env c bs type lease \<longleftrightarrow> e_read env = Inr bs \<and> sizeof_DHCPPacket \<le> length bs
     \<and> (\<exists>p l. dhcp_packet_verify_headers (packet_of_bytes bs) (length bs) (e_checksum env) = Inr p
         \<and> receive_lease env (pkt_dhcp p) (length bs - DHCP_IP_UDP_SIZE) c = Inr (c, Inr (Some (type, l)))
         \<and> lease = l\<lparr>le_next_server := msg_siaddr (pkt_dhcp p), le_address := msg_yiaddr (pkt_dhcp p)\<rparr>)
     \<and> le_address lease \<noteq> 0 \<and> le_server_address lease \<noteq> 0 \<and> le_lifetime lease \<noteq> 0
     \<and> le_have_subnet_mask lease \<and> le_subnet_mask lease \<noteq> 0"

lemma receive_lease_same:
  assumes "receive_lease env m len c = Inr (c, x)" "c_client_id_len c' = c_client_id_len c"
    "client_id_bytes c' = client_id_bytes c"
  shows "receive_lease env m len c' = Inr (c', x)"
proof -
  let ?id = "\<lambda>lease. if c_client_id_len c = 0 then Inr lease
         else dhcp_lease_set_client_id (e_alloc env) (Some lease) (client_id_bytes c)"
  let ?parse = "dhcp_option_parse (e_alloc env) m len (Some (dhcp_lease_parse_options (e_alloc env) (e_zoneinfo env)))"
  consider f where "dhcp_lease_new (e_alloc env) = Inl f" | l f where "dhcp_lease_new (e_alloc env) = Inr l" "?id l = Inl f"
    | l l1 where "dhcp_lease_new (e_alloc env) = Inr l" "?id l = Inr l1"
    by (metis sum.exhaust)
  then show ?thesis
  proof cases
    case 1
    then show ?thesis using assms by (auto simp: receive_lease_def monad_defs split: fault.splits)
  next
    case 2
    then show ?thesis using assms by (auto simp: receive_lease_def monad_defs split: fault.splits)
  next
    case (3 l l1)
    then show ?thesis using assms
      by (cases "?parse l1") (auto simp: receive_lease_def monad_defs split: fault.splits)
  qed
qed

lemma receive_raw:
  assumes "willing env now" "answers env c0 bs type l"
    "c_client_id_len c = c_client_id_len c0" "client_id_bytes c = client_id_bytes c0"
  obtains p :: DHCPPacket and l0 where "client_receive_message_raw env c = client_handle_message env (pkt_dhcp p) (length bs - DHCP_IP_UDP_SIZE) c"
    "\<forall>n. receive_lease env (pkt_dhcp p) (length bs - DHCP_IP_UDP_SIZE) (c\<lparr>c_n_ref := n\<rparr>) =
       Inr (c\<lparr>c_n_ref := n\<rparr>, Inr (Some (type, l0)))"
    "l = l0\<lparr>le_next_server := msg_siaddr (pkt_dhcp p), le_address := msg_yiaddr (pkt_dhcp p)\<rparr>"
proof -
  obtain p l0 where p: "e_read env = Inr bs" "sizeof_DHCPPacket \<le> length bs"
      "dhcp_packet_verify_headers (packet_of_bytes bs) (length bs) (e_checksum env) = Inr p"
      "receive_lease env (pkt_dhcp p) (length bs - DHCP_IP_UDP_SIZE) c0 = Inr (c0, Inr (Some (type, l0)))"
      "l = l0\<lparr>le_next_server := msg_siaddr (pkt_dhcp p), le_address := msg_yiaddr (pkt_dhcp p)\<rparr>"
    using assms(2) by (auto simp: answers_def)
  have "receive_datagram env sizeof_DHCPPacket = Inr (Some bs)"
    using assms(1) p(1,2) by (simp add: receive_datagram_def willing_def grants_def)
  then have "client_receive_message_raw env c = client_handle_message env (pkt_dhcp p) (length bs - DHCP_IP_UDP_SIZE) c"
    using p(3) by (simp add: client_receive_message_raw_def)
  moreover have "receive_lease env (pkt_dhcp p) (length bs - DHCP_IP_UDP_SIZE) (c\<lparr>c_n_ref := n\<rparr>) =
       Inr (c\<lparr>c_n_ref := n\<rparr>, Inr (Some (type, l0)))" for n
    by (rule receive_lease_same [OF p(4)]) (use assms(3,4) in \<open>simp_all add: client_id_bytes_def\<close>)
  ultimately show ?thesis using that [of p l0] p(5) by blast
qed

lemma receive_offer:
  assumes "willing env now" "answers env c0 bs DHCP_OFFER l" "c_state c = DHCP_STATE_SELECTING" "c_lease c = None" "c_event c"
    "referenced c" "c_client_id_len c = c_client_id_len c0" "client_id_bytes c = client_id_bytes c0"
  shows "client_receive_message_raw env c = Inr (Some (c\<lparr>c_lease := Some l, c_timeout_resend := Some 0,
      c_state := DHCP_STATE_REQUESTING, c_attempt := 1\<rparr>), Inr ())"
proof -
  obtain p :: DHCPPacket and l0 where p: "client_receive_message_raw env c = client_handle_message env (pkt_dhcp p) (length bs - DHCP_IP_UDP_SIZE) c"
    "\<forall>n. receive_lease env (pkt_dhcp p) (length bs - DHCP_IP_UDP_SIZE) (c\<lparr>c_n_ref := n\<rparr>) =
       Inr (c\<lparr>c_n_ref := n\<rparr>, Inr (Some (DHCP_OFFER, l0)))"
    "l = l0\<lparr>le_next_server := msg_siaddr (pkt_dhcp p), le_address := msg_yiaddr (pkt_dhcp p)\<rparr>"
    by (rule receive_raw [OF assms(1,2,7,8)])
  have ok: "le_address l \<noteq> 0" "le_server_address l \<noteq> 0" "le_lifetime l \<noteq> 0" "le_have_subnet_mask l"
    using assms(2) by (simp_all add: answers_def)
  show ?thesis
    unfolding p(1) client_handle_message_def
    by (rule dont_destroy_ok [OF assms(6)])
      (use assms(3-5) ok p(2) in \<open>simp_all add: handle_message_def client_handle_offer_def monad_defs p(3) drop_lease_def
        arm_timer_ok [OF assms(1)] set_timer_def\<close>)
qed

lemma lease_timeouts_address:
  assumes "lease_timeouts rs random l = Inr (l', e, t2, t1)" shows "le_address l' = le_address l"
  using assms by (auto simp: lease_timeouts_def Let_def rbind_Inr_iff split: if_splits)

lemma lease_timeouts_set:
  assumes "willing env now" "c_event c" "c_lease c = Some l" "le_lifetime l \<noteq> 0" "c_request_sent c = now"
  shows "\<exists>a b e l'. client_set_lease_timeouts env c = Inr (c\<lparr>c_timeout_t1 := a, c_timeout_t2 := b, c_timeout_expire := e,
        c_lease := Some l'\<rparr>, Inr ())
      \<and> le_address l' = le_address l \<and> le_lifetime l' = le_lifetime l \<and> (e = None \<longleftrightarrow> le_lifetime l = 0xffffffff)"
proof (cases "le_lifetime l = 0xffffffff")
  case True
  then show ?thesis
    using assms(2-4) by (intro exI [of _ None] exI [of _ l]) (simp add: client_set_lease_timeouts_def monad_defs)
next
  case False
  have now: "e_event_now env = Inr now" "sane_clock now" using assms(1) by (simp_all add: willing_def)
  obtain l' e t2 t1 where lt: "lease_timeouts now (e_random env) l = Inr (l', e, t2, t1)" "le_lifetime l' = le_lifetime l"
    using lease_timeouts_total [OF now(2) assms(4), of "e_random env"] by blast
  let ?b = "if e \<le> now then None else Some t2" and ?a = "if e \<le> now \<or> t2 \<le> now then None else Some t1"
  show ?thesis
    using assms(2-5) False lt now(1) lease_timeouts_address [OF lt(1)]
    by (intro exI [of _ ?a] exI [of _ ?b] exI [of _ "Some e"] exI [of _ l'])
      (simp add: client_set_lease_timeouts_def monad_defs arm_timer_ok [OF assms(1)] set_timer_def)
qed

lemma receive_ack:
  assumes "willing env now" "answers env c0 bs DHCP_ACK l" "c_state c = DHCP_STATE_REQUESTING" "c_event c" "c_request_sent c = now"
    "referenced c" "c_client_id_len c = c_client_id_len c0" "client_id_bytes c = client_id_bytes c0"
    "drop_lease (c_lease c) = Inr u"
  shows "\<exists>a b e l'. client_receive_message_raw env c = Inr (Some (c\<lparr>c_timeout_t1 := a, c_timeout_t2 := b, c_timeout_expire := e,
        c_start_delay := 0, c_timeout_resend := None, c_receive_message := Some Udp_handler, c_fd := int (projr (e_bind_udp env)),
        c_state := DHCP_STATE_BOUND, c_attempt := 1, c_last_addr := le_address l, c_lease := Some l',
        c_trace := c_trace c @ (if c_cb c then [Notify EVENT_IP_ACQUIRE] else [])\<rparr>), Inr ())
      \<and> le_address l' = le_address l \<and> le_lifetime l' = le_lifetime l \<and> (e = None \<longleftrightarrow> le_lifetime l = 0xffffffff)"
proof -
  obtain p :: DHCPPacket and l0 where p: "client_receive_message_raw env c = client_handle_message env (pkt_dhcp p) (length bs - DHCP_IP_UDP_SIZE) c"
    "\<forall>n. receive_lease env (pkt_dhcp p) (length bs - DHCP_IP_UDP_SIZE) (c\<lparr>c_n_ref := n\<rparr>) =
       Inr (c\<lparr>c_n_ref := n\<rparr>, Inr (Some (DHCP_ACK, l0)))"
    "l = l0\<lparr>le_next_server := msg_siaddr (pkt_dhcp p), le_address := msg_yiaddr (pkt_dhcp p)\<rparr>"
    by (rule receive_raw [OF assms(1,2,7,8)])
  have ok: "le_address l \<noteq> 0" "le_server_address l \<noteq> 0" "le_lifetime l \<noteq> 0" "le_subnet_mask l \<noteq> 0"
    using assms(2) by (simp_all add: answers_def)
  let ?c = "c\<lparr>c_n_ref := c_n_ref c + 1, c_lease := Some l, c_start_delay := 0, c_timeout_resend := None,
     c_receive_message := None, c_fd := -1, c_state := DHCP_STATE_BOUND, c_attempt := 1, c_last_addr := le_address l\<rparr>"
  obtain a b e l' where t: "client_set_lease_timeouts env ?c =
      Inr (?c\<lparr>c_timeout_t1 := a, c_timeout_t2 := b, c_timeout_expire := e, c_lease := Some l'\<rparr>, Inr ())"
    "le_address l' = le_address l" "le_lifetime l' = le_lifetime l" "e = None \<longleftrightarrow> le_lifetime l = 0xffffffff"
    using lease_timeouts_set [OF assms(1), of ?c l] assms(4,5) ok(3) by auto
  obtain fd where fd: "e_bind_udp env = Inr fd" using assms(1) by (auto simp: willing_def)
  let ?d = "c\<lparr>c_n_ref := c_n_ref c + 1\<rparr>"
  obtain ev where ack: "client_handle_ack env (pkt_dhcp p) (length bs - DHCP_IP_UDP_SIZE) ?d = Inr (?d\<lparr>c_lease := Some l\<rparr>, Inr ev)"
    using ok p(2) assms(9) by (simp add: client_handle_ack_def monad_defs Let_def p(3))
  have bound: "client_bound env ev (?d\<lparr>c_lease := Some l\<rparr>) = Inr (?d\<lparr>c_timeout_t1 := a, c_timeout_t2 := b, c_timeout_expire := e,
        c_start_delay := 0, c_timeout_resend := None, c_receive_message := Some Udp_handler, c_fd := int (projr (e_bind_udp env)),
        c_state := DHCP_STATE_BOUND, c_attempt := 1, c_last_addr := le_address l, c_lease := Some l',
        c_trace := c_trace c @ (if c_cb c then [Notify EVENT_IP_ACQUIRE] else [])\<rparr>, Inr ())"
    using assms(3,4) t(1) fd by (simp add: client_bound_def monad_defs io_events_ok [OF assms(1)] notify_ok [OF assms(1)] notify_of_def)
  have "client_receive_message_raw env c = Inr (Some (c\<lparr>c_timeout_t1 := a, c_timeout_t2 := b, c_timeout_expire := e,
        c_start_delay := 0, c_timeout_resend := None, c_receive_message := Some Udp_handler, c_fd := int (projr (e_bind_udp env)),
        c_state := DHCP_STATE_BOUND, c_attempt := 1, c_last_addr := le_address l, c_lease := Some l',
        c_trace := c_trace c @ (if c_cb c then [Notify EVENT_IP_ACQUIRE] else [])\<rparr>), Inr ())"
    unfolding p(1) client_handle_message_def
    by (rule dont_destroy_ok [OF assms(6)])
      (use assms(3,4) ack bound in \<open>simp_all add: handle_message_def monad_defs\<close>)
  then show ?thesis using t(2-4) by blast
qed

lemma started_fields [simp]:
  "discover_options (started env c) = discover_options c" "common_options t (started env c) = common_options t c"
  "client_id_bytes (started env c) = client_id_bytes c" "c_client_id_len (started env c) = c_client_id_len c"
  "c_hostname (started env c) = c_hostname c" "c_trace (started env c) = c_trace c" "c_cb (started env c) = c_cb c"
  "c_state (started env c) = DHCP_STATE_INIT" "c_lease (started env c) = None" "c_event (started env c) = c_event c"
  "c_timeout_resend (started env c) = Some 0" "c_receive_message (started env c) = Some Raw_handler"
  "c_attempt (started env c) = 1" "c_n_ref (started env c) = c_n_ref c" "c_request_sent (started env c) = c_request_sent c" "0 \<le> c_fd (started env c)"
  by (simp_all add: started_def initialized_def option_defs)

lemma client_id_same:
  "client_id_bytes (c\<lparr>c_trace := a1\<rparr>) = client_id_bytes c" "client_id_bytes (c\<lparr>c_lease := a2\<rparr>) = client_id_bytes c"
  "client_id_bytes (c\<lparr>c_state := a3\<rparr>) = client_id_bytes c" "client_id_bytes (c\<lparr>c_attempt := a4\<rparr>) = client_id_bytes c"
  "client_id_bytes (c\<lparr>c_timeout_resend := a5\<rparr>) = client_id_bytes c" "client_id_bytes (c\<lparr>c_request_sent := a6\<rparr>) = client_id_bytes c"
  by (simp_all add: client_id_bytes_def)

lemma started_req_opts [simp]: "c_req_opts (started env c) = c_req_opts c"
  by (simp add: started_def initialized_def)

lemma started_xid: "c_xid (started env c) = e_random env 0"
  by (simp add: started_def)

lemma started_running: "willing env now \<Longrightarrow> configured c \<Longrightarrow> running env (started env c)"
  unfolding running_def configured_def started_fields
  by (auto simp: started_def initialized_def willing_def sane_clock_def)

lemma options_n_ref [simp]:
  "discover_options (c\<lparr>c_n_ref := n\<rparr>) = discover_options c" "all_request_options (c\<lparr>c_n_ref := n\<rparr>) = all_request_options c"
  by (simp_all add: option_defs split: DHCPState.split)

lemma timeout_resend_ok:
  assumes "referenced c" "resend env (c\<lparr>c_n_ref := c_n_ref c + 1\<rparr>) = Inr (c'\<lparr>c_n_ref := c_n_ref c + 1\<rparr>, Inr ())" "c_n_ref c' = c_n_ref c"
  shows "client_timeout_resend env c = Inr (Some c', Inr ())"
  unfolding client_timeout_resend_def
  by (rule dont_destroy_ok [OF assms(1,3)]) (simp add: monad_defs assms(2))

lemma timeout_discover:
  assumes "willing env now" "running env c" "referenced c" "c_state c = DHCP_STATE_INIT \<or> c_state c = DHCP_STATE_SELECTING"
  obtains q len where "client_timeout_resend env c = Inr (Some (c\<lparr>
      c_timeout_resend := Some (retry_time env (next_attempt (c_attempt c))),
      c_attempt := (if c_state c = DHCP_STATE_INIT then 1 else next_attempt (c_attempt c)),
      c_state := DHCP_STATE_SELECTING, c_trace := c_trace c @ [SendRaw q len]\<rparr>), Inr ())"
    "broadcast q len (c_xid c) DHCP_DISCOVER (tl (discover_options c))"
proof -
  from resend_discover [OF assms(1), of "c\<lparr>c_n_ref := c_n_ref c + 1\<rparr>"] assms(2,4)
  obtain q len where "resend env (c\<lparr>c_n_ref := c_n_ref c + 1\<rparr>) = Inr (c\<lparr>c_n_ref := c_n_ref c + 1,
      c_timeout_resend := Some (retry_time env (next_attempt (c_attempt c))),
      c_attempt := (if c_state c = DHCP_STATE_INIT then 1 else next_attempt (c_attempt c)),
      c_state := DHCP_STATE_SELECTING, c_trace := c_trace c @ [SendRaw q len]\<rparr>, Inr ())"
    "broadcast q len (c_xid c) DHCP_DISCOVER (tl (discover_options c))" by (auto simp del: split_paired_Ex)
  note r = this
  show ?thesis by (rule that [OF timeout_resend_ok [OF assms(3)] r(2)]) (simp_all add: r(1))
qed

lemma timeout_request:
  assumes "willing env now" "running env c" "referenced c" "c_state c = DHCP_STATE_REQUESTING" "c_lease c = Some l" "0 \<le> c_fd c"
  obtains q len where "client_timeout_resend env c = Inr (Some (c\<lparr>
      c_timeout_resend := Some (retry_time env (next_attempt (c_attempt c))), c_attempt := next_attempt (c_attempt c),
      c_request_sent := now, c_trace := c_trace c @ [SendRaw q len]\<rparr>), Inr ())"
    "broadcast q len (c_xid c) DHCP_REQUEST (tl (all_request_options c))"
proof -
  from resend_request [OF assms(1), of "c\<lparr>c_n_ref := c_n_ref c + 1\<rparr>"] assms(2,4-6)
  obtain q len where "resend env (c\<lparr>c_n_ref := c_n_ref c + 1\<rparr>) = Inr (c\<lparr>c_n_ref := c_n_ref c + 1,
      c_timeout_resend := Some (retry_time env (next_attempt (c_attempt c))), c_attempt := next_attempt (c_attempt c),
      c_request_sent := now, c_trace := c_trace c @ [SendRaw q len]\<rparr>, Inr ())"
    "broadcast q len (c_xid c) DHCP_REQUEST (tl (all_request_options c))" by auto
  note r = this
  show ?thesis by (rule that [OF timeout_resend_ok [OF assms(3)] r(2)]) (simp_all add: r(1))
qed

text \<open>What stays as it was from the start to the acknowledgement.\<close>

definition trying :: "dhcp_env \<Rightarrow> sd_dhcp_client \<Rightarrow> sd_dhcp_client \<Rightarrow> bool" where
  "trying env c x \<longleftrightarrow> running env x \<and> referenced x \<and> c_n_ref x = c_n_ref c \<and> c_event x \<and> c_client_id_len x = c_client_id_len c
     \<and> client_id_bytes x = client_id_bytes c \<and> discover_options x = discover_options c \<and> c_req_opts x = c_req_opts c
     \<and> c_hostname x = c_hostname c \<and> c_cb x = c_cb c \<and> c_receive_message x = Some Raw_handler \<and> 0 \<le> c_fd x
     \<and> c_xid x = e_random env 0"

lemma trying_fields [simp]:
  "trying env c (x\<lparr>c_timeout_resend := a1\<rparr>) = trying env c x" "trying env c (x\<lparr>c_attempt := a2\<rparr>) = trying env c x"
  "trying env c (x\<lparr>c_state := a3\<rparr>) = trying env c x" "trying env c (x\<lparr>c_trace := a4\<rparr>) = trying env c x"
  "trying env c (x\<lparr>c_lease := a5\<rparr>) = trying env c x" "trying env c (x\<lparr>c_request_sent := a6\<rparr>) = trying env c x"
  by (simp_all add: trying_def running_def configured_def option_defs referenced_def)

lemma start_trying:
  assumes "willing env now" "configured c" "referenced c" "c_last_addr c = 0" "c_lease c = None"
  obtains x where "sd_dhcp_client_start env c = Inr (x, Inr ())" "trying env c x" "c_state x = DHCP_STATE_INIT"
    "c_lease x = None" "c_timeout_resend x = Some 0" "c_trace x = c_trace c" "c_request_sent x = c_request_sent c"
proof (rule that [OF start_ok [OF assms(1,2,4,5)]])
  show "trying env c (started env c)"
    using started_running [OF assms(1,2)] assms(2,3)
    by (simp add: trying_def referenced_def configured_def started_xid)
qed simp_all

lemma discover_trying:
  assumes "willing env now" "trying env c x" "c_state x = DHCP_STATE_INIT" "c_lease x = None"
  obtains y q n where "client_timeout_resend env x = Inr (Some y, Inr ())" "trying env c y" "c_state y = DHCP_STATE_SELECTING"
    "c_lease y = None" "c_trace y = c_trace x @ [SendRaw q n]"
    "broadcast q n (e_random env 0) DHCP_DISCOVER (tl (discover_options c))" "c_request_sent y = c_request_sent x"
proof -
  have t: "running env x" "referenced x" "c_xid x = e_random env 0" "discover_options x = discover_options c"
    using assms(2) by (simp_all add: trying_def)
  from timeout_discover [OF assms(1) t(1,2)] assms(3) obtain q n where
    r: "client_timeout_resend env x = Inr (Some (x\<lparr>
      c_timeout_resend := Some (retry_time env (next_attempt (c_attempt x))),
      c_attempt := (if c_state x = DHCP_STATE_INIT then 1 else next_attempt (c_attempt x)),
      c_state := DHCP_STATE_SELECTING, c_trace := c_trace x @ [SendRaw q n]\<rparr>), Inr ())"
    "broadcast q n (c_xid x) DHCP_DISCOVER (tl (discover_options x))" by blast
  show ?thesis by (rule that [OF r(1)]) (use assms(2,4) r(2) t in simp_all)
qed

lemma offer_trying:
  assumes "willing env now" "trying env c x" "c_state x = DHCP_STATE_SELECTING" "c_lease x = None"
    "answers (env\<lparr>e_read := Inr offer\<rparr>) c offer DHCP_OFFER l"
  obtains y where "client_receive_message_raw (env\<lparr>e_read := Inr offer\<rparr>) x = Inr (Some y, Inr ())" "trying env c y"
    "c_state y = DHCP_STATE_REQUESTING" "c_lease y = Some l" "c_timeout_resend y = Some 0" "c_trace y = c_trace x"
    "c_request_sent y = c_request_sent x"
  by (rule that [OF receive_offer [OF _ assms(5), of now x]]) (use assms(1-4) in \<open>simp_all, simp_all add: trying_def\<close>)

lemma request_trying:
  assumes "willing env now" "trying env c x" "c_state x = DHCP_STATE_REQUESTING" "c_lease x = Some l"
  obtains y q n where "client_timeout_resend env x = Inr (Some y, Inr ())" "trying env c y" "c_state y = DHCP_STATE_REQUESTING"
    "c_lease y = Some l" "c_trace y = c_trace x @ [SendRaw q n]" "c_request_sent y = now"
    "broadcast q n (e_random env 0) DHCP_REQUEST (tl (common_options DHCP_REQUEST c)
        @ [(SD_DHCP_OPTION_SERVER_IDENTIFIER, unaligned_write_be32 (le_server_address l)),
           (SD_DHCP_OPTION_REQUESTED_IP_ADDRESS, unaligned_write_be32 (le_address l))]
        @ hostname_options (c_hostname c))"
proof -
  have t: "running env x" "referenced x" "0 \<le> c_fd x" "c_xid x = e_random env 0"
    using assms(2) by (simp_all add: trying_def)
  have o: "tl (all_request_options x) = tl (common_options DHCP_REQUEST c)
        @ [(SD_DHCP_OPTION_SERVER_IDENTIFIER, unaligned_write_be32 (le_server_address l)),
           (SD_DHCP_OPTION_REQUESTED_IP_ADDRESS, unaligned_write_be32 (le_address l))] @ hostname_options (c_hostname c)"
    using assms(2-4) by (simp add: all_request_options_def request_extra_def address_option_def common_options_def trying_def)
  obtain q n where r: "client_timeout_resend env x = Inr (Some (x\<lparr>
      c_timeout_resend := Some (retry_time env (next_attempt (c_attempt x))), c_attempt := next_attempt (c_attempt x),
      c_request_sent := now, c_trace := c_trace x @ [SendRaw q n]\<rparr>), Inr ())"
    "broadcast q n (c_xid x) DHCP_REQUEST (tl (all_request_options x))"
    by (rule timeout_request [OF assms(1) t(1,2) assms(3,4) t(3)])
  show ?thesis by (rule that [OF r(1)]) (use assms(2-4) r(2) t(4) o in simp_all)
qed

lemma ack_bound:
  assumes "willing env now" "trying env c x" "c_state x = DHCP_STATE_REQUESTING" "c_request_sent x = now"
    "drop_lease (c_lease x) = Inr u" "answers (env\<lparr>e_read := Inr ack\<rparr>) c ack DHCP_ACK l"
  obtains y lease where "client_receive_message_raw (env\<lparr>e_read := Inr ack\<rparr>) x = Inr (Some y, Inr ())"
    "c_state y = DHCP_STATE_BOUND" "c_lease y = Some lease" "le_address lease = le_address l"
    "c_timeout_expire y = None \<longleftrightarrow> le_lifetime l = 0xffffffff" "c_receive_message y = Some Udp_handler"
    "c_trace y = c_trace x @ (if c_cb c then [Notify EVENT_IP_ACQUIRE] else [])"
proof -
  have t: "c_event x" "referenced x" "c_client_id_len x = c_client_id_len c" "client_id_bytes x = client_id_bytes c" "c_cb x = c_cb c"
    using assms(2) by (simp_all add: trying_def)
  have w: "willing (env\<lparr>e_read := Inr ack\<rparr>) now" using assms(1) by simp
  from receive_ack [OF w assms(6,3) t(1) assms(4) t(2-4) assms(5)] obtain a b e l' where
    r: "client_receive_message_raw (env\<lparr>e_read := Inr ack\<rparr>) x = Inr (Some (x\<lparr>c_timeout_t1 := a, c_timeout_t2 := b, c_timeout_expire := e,
        c_start_delay := 0, c_timeout_resend := None, c_receive_message := Some Udp_handler,
        c_fd := int (projr (e_bind_udp (env\<lparr>e_read := Inr ack\<rparr>))),
        c_state := DHCP_STATE_BOUND, c_attempt := 1, c_last_addr := le_address l, c_lease := Some l',
        c_trace := c_trace x @ (if c_cb x then [Notify EVENT_IP_ACQUIRE] else [])\<rparr>), Inr ())"
    "le_address l' = le_address l" "e = None \<longleftrightarrow> le_lifetime l = 0xffffffff" by blast
  show ?thesis by (rule that [OF r(1), where lease = l']) (use r(2,3) t(5) in simp_all)
qed


section \<open>A server that answers\<close>

definition answer_options :: "u8 \<Rightarrow> (u8 \<times> u8 list) list" where
  "answer_options type = [(53, [type]), (54, [10, 0, 0, 1]), (51, [0, 0, 14, 16]), (1, [255, 255, 255, 0])]"

definition sample_answer :: "u8 \<Rightarrow> u8 list" where
  "sample_answer type = [0x45, 0, 1, 34, 0, 0, 0, 0, 64, 17, 111, 203, 10, 0, 0, 1, 255, 255, 255, 255,
      0, 67, 0, 68, 1, 14, 0, 0, 2, 1, 6, 0, 0, 0, 0, 7] @ replicate 8 0 @ [10, 0, 0, 9, 0, 0, 0, 0, 0, 0, 0, 0,
      2, 0, 0, 0, 0, 1] @ replicate 202 0 @ [0x63, 0x82, 0x53, 0x63] @ encode_options (answer_options type) @ [255]"

definition sample_lease :: sd_dhcp_lease where
  "sample_lease = (projr (dhcp_lease_new (\<lambda>_. True)))\<lparr>le_client_id := Some [1, 2, 0, 0, 0, 0, 1], le_client_id_len := 7,
     le_server_address := 0x0A000001, le_lifetime := 3600, le_subnet_mask := 0xFFFFFF00, le_have_subnet_mask := True\<rparr>"

lemma length_answer: "length (sample_answer t) = 290"
  by (simp add: sample_answer_def answer_options_def encode_options_def encode_option_def)

lemma answer_packet:
  "ip_bytes (pkt_ip (packet_of_bytes (sample_answer t))) = [0x45, 0, 1, 34, 0, 0, 0, 0, 64, 17, 111, 203, 10, 0, 0, 1, 255, 255, 255, 255]"
  "ip_version (pkt_ip (packet_of_bytes (sample_answer t))) = 4" "ip_ihl (pkt_ip (packet_of_bytes (sample_answer t))) = 5"
  "ip_protocol (pkt_ip (packet_of_bytes (sample_answer t))) = 17" "udp_dest (pkt_udp (packet_of_bytes (sample_answer t))) = 68"
  "udp_len (pkt_udp (packet_of_bytes (sample_answer t))) = 270" "udp_check (pkt_udp (packet_of_bytes (sample_answer t))) = 0"
  "msg_yiaddr (pkt_dhcp (packet_of_bytes (sample_answer t))) = 0x0A000009"
  "msg_siaddr (pkt_dhcp (packet_of_bytes (sample_answer t))) = 0"
  "msg_options (pkt_dhcp (packet_of_bytes (sample_answer t))) = encode_options (answer_options t) @ [255]"
  by (simp_all add: packet_of_bytes_def message_of_bytes_def sample_answer_def nth_append ip_bytes_def
      unaligned_read_be32_def unaligned_read_be16_def unaligned_write_be16_def unaligned_write_be32_def)

lemma answer_verified:
  "dhcp_packet_verify_headers (packet_of_bytes (sample_answer t)) 290 True = Inr (packet_of_bytes (sample_answer t))"
proof -
  have "rfc1071_sum (take 20 (packet_bytes (packet_of_bytes (sample_answer t)))) = 65535"
    by (simp add: packet_bytes_def answer_packet rfc1071_sum_def add16_def)
  then show ?thesis
    by (simp add: dhcp_packet_verify_headers_def answer_packet checksum_eq packet_bytes_def)
qed

lemma answer_parsed:
  assumes "t \<noteq> 0"
  shows "dhcp_option_parse alloc (pkt_dhcp (packet_of_bytes (sample_answer t))) 262 (Some (dhcp_lease_parse_options alloc z)) l =
    Inr (t, l\<lparr>le_server_address := 0x0A000001, le_lifetime := 3600, le_subnet_mask := 0xFFFFFF00, le_have_subnet_mask := True\<rparr>, None)"
proof -
  have v: "list_all valid_option (answer_options t)" by (simp add: answer_options_def valid_option_def)
  have l: "length (encode_options (answer_options t)) = 21"
    by (simp add: answer_options_def encode_options_def encode_option_def)
  have r: "run_options alloc (Some (dhcp_lease_parse_options alloc z)) True (answer_options t) st = Inr (st\<lparr>po_message_type := t,
      po_userdata := (po_userdata st)\<lparr>le_server_address := 0x0A000001, le_lifetime := 3600, le_subnet_mask := 0xFFFFFF00,
        le_have_subnet_mask := True\<rparr>\<rparr>)" for st
    by (simp add: answer_options_def parse_option_def dhcp_lease_parse_options_def ignoring_def lease_parse_u32_def
        lease_parse_be32_def unaligned_read_be32_def unaligned_read_be16_def)
  have p: "parse_options alloc (Some (dhcp_lease_parse_options alloc z)) True (encode_options (answer_options t) @ [255]) 0 st =
      run_options alloc (Some (dhcp_lease_parse_options alloc z)) True (answer_options t) st" for st
    using parse_options_encode [OF v, of _ _ _ "[]" "[]"] by simp
  show ?thesis using assms by (simp add: dhcp_option_parse_def answer_packet l p r)
qed

lemma answer_lease:
  assumes "t \<noteq> 0" "e_alloc env = (\<lambda>_. True)"
  shows "receive_lease env (pkt_dhcp (packet_of_bytes (sample_answer t))) 262 ((ethernet_client s)\<lparr>c_last_addr := a\<rparr>) =
    Inr ((ethernet_client s)\<lparr>c_last_addr := a\<rparr>, Inr (Some (t, sample_lease)))"
  using assms by (simp add: receive_lease_def monad_defs answer_parsed dhcp_lease_new_def dhcp_lease_set_client_id_def
    client_id_bytes_def ethernet_client_def sample_lease_def)

lemma sample_run:
  fixes env c lease
  defines "env \<equiv> granting_env 3000000" and "c \<equiv> (ethernet_client DHCP_STATE_INIT)\<lparr>c_last_addr := 0\<rparr>"
    and "lease \<equiv> sample_lease\<lparr>le_next_server := 0, le_address := 0x0A000009\<rparr>"
  shows "willing env 3000000" "configured c" "referenced c" "c_last_addr c = 0" "c_lease c = None"
    "t \<noteq> 0 \<Longrightarrow> answers (env\<lparr>e_read := Inr (sample_answer t)\<rparr>) c (sample_answer t) t lease"
    "drop_lease (Some lease) = Inr ()"
proof -
  show "configured c"
    by (simp add: c_def configured_def ethernet_client_def hostname_sendable_def option_defs default_req_opts_def
        encode_options_def encode_option_def)
  show "answers (env\<lparr>e_read := Inr (sample_answer t)\<rparr>) c (sample_answer t) t lease" if "t \<noteq> 0"
    using answer_lease [OF that, of "env\<lparr>e_read := Inr (sample_answer t)\<rparr>", where s = DHCP_STATE_INIT and a = 0] answer_verified [of t]
    by (auto simp: env_def c_def lease_def answers_def length_answer granting_env_def answer_packet sample_lease_def dhcp_lease_new_def)
  show "drop_lease (Some lease) = Inr ()"
    by (simp add: lease_def drop_lease_def sample_lease_def dhcp_lease_new_def sd_dhcp_lease_unref_def free_private.simps)
qed (simp_all add: env_def c_def willing_def grants_def granting_env_def sane_clock_def referenced_def ethernet_client_def)


section \<open>An acknowledgement that nobody asked for\<close>

lemma unsolicited_ack:
  assumes "willing env now" "answers env c0 bs DHCP_ACK l" "c_state c = DHCP_STATE_REQUESTING" "c_event c" "c_request_sent c = 0"
    "referenced c" "c_client_id_len c = c_client_id_len c0" "client_id_bytes c = client_id_bytes c0"
    "drop_lease (c_lease c) = Inr u" "le_lifetime l \<noteq> 0xffffffff"
  shows "client_receive_message_raw env c = Inl Abort"
proof -
  obtain p :: DHCPPacket and l0 where p: "client_receive_message_raw env c = client_handle_message env (pkt_dhcp p) (length bs - DHCP_IP_UDP_SIZE) c"
    "\<forall>n. receive_lease env (pkt_dhcp p) (length bs - DHCP_IP_UDP_SIZE) (c\<lparr>c_n_ref := n\<rparr>) =
       Inr (c\<lparr>c_n_ref := n\<rparr>, Inr (Some (DHCP_ACK, l0)))"
    "l = l0\<lparr>le_next_server := msg_siaddr (pkt_dhcp p), le_address := msg_yiaddr (pkt_dhcp p)\<rparr>"
    by (rule receive_raw [OF assms(1,2,7,8)])
  have ok: "le_address l \<noteq> 0" "le_server_address l \<noteq> 0" "le_lifetime l \<noteq> 0" "le_subnet_mask l \<noteq> 0"
    using assms(2) by (simp_all add: answers_def)
  let ?d = "c\<lparr>c_n_ref := c_n_ref c + 1\<rparr>"
  obtain ev where ack: "client_handle_ack env (pkt_dhcp p) (length bs - DHCP_IP_UDP_SIZE) ?d = Inr (?d\<lparr>c_lease := Some l\<rparr>, Inr ev)"
    using ok p(2) assms(9) by (simp add: client_handle_ack_def monad_defs Let_def p(3))
  have "lease_timeouts 0 (e_random env) l = Inl Abort"
    by (simp add: lease_timeouts_def client_compute_timeout_def Let_def)
  moreover have "e_event_now env = Inr now" using assms(1) by (simp add: willing_def)
  ultimately have bound: "client_bound env ev (?d\<lparr>c_lease := Some l\<rparr>) = Inl Abort"
    using assms(4,5,10) ok(3) by (simp add: client_bound_def client_set_lease_timeouts_def monad_defs)
  have "\<not> c_n_ref c < 1" using assms(6) by (simp add: referenced_def word_less_nat_alt)
  then show ?thesis
    unfolding p(1) client_handle_message_def
    using assms(3,4) ack bound by (simp add: DHCP_CLIENT_DONT_DESTROY_def sd_dhcp_client_ref_def handle_message_def monad_defs)
qed

text \<open>
  C33. A server that acknowledges a lease before the client has asked for it makes the client abort:
  after the offer the request waits for the next timeout, and an acknowledgement that arrives earlier
  is taken, although the time of the request, from which the lease is timed, is still unset.
\<close>

theorem early_ack_aborts:
  assumes "willing env now" "configured c" "referenced c" "c_last_addr c = 0" "c_lease c = None" "c_request_sent c = 0"
    and "answers (env\<lparr>e_read := Inr offer\<rparr>) c offer DHCP_OFFER l" "drop_lease (Some l) = Inr u"
    and "answers (env\<lparr>e_read := Inr ack\<rparr>) c ack DHCP_ACK l'" "le_lifetime l' \<noteq> 0xffffffff"
  shows "\<exists>c1 c2 c3. sd_dhcp_client_start env c = Inr (c1, Inr ())
    \<and> client_timeout_resend env c1 = Inr (Some c2, Inr ())
    \<and> client_receive_message_raw (env\<lparr>e_read := Inr offer\<rparr>) c2 = Inr (Some c3, Inr ())
    \<and> c_receive_message c3 = Some Raw_handler
    \<and> client_receive_message_raw (env\<lparr>e_read := Inr ack\<rparr>) c3 = Inl Abort"
proof -
  obtain c1 where 1: "sd_dhcp_client_start env c = Inr (c1, Inr ())" "trying env c c1" "c_state c1 = DHCP_STATE_INIT"
    "c_lease c1 = None" "c_request_sent c1 = 0"
    by (rule start_trying [OF assms(1-5)]) (simp add: assms(6))
  obtain c2 where 2: "client_timeout_resend env c1 = Inr (Some c2, Inr ())" "trying env c c2" "c_state c2 = DHCP_STATE_SELECTING"
    "c_lease c2 = None" "c_request_sent c2 = 0"
    by (rule discover_trying [OF assms(1) 1(2-4)]) (simp add: 1(5))
  obtain c3 where 3: "client_receive_message_raw (env\<lparr>e_read := Inr offer\<rparr>) c2 = Inr (Some c3, Inr ())" "trying env c c3"
    "c_state c3 = DHCP_STATE_REQUESTING" "c_lease c3 = Some l" "c_request_sent c3 = 0"
    by (rule offer_trying [OF assms(1) 2(2-4) assms(7)]) (simp add: 2(5))
  have t: "c_event c3" "referenced c3" "c_client_id_len c3 = c_client_id_len c" "client_id_bytes c3 = client_id_bytes c"
      "c_receive_message c3 = Some Raw_handler"
    using 3(2) by (simp_all add: trying_def)
  have "client_receive_message_raw (env\<lparr>e_read := Inr ack\<rparr>) c3 = Inl Abort"
    by (rule unsolicited_ack [OF _ assms(9) 3(3) t(1) 3(5) t(2-4) _ assms(10)]) (use assms(1,8) 3(4) in simp_all)
  then show ?thesis using 1(1) 2(1) 3(1) t(5) by blast
qed

theorem early_ack_aborts_witness:
  "let env = granting_env 3000000; c = (ethernet_client DHCP_STATE_INIT)\<lparr>c_last_addr := 0\<rparr>
   in \<exists>c1 c2 c3. sd_dhcp_client_start env c = Inr (c1, Inr ())
      \<and> client_timeout_resend env c1 = Inr (Some c2, Inr ())
      \<and> client_receive_message_raw (env\<lparr>e_read := Inr (sample_answer 2)\<rparr>) c2 = Inr (Some c3, Inr ())
      \<and> client_receive_message_raw (env\<lparr>e_read := Inr (sample_answer 5)\<rparr>) c3 = Inl Abort"
  unfolding Let_def
  using early_ack_aborts [OF sample_run(1-5) _ sample_run(6) [of 2] sample_run(7) sample_run(6) [of 5]]
  by (fastforce simp: ethernet_client_def sample_lease_def dhcp_lease_new_def)

end
