(* ===== verification/Dhcp_Client_Retry.thy ===== *)
theory Dhcp_Client_Retry
  imports Dhcp_Client_Run
begin

text \<open>
  What the client does when the outside lets every call succeed, but the server is silent or refuses:
  the times of the retries and the restart after a refusal.
\<close>

section \<open>Waiting for an answer\<close>

text \<open>Timeouts in a row, each with the outside it meets.\<close>

fun resend_all :: "dhcp_env list \<Rightarrow> sd_dhcp_client \<Rightarrow> (sd_dhcp_client option \<times> (errno + unit)) res" where
  "resend_all [] c = Inr (Some c, Inr ())"
| "resend_all (env # envs) c =
     rbind (client_timeout_resend env c) (\<lambda>(c, r). case c of None \<Rightarrow> Inr (None, r) | Some c \<Rightarrow> resend_all envs c)"

lemma next_attempt_power:
  assumes "unat a = 2 ^ min 6 k" shows "unat (next_attempt a) = 2 ^ min 6 (Suc k)"
proof (cases "k < 6")
  case True
  then have "unat a < 2 ^ 6" using assms by (simp only: power_strict_increasing_iff)
  moreover from this have "unat (a * 2) = unat a * 2" by (subst unat_mult_lem [THEN iffD1]) simp_all
  moreover have "min 6 (Suc k) = Suc (min 6 k)" using True by simp
  ultimately show ?thesis using assms by (simp only: next_attempt_def word_less_nat_alt) simp
qed (use assms in \<open>simp add: next_attempt_def word_less_nat_alt min_def\<close>)

lemma unat_ucast_u32: "unat (ucast (w :: u32) :: u64) = unat w"
  using unat_u32_less [of w] by (simp add: unsigned_ucast_eq take_bit_nat_eq_self)

lemma unat_msec: "unat ((ucast (w :: u32) :: u64) * 1000) = unat w * 1000"
  using unat_u32_less [of w] by (subst unat_mult_lem [THEN iffD1]) (simp_all add: unat_ucast_u32)

lemma retry_jitter_less: "unat (retry_jitter env) < 2 ^ 20"
proof -
  have "e_random env 0 AND 0xfffff = take_bit 20 (e_random env 0)" by (simp add: take_bit_eq_mask mask_eq_exp_minus_1)
  then show ?thesis using take_bit_nat_less_exp [of 20 "unat (e_random env 0)"] by (simp add: retry_jitter_def unat_ucast_u32 unsigned_take_bit_eq)
qed

lemma unat_sum3: "unat a + unat b + unat c < 2 ^ 64 \<Longrightarrow> unat (a + b + c :: u64) = unat a + unat b + unat c"
  by (simp add: unat_plus_if')

lemma retry_time_eq:
  assumes "sane_clock (e_clock env)" "unat a = 2 ^ k" "k \<le> 6"
  shows "unat (retry_time env a) = unat (e_clock env) + (2 ^ k - 1) * 100000 + unat (retry_jitter env)"
proof -
  have p: "(2 :: nat) ^ k \<le> 2 ^ 6" using assms(3) by (intro power_increasing) simp_all
  have "1 \<le> a" using assms(2) by (simp add: word_le_nat_alt)
  then have "unat (a - 1) = 2 ^ k - 1" using assms(2) by (simp add: unat_sub)
  then have "unat ((a - 1) * 100) = (2 ^ k - 1) * 100"
    using p by (subst unat_mult_lem [THEN iffD1]) simp_all
  then have "unat ((ucast ((a - 1) * 100) :: u64) * 1000) = (2 ^ k - 1) * 100000"
    by (simp only: unat_msec)
  moreover from p have "((2 :: nat) ^ k - 1) * 100000 \<le> 63 * 100000" by simp
  ultimately show ?thesis
    using assms(1) retry_jitter_less [of env] unfolding retry_time_def
    by (subst unat_sum3) (simp_all add: sane_clock_def word_less_nat_alt)
qed

lemma discover_again:
  assumes "willing env (e_clock env)" "running env c" "referenced c" "c_state c = DHCP_STATE_SELECTING"
    "unat (c_attempt c) = 2 ^ min 6 k"
  obtains c' p len where "client_timeout_resend env c = Inr (Some c', Inr ())" "c_state c' = DHCP_STATE_SELECTING"
    "c_trace c' = c_trace c @ [SendRaw p len]" "broadcast p len (c_xid c) DHCP_DISCOVER (tl (discover_options c))"
    "unat (c_attempt c') = 2 ^ min 6 (Suc k)"
    "c_timeout_resend c' = Some (of_nat (unat (e_clock env) + (2 ^ min 6 (Suc k) - 1) * 100000 + unat (retry_jitter env)))"
    "referenced c'" "c_xid c' = c_xid c" "discover_options c' = discover_options c" "\<forall>e. running e c' = running e c"
proof -
  obtain p len where r: "client_timeout_resend env c = Inr (Some (c\<lparr>
      c_timeout_resend := Some (retry_time env (next_attempt (c_attempt c))),
      c_attempt := (if c_state c = DHCP_STATE_INIT then 1 else next_attempt (c_attempt c)),
      c_state := DHCP_STATE_SELECTING, c_trace := c_trace c @ [SendRaw p len]\<rparr>), Inr ())"
      "broadcast p len (c_xid c) DHCP_DISCOVER (tl (discover_options c))"
    by (rule timeout_discover [OF assms(1-3)]) (simp_all add: assms(4))
  have k: "unat (next_attempt (c_attempt c)) = 2 ^ min 6 (Suc k)" by (rule next_attempt_power [OF assms(5)])
  have "sane_clock (e_clock env)" using assms(1) by (simp add: willing_def)
  note eq = retry_time_eq [OF this k]
  have "retry_time env (next_attempt (c_attempt c)) = of_nat (unat (retry_time env (next_attempt (c_attempt c))))" by simp
  also have "\<dots> = of_nat (unat (e_clock env) + (2 ^ min 6 (Suc k) - 1) * 100000 + unat (retry_jitter env))"
    by (subst eq) simp_all
  finally have t: "retry_time env (next_attempt (c_attempt c)) =
      of_nat (unat (e_clock env) + (2 ^ min 6 (Suc k) - 1) * 100000 + unat (retry_jitter env))" .
  show ?thesis
    by (rule that [OF r(1)]) (use assms(3,4) r(2) k t in \<open>simp_all add: referenced_def option_defs\<close>)
qed

text \<open>
  C34. While no server answers, every timeout sends one DISCOVER and sets the next one: after \<open>k\<close> of
  them the client waits 2 to the power of \<open>k\<close>, at most 64, less one, tenths of a second, and up to
  1.05 seconds of jitter.  So it never stops asking and never waits longer than 7.35 seconds.
\<close>

theorem discover_backs_off:
  assumes "c_state c = DHCP_STATE_SELECTING" "referenced c" "unat (c_attempt c) = 2 ^ min 6 k"
    and "\<forall>env \<in> set (envs @ [env]). willing env (e_clock env) \<and> running env c"
  shows "\<exists>c' sent. resend_all (envs @ [env]) c = Inr (Some c', Inr ()) \<and> c_state c' = DHCP_STATE_SELECTING
    \<and> c_trace c' = c_trace c @ map (\<lambda>(p, len). SendRaw p len) sent \<and> length sent = Suc (length envs)
    \<and> (\<forall>(p, len) \<in> set sent. broadcast p len (c_xid c) DHCP_DISCOVER (tl (discover_options c)))
    \<and> unat (c_attempt c') = 2 ^ min 6 (k + Suc (length envs))
    \<and> c_timeout_resend c' = Some (of_nat (unat (e_clock env) + (2 ^ min 6 (k + Suc (length envs)) - 1) * 100000 + unat (retry_jitter env)))
    \<and> unat (retry_jitter env) < 2 ^ 20"
  using assms
proof (induction envs arbitrary: c k)
  case Nil
  then have w: "willing env (e_clock env)" "running env c" by simp_all
  obtain c' p len where "client_timeout_resend env c = Inr (Some c', Inr ())" "c_state c' = DHCP_STATE_SELECTING"
    "c_trace c' = c_trace c @ [SendRaw p len]" "broadcast p len (c_xid c) DHCP_DISCOVER (tl (discover_options c))"
    "unat (c_attempt c') = 2 ^ min 6 (Suc k)"
    "c_timeout_resend c' = Some (of_nat (unat (e_clock env) + (2 ^ min 6 (Suc k) - 1) * 100000 + unat (retry_jitter env)))"
    by (rule discover_again [OF w Nil(2,1,3)])
  then show ?case using retry_jitter_less [of env]
    by (intro exI [of _ c'] exI [of _ "[(p, len)]"]) simp
next
  case (Cons e envs)
  have w: "willing e (e_clock e)" "running e c" using Cons.prems by simp_all
  obtain c1 p len where 1: "client_timeout_resend e c = Inr (Some c1, Inr ())" "c_state c1 = DHCP_STATE_SELECTING"
    "c_trace c1 = c_trace c @ [SendRaw p len]" "broadcast p len (c_xid c) DHCP_DISCOVER (tl (discover_options c))"
    "unat (c_attempt c1) = 2 ^ min 6 (Suc k)"
    "referenced c1" "c_xid c1 = c_xid c" "discover_options c1 = discover_options c" "\<forall>e. running e c1 = running e c"
    by (rule discover_again [OF w Cons.prems(2,1,3)])
  have "\<forall>x \<in> set (envs @ [env]). willing x (e_clock x) \<and> running x c1" using Cons.prems(4) 1(9) by simp
  from Cons.IH [OF 1(2,6,5) this] obtain c' sent where
    2: "resend_all (envs @ [env]) c1 = Inr (Some c', Inr ())" "c_state c' = DHCP_STATE_SELECTING"
    "c_trace c' = c_trace c1 @ map (\<lambda>(p, len). SendRaw p len) sent" "length sent = Suc (length envs)"
    "\<forall>(p, len) \<in> set sent. broadcast p len (c_xid c) DHCP_DISCOVER (tl (discover_options c))"
    "unat (c_attempt c') = 2 ^ min 6 (Suc k + Suc (length envs))"
    "c_timeout_resend c' = Some (of_nat (unat (e_clock env) + (2 ^ min 6 (Suc k + Suc (length envs)) - 1) * 100000 + unat (retry_jitter env)))"
    unfolding 1(7,8) by blast
  show ?case
    using 1(1,3,4) 2 retry_jitter_less [of env]
    by (intro exI [of _ c'] exI [of _ "(p, len) # sent"]) simp
qed

theorem discover_backs_off_witness:
  "\<exists>c'. resend_all [granting_env 3000000, granting_env 4000000] (ethernet_client DHCP_STATE_SELECTING) = Inr (Some c', Inr ())
    \<and> c_state c' = DHCP_STATE_SELECTING \<and> c_attempt c' = 4 \<and> c_timeout_resend c' = Some 4300007"
proof -
  have w: "willing (granting_env now) now" if "sane_clock now" for now
    using that by (simp add: willing_def grants_def granting_env_def)
  have s: "sane_clock 3000000" "sane_clock 4000000" by (simp_all add: sane_clock_def)
  have r: "running (granting_env now) (ethernet_client DHCP_STATE_SELECTING)" if "1000000 \<le> now" for now
    using that by (simp add: running_def configured_def ethernet_client_def hostname_sendable_def option_defs default_req_opts_def
        encode_options_def encode_option_def address_option_def granting_env_def)
  have j: "retry_jitter (granting_env 4000000) = 7" "e_clock (granting_env now) = now" for now
    by (simp_all add: retry_jitter_def granting_env_def)
  have c: "referenced (ethernet_client DHCP_STATE_SELECTING)" "c_attempt (ethernet_client DHCP_STATE_SELECTING) = 1"
    by (simp_all add: referenced_def ethernet_client_def)
  obtain c' where "resend_all ([granting_env 3000000] @ [granting_env 4000000]) (ethernet_client DHCP_STATE_SELECTING) = Inr (Some c', Inr ())"
    "c_state c' = DHCP_STATE_SELECTING" "unat (c_attempt c') = 4" "c_timeout_resend c' = Some 4300007"
    using discover_backs_off [of "ethernet_client DHCP_STATE_SELECTING" 0 "[granting_env 3000000]" "granting_env 4000000"]
      w s r j c by (auto simp del: resend_all.simps)
  moreover have "c_attempt c' = of_nat (unat (c_attempt c'))" by simp
  ultimately show ?thesis by (auto simp del: resend_all.simps of_nat_unat)
qed

section \<open>A refusal\<close>

lemma start_delayed_ok:
  assumes "willing env now" "c_event c" "0 < c_index c" "c_fd c = -1" "c_xid c = 0" "c_state c = DHCP_STATE_INIT"
    "c_arp_type c = ARPHRD_ETHER" "c_mac_addr_len c = ETH_ALEN" "e_bind_raw env = Inr fd"
  shows "client_start_delayed env c = Inr (c\<lparr>c_xid := e_random env 0, c_fd := int fd, c_start_time := now,
     c_receive_message := Some Raw_handler, c_timeout_resend := Some (delay_end now (c_start_delay c))\<rparr>, Inr ())"
proof -
  have "e_clock env = now" using assms(1) by (simp add: willing_def)
  then show ?thesis
    using assms(2-9) by (simp add: client_start_delayed_def monad_defs dhcp_network_bind_raw_socket_def
      client_initialize_events_def io_events_ok [OF assms(1)] time_events_ok [OF assms(1)])
qed

lemma clamp_double:
  assumes "d \<in> {0, 500000, 1000000, 2000000}"
  shows "CLAMP (d * 2) 500000 2000000 = (if d = 0 then 500000 else min (2 * d) 2000000)"
  using assms by (auto simp: CLAMP_def)

text \<open>
  C35. A refusal by the server gives the address up and starts again from the beginning: the lease is
  dropped, the client goes back to INIT on a new socket, and its first DISCOVER waits for the back-off
  of refusals.  The back-off is nothing at first, then half a second, and doubles up to two seconds.
\<close>

theorem nak_restarts:
  assumes "willing env now" "configured c" "referenced c"
    and "c_state c \<in> {DHCP_STATE_REBOOTING, DHCP_STATE_REQUESTING, DHCP_STATE_RENEWING, DHCP_STATE_REBINDING}"
    and "receive_lease env m len c = Inr (c, Inr (Some (DHCP_NAK, l)))" "drop_lease (Some l) = Inr u"
    and "drop_lease (c_lease c) = Inr v" "c_start_delay c \<in> {0, 500000, 1000000, 2000000}"
  shows "\<exists>c'. client_handle_message env m len c = Inr (Some c', Inr ())
    \<and> c_state c' = DHCP_STATE_INIT \<and> c_lease c' = None \<and> c_receive_message c' = Some Raw_handler
    \<and> c_timeout_t1 c' = None \<and> c_timeout_t2 c' = None \<and> c_timeout_expire c' = None
    \<and> c_timeout_resend c' = Some (if c_start_delay c = 0 then 0 else now + c_start_delay c)
    \<and> c_start_delay c' = (if c_start_delay c = 0 then 500000 else min (2 * c_start_delay c) 2000000)
    \<and> c_trace c' = c_trace c"
proof -
  let ?d = "c\<lparr>c_n_ref := c_n_ref c + 1\<rparr>"
  obtain fd where fd: "e_bind_raw env = Inr fd" using assms(1) by (auto simp: willing_def)
  have cf: "c_event c" "0 < c_index c" "c_arp_type c = ARPHRD_ETHER" "c_mac_addr_len c = ETH_ALEN"
    using assms(2) by (simp_all add: configured_def)
  have "receive_lease env m len ?d = Inr (?d, Inr (Some (DHCP_NAK, l)))"
    by (rule receive_lease_same [OF assms(5)]) (simp_all add: client_id_bytes_def)
  then have ack: "client_handle_ack env m len ?d = Inr (?d, Inl EADDRNOTAVAIL)"
    using assms(6) by (simp add: client_handle_ack_def ignore_message_def monad_defs)
  have init: "client_initialize (?d\<lparr>c_timeout_resend := None\<rparr>) = Inr (initialized ?d, Inr ())"
    using assms(7) by (simp add: client_initialize_def initialized_def monad_defs)
  let ?e = "(initialized c)\<lparr>c_xid := e_random env 0, c_fd := int fd, c_start_time := now,
     c_receive_message := Some Raw_handler, c_timeout_resend := Some (delay_end now (c_start_delay c)),
     c_start_delay := CLAMP (c_start_delay c * 2) 500000 2000000\<rparr>"
  have restart: "client_restart env ?d = Inr (?e\<lparr>c_n_ref := c_n_ref c + 1\<rparr>, Inr ())"
    using init start_delayed_ok [OF assms(1), of "initialized ?d" fd] cf fd
    by (simp add: client_restart_def monad_defs set_timer_def initialized_def)
  have "client_handle_message env m len c = Inr (Some ?e, Inr ())"
    unfolding client_handle_message_def
    by (rule dont_destroy_ok [OF assms(3)])
      (use assms(4) cf(1) ack restart in \<open>auto simp: handle_message_def monad_defs initialized_def\<close>)
  then show ?thesis
    using clamp_double [OF assms(8)] by (simp add: initialized_def delay_end_def)
qed

lemma sample_lease_drop: "drop_lease (Some sample_lease) = Inr ()"
  by (simp add: drop_lease_def sample_lease_def dhcp_lease_new_def sd_dhcp_lease_unref_def free_private.simps)

theorem nak_restarts_witness:
  "\<exists>c'. client_handle_message (granting_env 3000000) (pkt_dhcp (packet_of_bytes (sample_answer 6))) 262
      (ethernet_client DHCP_STATE_REQUESTING) = Inr (Some c', Inr ())
    \<and> c_state c' = DHCP_STATE_INIT \<and> c_timeout_resend c' = Some 0 \<and> c_start_delay c' = 500000"
proof -
  let ?c = "ethernet_client DHCP_STATE_REQUESTING"
  have w: "willing (granting_env 3000000) 3000000"
    by (simp add: willing_def grants_def granting_env_def sane_clock_def)
  have cf: "configured ?c"
    by (simp add: configured_def ethernet_client_def hostname_sendable_def option_defs default_req_opts_def
        encode_options_def encode_option_def address_option_def)
  have c: "?c\<lparr>c_last_addr := 0xC0A80064\<rparr> = ?c" "referenced ?c" "drop_lease (c_lease ?c) = Inr ()" "c_start_delay ?c = 0"
    by (simp_all add: ethernet_client_def referenced_def drop_lease_def)
  have "receive_lease (granting_env 3000000) (pkt_dhcp (packet_of_bytes (sample_answer 6))) 262 ?c = Inr (?c, Inr (Some (6, sample_lease)))"
    using answer_lease [of 6 "granting_env 3000000", where s = DHCP_STATE_REQUESTING and a = "0xC0A80064"] c(1) by (simp add: granting_env_def)
  from nak_restarts [OF w cf c(2) _ this sample_lease_drop c(3)] c(4) show ?thesis by auto
qed

section \<open>The lease the application gets\<close>

text \<open>
  C36. The application gets a lease exactly in the states BOUND, RENEWING and REBINDING, and then it is
  a well-formed one with an address, a server and a lifetime; otherwise it gets the errno
  EADDRNOTAVAIL.
\<close>

theorem get_lease_ready:
  assumes "reachable t c"
  shows "if c_state c \<in> {DHCP_STATE_BOUND, DHCP_STATE_RENEWING, DHCP_STATE_REBINDING}
    then \<exists>l. sd_dhcp_client_get_lease c = Inr (c, Inr (Some l)) \<and> wf_lease l
       \<and> le_address l \<noteq> 0 \<and> le_server_address l \<noteq> 0 \<and> le_lifetime l \<noteq> 0
    else sd_dhcp_client_get_lease c = Inr (c, Inl EADDRNOTAVAIL)"
proof -
  have "(c_state c \<in> {DHCP_STATE_BOUND, DHCP_STATE_RENEWING, DHCP_STATE_REBINDING} \<longrightarrow> c_lease c \<noteq> None)
      \<and> (\<forall>l. c_lease c = Some l \<longrightarrow> lease_ready l)"
    using reachable_inv [OF assms] by (auto simp: client_inv_def base_def has_lease_def)
  then show ?thesis
    by (cases "c_lease c") (simp_all add: sd_dhcp_client_get_lease_def monad_defs lease_ready_def)
qed

text \<open>A client that is set up, started and answered.\<close>

lemma step_now:
  assumes "reachable 3000000 c" "c_n_ref c = 1" "client_step env c (Inr (Some c', r))"
    "e_callback env = e_callback (granting_env 3000000)" "e_machine_id env = Inr (replicate 16 1)"
    "e_event_now env = Inr 3000000" "e_clock env = 3000000"
  shows "reachable 3000000 c'"
proof -
  have "host 3000000 env"
    using assms(4-7) by (simp add: host_def application_def granting_env_def)
  from reachable.step [OF assms(1) _ this assms(3)] assms(2,7) show ?thesis by simp
qed


definition set_up_client :: sd_dhcp_client where
  "set_up_client = fresh_client\<lparr>c_event := True, c_event_priority := 0, c_index := 2,
     c_mac_addr := [2, 0, 0, 0, 0, 1] @ replicate 14 0, c_mac_addr_len := 6, c_arp_type := 1,
     c_client_id_type := 1, c_client_id_data := [2, 0, 0, 0, 0, 1] @ replicate 128 0, c_client_id_len := 7\<rparr>"

lemma set_up_reachable: "reachable 3000000 set_up_client"
proof -
  let ?env = "granting_env 3000000"
  let ?c1 = "fresh_client\<lparr>c_event := True, c_event_priority := 0\<rparr>" let ?c2 = "?c1\<lparr>c_index := 2\<rparr>"
  let ?c3 = "?c2\<lparr>c_mac_addr := [2, 0, 0, 0, 0, 1] @ replicate 14 0, c_mac_addr_len := 6, c_arp_type := 1\<rparr>"
  have e: "e_callback ?env = e_callback (granting_env 3000000)" "e_machine_id ?env = Inr (replicate 16 1)"
    "e_event_now ?env = Inr 3000000" "e_clock ?env = 3000000" by (simp_all add: granting_env_def)
  have f: "c_n_ref fresh_client = 1" "c_event fresh_client = False" "c_state fresh_client = DHCP_STATE_INIT"
    by (simp_all add: fresh_client_def sd_dhcp_client_new_def)
  note d = fresh_client_def sd_dhcp_client_new_def
  have six: "Suc (Suc (Suc (Suc (Suc (Suc 0))))) = 6" "Suc 6 = 7" by simp_all
  have 1: "client_step ?env fresh_client (Inr (Some ?c1, Inr ()))"
    using client_step.set [OF setter.intros(9), of ?env fresh_client None 0]
    by (simp add: user_def sd_dhcp_client_attach_event_def monad_defs d)
  have 2: "client_step ?env ?c1 (Inr (Some ?c2, Inr ()))"
    using client_step.set [OF setter.intros(5), of ?env ?c1 2]
    by (simp add: user_def sd_dhcp_client_set_index_def monad_defs idle_def d)
  have 3: "client_step ?env ?c2 (Inr (Some ?c3, Inr ()))"
    using client_step.set_mac [of ?env ?c2 "[2, 0, 0, 0, 0, 1]" 1]
    by (simp add: sd_dhcp_client_set_mac_def DHCP_CLIENT_DONT_DESTROY_def sd_dhcp_client_ref_def sd_dhcp_client_unref_def
        restarting_def overwrite_def monad_defs idle_def d six)
  have 4: "client_step ?env ?c3 (Inr (Some set_up_client, Inr ()))"
    using client_step.set_client_id [of ?env ?c3 1 "[2, 0, 0, 0, 0, 1]"]
    by (simp add: sd_dhcp_client_set_client_id_def DHCP_CLIENT_DONT_DESTROY_def sd_dhcp_client_ref_def sd_dhcp_client_unref_def
        restarting_def overwrite_def monad_defs idle_def d set_up_client_def six)
  note r1 = step_now [OF fresh_reachable f(1) 1 e]
  note r2 = step_now [OF r1 _ 2 e]
  note r3 = step_now [OF r2 _ 3 e]
  show ?thesis by (rule step_now [OF r3 _ 4 e]) (simp_all add: f)
qed

lemma set_up_answers:
  assumes "t \<noteq> 0"
  shows "answers ((granting_env 3000000)\<lparr>e_read := Inr (sample_answer t)\<rparr>) set_up_client (sample_answer t) t
    (sample_lease\<lparr>le_next_server := 0, le_address := 0x0A000009\<rparr>)"
proof -
  have "client_id_bytes set_up_client = [1, 2, 0, 0, 0, 0, 1]"
    by (simp add: client_id_bytes_def set_up_client_def)
  moreover have "client_id_bytes ((ethernet_client DHCP_STATE_INIT)\<lparr>c_last_addr := 0\<rparr>) = [1, 2, 0, 0, 0, 0, 1]"
      "c_client_id_len ((ethernet_client DHCP_STATE_INIT)\<lparr>c_last_addr := 0\<rparr>) = 7" "c_client_id_len set_up_client = 7"
    by (simp_all add: client_id_bytes_def ethernet_client_def set_up_client_def)
  ultimately show ?thesis
    using sample_run(6) [OF assms] receive_lease_same unfolding answers_def by metis
qed

lemma bound_reachable:
  obtains c where "reachable 3000000 c" "c_state c = DHCP_STATE_BOUND"
proof -
  let ?env = "granting_env 3000000" let ?e = "\<lambda>t. ?env\<lparr>e_read := Inr (sample_answer t)\<rparr>"
  have e: "e_callback (?e t) = e_callback (granting_env 3000000)" "e_machine_id (?e t) = Inr (replicate 16 1)"
    "e_event_now (?e t) = Inr 3000000" "e_clock (?e t) = 3000000"
    "e_callback ?env = e_callback (granting_env 3000000)" "e_machine_id ?env = Inr (replicate 16 1)"
    "e_event_now ?env = Inr 3000000" "e_clock ?env = 3000000" for t by (simp_all add: granting_env_def)
  have cf: "configured set_up_client" "referenced set_up_client" "c_last_addr set_up_client = 0" "c_lease set_up_client = None"
    by (simp_all add: configured_def set_up_client_def fresh_client_def sd_dhcp_client_new_def hostname_sendable_def option_defs
        default_req_opts_def encode_options_def encode_option_def referenced_def)
  note w = sample_run(1)
  have two: "(2 :: u8) \<noteq> 0" "(5 :: u8) \<noteq> 0" by simp_all
  let ?l = "sample_lease\<lparr>le_next_server := 0, le_address := 0x0A000009\<rparr>"
  obtain c1 where 1: "sd_dhcp_client_start ?env set_up_client = Inr (c1, Inr ())" "trying ?env set_up_client c1"
    "c_state c1 = DHCP_STATE_INIT" "c_lease c1 = None" "c_timeout_resend c1 = Some 0"
    by (rule start_trying [OF w cf])
  obtain c2 where 2: "client_timeout_resend ?env c1 = Inr (Some c2, Inr ())" "trying ?env set_up_client c2"
    "c_state c2 = DHCP_STATE_SELECTING" "c_lease c2 = None"
    by (rule discover_trying [OF w 1(2-4)])
  obtain c3 where 3: "client_receive_message_raw (?e 2) c2 = Inr (Some c3, Inr ())" "trying ?env set_up_client c3"
    "c_state c3 = DHCP_STATE_REQUESTING" "c_lease c3 = Some ?l" "c_timeout_resend c3 = Some 0"
    by (rule offer_trying [OF w 2(2-4) set_up_answers [OF two(1)]])
  obtain c4 where 4: "client_timeout_resend ?env c3 = Inr (Some c4, Inr ())" "trying ?env set_up_client c4"
    "c_state c4 = DHCP_STATE_REQUESTING" "c_lease c4 = Some ?l" "c_request_sent c4 = 3000000"
    by (rule request_trying [OF w 3(2-4)])
  obtain c5 where 5: "client_receive_message_raw (?e 5) c4 = Inr (Some c5, Inr ())" "c_state c5 = DHCP_STATE_BOUND"
    by (rule ack_bound [OF w 4(2,3,5) _ set_up_answers [OF two(2)]]) (simp_all add: 4(4) sample_run(7))
  have raw: "c_receive_message c2 = Some Raw_handler" "c_receive_message c4 = Some Raw_handler"
    using 2(2) 4(2) by (simp_all add: trying_def)
  have s: "client_step ?env set_up_client (Inr (Some c1, Inr ()))" "client_step ?env c1 (Inr (Some c2, Inr ()))"
    "client_step (?e 2) c2 (Inr (Some c3, Inr ()))" "client_step ?env c3 (Inr (Some c4, Inr ()))"
    "client_step (?e 5) c4 (Inr (Some c5, Inr ()))"
    using client_step.start [of ?env set_up_client] client_step.resend [of c1 ?env] client_step.receive_raw [of c2 "?e 2"]
      client_step.resend [of c3 ?env] client_step.receive_raw [of c4 "?e 5"] 1(1,5) 2(1) 3(1,5) 4(1) 5(1) raw
    by (simp_all add: user_def)
  have n: "c_n_ref c1 = 1" "c_n_ref c2 = 1" "c_n_ref c3 = 1" "c_n_ref c4 = 1"
    using 1(2) 2(2) 3(2) 4(2) by (simp_all add: trying_def set_up_client_def fresh_client_def sd_dhcp_client_new_def)
  have "reachable 3000000 c5"
    by (rule step_now [OF step_now [OF step_now [OF step_now [OF step_now [OF set_up_reachable _ s(1) e(5-8)] n(1) s(2) e(5-8)]
      n(2) s(3) e(1-4)] n(3) s(4) e(5-8)] n(4) s(5) e(1-4)]) (simp add: set_up_client_def fresh_client_def sd_dhcp_client_new_def)
  then show ?thesis using that 5(2) by blast
qed

theorem get_lease_ready_witness:
  "\<exists>c l. reachable 3000000 c \<and> sd_dhcp_client_get_lease c = Inr (c, Inr (Some l)) \<and> le_address l \<noteq> 0"
proof -
  obtain c where c: "reachable 3000000 c" "c_state c = DHCP_STATE_BOUND" by (rule bound_reachable)
  show ?thesis using get_lease_ready [OF c(1)] c by auto
qed

end
