(* ===== verification/Prioq.thy ===== *)
theory Prioq
  imports Prelude "HOL-Library.Multiset"
begin

text \<open>
  The priority queue of \<open>basic/prioq.c\<close>: an array of pointers kept as a binary heap, in which every
  entry can name a variable of its owner that the queue keeps equal to the entry's position.  The
  event loop keeps its timers in such queues and the netlink library its timeouts.

  An entry is the address of an object of the caller; the comparison function looks the object up, so
  the store of the caller is part of the comparison that is passed to the operations (in the code the
  function pointer is a field that never changes).  \<open>pq_items\<close> is the part of the array that has been
  written: the first \<open>pq_n_items\<close> entries are in the queue, the ones behind it are stale.  \<open>pq_cells\<close>
  are the index variables, by their addresses.  A queue that is \<open>NULL\<close> is \<open>None\<close>.  The arithmetic of
  \<open>unsigned\<close> is written out modulo \<open>2 ^ 32\<close>; a comparison may fail an assertion of its own.

  The second half is the theory of sifting: in the locale \<open>comparison\<close>, whose laws are what an order
  has to satisfy, moving an entry up or down ends, never fails an assertion, keeps the entries and the
  index variables, and turns a heap with one misplaced entry into a heap.
\<close>

section \<open>Data\<close>

record 'a prioq_item =
  it_data :: 'a
  it_idx :: "nat option"

record 'a Prioq =
  pq_n_items :: nat
  pq_n_allocated :: nat
  pq_items :: "'a prioq_item list"
  pq_cells :: "nat \<Rightarrow> nat"

type_synonym 'a compare_func = "'a \<Rightarrow> 'a \<Rightarrow> int res"

abbreviation (input) PRIOQ_IDX_NULL :: nat where "PRIOQ_IDX_NULL \<equiv> 2 ^ 32 - 1"

abbreviation item_at :: "'a Prioq \<Rightarrow> nat \<Rightarrow> 'a" where
  "item_at q i \<equiv> it_data (pq_items q ! i)"

text \<open>Writing through an index pointer, if the entry has one.\<close>

definition point_at :: "nat option \<Rightarrow> nat \<Rightarrow> (nat \<Rightarrow> nat) \<Rightarrow> nat \<Rightarrow> nat" where
  "point_at idx k cells = (case idx of None \<Rightarrow> cells | Some p \<Rightarrow> cells(p := k))"

section \<open>Operations\<close>

definition prioq_new :: "alloc \<Rightarrow> (nat \<Rightarrow> nat) \<Rightarrow> 'a Prioq option" where
  "prioq_new alloc cells =
     (if alloc 24 then Some \<lparr>pq_n_items = 0, pq_n_allocated = 0, pq_items = [], pq_cells = cells\<rparr> else None)"

definition prioq_free :: "'a Prioq option \<Rightarrow> 'a Prioq option" where
  "prioq_free q = None"

definition prioq_ensure_allocated :: "alloc \<Rightarrow> (nat \<Rightarrow> nat) \<Rightarrow> 'a Prioq option \<Rightarrow> 'a Prioq option res" where
  "prioq_ensure_allocated alloc cells q =
     (case q of
        Some q \<Rightarrow> Inr (Some q)
      | None \<Rightarrow> (case prioq_new alloc cells of None \<Rightarrow> Inl (Errno ENOMEM) | Some q \<Rightarrow> Inr (Some q)))"

definition prioq_swap :: "'a Prioq \<Rightarrow> nat \<Rightarrow> nat \<Rightarrow> 'a Prioq res" where
  "prioq_swap q j k =
     (if \<not> j < pq_n_items q \<or> \<not> k < pq_n_items q then Inl Abort
      else
        (let x = pq_items q ! j; y = pq_items q ! k in
         if \<not> (case it_idx x of None \<Rightarrow> True | Some p \<Rightarrow> pq_cells q p = j) then Inl Abort
         else if \<not> (case it_idx y of None \<Rightarrow> True | Some p \<Rightarrow> pq_cells q p = k) then Inl Abort
         else Inr (q\<lparr>pq_items := (pq_items q)[j := y, k := x],
                     pq_cells := point_at (it_idx x) k (point_at (it_idx y) j (pq_cells q))\<rparr>)))"

text \<open>Exchanging an entry with its parent until the parent is not greater.\<close>

function shuffle_up :: "'a compare_func \<Rightarrow> 'a Prioq \<Rightarrow> nat \<Rightarrow> ('a Prioq \<times> nat) res" where
  "shuffle_up compare q idx =
     (if 0 < idx then
        (let k = (idx - 1) div 2 in
         if length (pq_items q) \<le> idx then Inl OutOfBounds
         else rbind (compare (item_at q k) (item_at q idx)) (\<lambda>r.
           if r \<le> 0 then Inr (q, idx)
           else rbind (prioq_swap q idx k) (\<lambda>q. shuffle_up compare q k)))
      else Inr (q, idx))"
  by pat_completeness auto
termination
  by (relation "measure (\<lambda>(compare, q, idx). idx)") auto

declare shuffle_up.simps [simp del]

text \<open>Exchanging an entry with the smaller of its children until neither is smaller.\<close>

definition smallest :: "'a compare_func \<Rightarrow> 'a Prioq \<Rightarrow> nat \<Rightarrow> nat \<Rightarrow> nat \<Rightarrow> nat res" where
  "smallest compare q idx j k =
     rbind (compare (item_at q j) (item_at q idx)) (\<lambda>r.
     let s = (if r < 0 then j else idx) in
     if k < pq_n_items q then
       rbind (compare (item_at q k) (item_at q s)) (\<lambda>r. Inr (if r < 0 then k else s))
     else Inr s)"

partial_function (option) shuffle_down ::
  "'a compare_func \<Rightarrow> 'a Prioq \<Rightarrow> nat \<Rightarrow> ('a Prioq \<times> nat) res option" where
  "shuffle_down compare q idx =
     (let k = (idx + 1) * 2 mod 2 ^ 32; j = (k + (2 ^ 32 - 1)) mod 2 ^ 32 in
      if pq_n_items q \<le> j then Some (Inr (q, idx))
      else if length (pq_items q) \<le> idx then Some (Inl OutOfBounds)
      else (case smallest compare q idx j k of
          Inl f \<Rightarrow> Some (Inl f)
        | Inr s \<Rightarrow>
            if s = idx then Some (Inr (q, idx))
            else (case prioq_swap q idx s of
                Inl f \<Rightarrow> Some (Inl f)
              | Inr q \<Rightarrow> shuffle_down compare q s)))"

definition shuffle :: "'a compare_func \<Rightarrow> 'a Prioq \<Rightarrow> nat \<Rightarrow> ('a Prioq \<times> nat) res" where
  "shuffle compare q k =
     (case shuffle_down compare q k of
        None \<Rightarrow> Inl Diverges
      | Some r \<Rightarrow> rbind r (\<lambda>(q, k). shuffle_up compare q k))"

text \<open>
  The array doubles when it is full.  A slot that has never been written reads as out of bounds.
\<close>

definition prioq_grow :: "alloc \<Rightarrow> 'a Prioq \<Rightarrow> 'a Prioq res" where
  "prioq_grow alloc q =
     (if pq_n_allocated q \<le> pq_n_items q then
        (let n = max ((pq_n_items q + 1) * 2 mod 2 ^ 32) 16 in
         if \<not> alloc (16 * n) then Inl (Errno ENOMEM)
         else Inr (q\<lparr>pq_items := take n (pq_items q), pq_n_allocated := n\<rparr>))
      else Inr q)"

definition prioq_put ::
  "alloc \<Rightarrow> 'a compare_func \<Rightarrow> 'a Prioq option \<Rightarrow> 'a \<Rightarrow> nat option \<Rightarrow> 'a Prioq option res" where
  "prioq_put alloc compare q data idx =
     (case q of None \<Rightarrow> Inl Abort | Some q \<Rightarrow>
        rbind (prioq_grow alloc q) (\<lambda>q.
        let k = pq_n_items q; i = \<lparr>it_data = data, it_idx = idx\<rparr> in
        if pq_n_allocated q \<le> k \<or> length (pq_items q) < k then Inl OutOfBounds
        else
          rbind (shuffle_up compare
            (q\<lparr>pq_n_items := (k + 1) mod 2 ^ 32,
               pq_items := (if k < length (pq_items q) then (pq_items q)[k := i] else pq_items q @ [i]),
               pq_cells := point_at idx k (pq_cells q)\<rparr>) k) (\<lambda>(q, _). Inr (Some q))))"

definition remove_item :: "'a compare_func \<Rightarrow> 'a Prioq \<Rightarrow> nat \<Rightarrow> 'a Prioq res" where
  "remove_item compare q k =
     (if pq_n_items q = 0 then Inl OutOfBounds
      else
        (let l = pq_n_items q - 1; x = pq_items q ! l in
         if k = l then Inr (q\<lparr>pq_n_items := l\<rparr>)
         else
           rbind (shuffle compare
             (q\<lparr>pq_items := (pq_items q)[k := x], pq_cells := point_at (it_idx x) k (pq_cells q), pq_n_items := l\<rparr>) k)
             (\<lambda>(q, _). Inr q)))"

text \<open>
  With an index pointer the entry is looked up where the variable says; the test against \<open>n_items\<close>
  is the one of the code, which lets the index one past the last entry through.
\<close>

definition find_item :: "'a Prioq \<Rightarrow> 'a \<Rightarrow> nat option \<Rightarrow> nat option res" where
  "find_item q data idx =
     (case idx of
        Some p \<Rightarrow>
          (let v = pq_cells q p in
           if v = PRIOQ_IDX_NULL \<or> pq_n_items q < v then Inr None
           else if length (pq_items q) \<le> v then Inl OutOfBounds
           else if item_at q v \<noteq> data then Inr None
           else Inr (Some v))
      | None \<Rightarrow> Inr (find (\<lambda>i. item_at q i = data) [0..<pq_n_items q]))"

definition prioq_remove ::
  "'a compare_func \<Rightarrow> 'a Prioq option \<Rightarrow> 'a \<Rightarrow> nat option \<Rightarrow> ('a Prioq option \<times> bool) res" where
  "prioq_remove compare q data idx =
     (case q of None \<Rightarrow> Inr (None, False) | Some q \<Rightarrow>
        rbind (find_item q data idx) (\<lambda>i. case i of
          None \<Rightarrow> Inr (Some q, False)
        | Some k \<Rightarrow> rbind (remove_item compare q k) (\<lambda>q. Inr (Some q, True))))"

definition prioq_reshuffle ::
  "'a compare_func \<Rightarrow> 'a Prioq option \<Rightarrow> 'a \<Rightarrow> nat option \<Rightarrow> ('a Prioq option \<times> bool) res" where
  "prioq_reshuffle compare q data idx =
     (case q of None \<Rightarrow> Inl Abort | Some q \<Rightarrow>
        rbind (find_item q data idx) (\<lambda>i. case i of
          None \<Rightarrow> Inr (Some q, False)
        | Some k \<Rightarrow> rbind (shuffle compare q k) (\<lambda>(q, _). Inr (Some q, True))))"

definition prioq_peek :: "'a Prioq option \<Rightarrow> 'a option" where
  "prioq_peek q =
     (case q of None \<Rightarrow> None | Some q \<Rightarrow> if pq_n_items q = 0 then None else Some (item_at q 0))"

definition prioq_pop :: "'a compare_func \<Rightarrow> 'a Prioq option \<Rightarrow> ('a Prioq option \<times> 'a option) res" where
  "prioq_pop compare q =
     (case q of None \<Rightarrow> Inr (None, None) | Some q \<Rightarrow>
        if pq_n_items q = 0 then Inr (Some q, None)
        else
          (let data = item_at q 0 in
           rbind (remove_item compare q 0) (\<lambda>q. Inr (Some q, Some data))))"

definition prioq_size :: "'a Prioq option \<Rightarrow> nat" where
  "prioq_size q = (case q of None \<Rightarrow> 0 | Some q \<Rightarrow> pq_n_items q)"

definition prioq_isempty :: "'a Prioq option \<Rightarrow> bool" where
  "prioq_isempty q \<longleftrightarrow> (case q of None \<Rightarrow> True | Some q \<Rightarrow> pq_n_items q = 0)"

section \<open>Contents and shape\<close>

text \<open>The entries in the queue, as items and as the multiset of what they point to.\<close>

definition live :: "'a Prioq \<Rightarrow> 'a prioq_item list" where
  "live q = take (pq_n_items q) (pq_items q)"

definition contents :: "'a Prioq \<Rightarrow> 'a multiset" where
  "contents q = mset (map it_data (live q))"

definition shape :: "'a Prioq \<Rightarrow> bool" where
  "shape q \<longleftrightarrow> pq_n_items q \<le> length (pq_items q) \<and> length (pq_items q) \<le> pq_n_allocated q \<and> pq_n_items q < 2 ^ 31"

definition indexed :: "'a Prioq \<Rightarrow> bool" where
  "indexed q \<longleftrightarrow> (\<forall>i < pq_n_items q. \<forall>p. it_idx (pq_items q ! i) = Some p \<longrightarrow> pq_cells q p = i)"

text \<open>What reordering the live items leaves as it is.\<close>

definition sifted :: "'a Prioq \<Rightarrow> 'a Prioq \<Rightarrow> bool" where
  "sifted q q' \<longleftrightarrow> pq_n_items q' = pq_n_items q \<and> pq_n_allocated q' = pq_n_allocated q
     \<and> length (pq_items q') = length (pq_items q) \<and> mset (live q') = mset (live q)
     \<and> (\<forall>p. Some p \<notin> it_idx ` set (live q) \<longrightarrow> pq_cells q' p = pq_cells q p)"

lemma sifted_refl [simp]: "sifted q q"
  by (simp add: sifted_def)

lemma sifted_live: "sifted q q' \<Longrightarrow> set (live q') = set (live q)"
  by (metis sifted_def set_mset_mset)

lemma sifted_trans: "sifted q q' \<Longrightarrow> sifted q' q'' \<Longrightarrow> sifted q q''"
  using sifted_live [of q q'] by (simp add: sifted_def)

lemma sifted_contents: "sifted q q' \<Longrightarrow> contents q' = contents q"
  by (simp add: sifted_def contents_def)

lemma sifted_shape: "sifted q q' \<Longrightarrow> shape q \<Longrightarrow> shape q'"
  by (simp add: sifted_def shape_def)

lemma mset_take_swap:
  "j < n \<Longrightarrow> k < n \<Longrightarrow> n \<le> length xs \<Longrightarrow> mset (take n (xs[j := xs ! k, k := xs ! j])) = mset (take n xs)"
  using mset_swap [of k "take n xs" j] by (simp add: take_update_swap)

lemma swap_ok:
  assumes "shape q" "indexed q" "j < pq_n_items q" "k < pq_n_items q" "j \<noteq> k"
  obtains q' where "prioq_swap q j k = Inr q'" "sifted q q'" "indexed q'" "item_at q' j = item_at q k" "item_at q' k = item_at q j"
    "\<forall>i. i \<noteq> j \<and> i \<noteq> k \<longrightarrow> item_at q' i = item_at q i"
proof -
  let ?x = "pq_items q ! j" and ?y = "pq_items q ! k"
  let ?q = "q\<lparr>pq_items := (pq_items q)[j := ?y, k := ?x],
      pq_cells := point_at (it_idx ?x) k (point_at (it_idx ?y) j (pq_cells q))\<rparr>"
  have l: "j < length (pq_items q)" "k < length (pq_items q)" using assms(1,3,4) by (simp_all add: shape_def)
  have "prioq_swap q j k = Inr ?q"
    using assms(2-4) by (simp add: prioq_swap_def indexed_def Let_def split: option.split)
  moreover have "mset (live ?q) = mset (live q)"
    using assms(1,3,4) by (simp add: live_def shape_def mset_take_swap)
  moreover have "pq_cells ?q p = pq_cells q p" if "Some p \<notin> it_idx ` set (live q)" for p
  proof -
    have "?x \<in> set (live q)" "?y \<in> set (live q)" using assms(1,3,4) by (auto simp: live_def shape_def in_set_conv_nth)
    then have "it_idx ?x \<noteq> Some p" "it_idx ?y \<noteq> Some p" using that by (metis imageI)+
    then show ?thesis by (auto simp: point_at_def split: option.split)
  qed
  moreover have "indexed ?q"
    unfolding indexed_def
  proof (intro allI impI)
    fix i p assume i: "i < pq_n_items ?q" "it_idx (pq_items ?q ! i) = Some p"
    have d: "it_idx (pq_items q ! a) = Some p \<Longrightarrow> a < pq_n_items q \<Longrightarrow> pq_cells q p = a" for a
      using assms(2) by (simp add: indexed_def)
    from i d [of j] d [of k] d [of i] assms(3-5) l show "pq_cells ?q p = i"
      by (cases "i = j"; cases "i = k") (auto simp: point_at_def nth_list_update split: option.split)
  qed
  ultimately show ?thesis
    using that [of ?q] l assms(5) by (simp add: sifted_def)
qed

section \<open>The heap\<close>

definition le :: "'a compare_func \<Rightarrow> 'a \<Rightarrow> 'a \<Rightarrow> bool" where
  "le compare a b \<longleftrightarrow> (\<exists>r. compare a b = Inr r \<and> r \<le> 0)"

abbreviation parent :: "nat \<Rightarrow> nat" where
  "parent i \<equiv> (i - 1) div 2"

definition heap :: "'a compare_func \<Rightarrow> 'a Prioq \<Rightarrow> bool" where
  "heap compare q \<longleftrightarrow> (\<forall>i < pq_n_items q. 0 < i \<longrightarrow> le compare (item_at q (parent i)) (item_at q i))"

text \<open>
  A heap but for the item at \<open>i\<close>: while it moves up only the edge to its parent may be wrong, while it
  moves down also those to its children.
\<close>

definition under :: "'a compare_func \<Rightarrow> 'a Prioq \<Rightarrow> nat \<Rightarrow> bool" where
  "under compare q i \<longleftrightarrow> (0 < i \<longrightarrow> (\<forall>c < pq_n_items q. 0 < c \<and> parent c = i \<longrightarrow> le compare (item_at q (parent i)) (item_at q c)))"

definition heap_up :: "'a compare_func \<Rightarrow> 'a Prioq \<Rightarrow> nat \<Rightarrow> bool" where
  "heap_up compare q i \<longleftrightarrow> under compare q i
     \<and> (\<forall>c < pq_n_items q. 0 < c \<and> c \<noteq> i \<longrightarrow> le compare (item_at q (parent c)) (item_at q c))"

definition heap_down :: "'a compare_func \<Rightarrow> 'a Prioq \<Rightarrow> nat \<Rightarrow> bool" where
  "heap_down compare q i \<longleftrightarrow> under compare q i
     \<and> (\<forall>c < pq_n_items q. 0 < c \<and> c \<noteq> i \<and> parent c \<noteq> i \<longrightarrow> le compare (item_at q (parent c)) (item_at q c))"

definition all_items :: "('a \<Rightarrow> bool) \<Rightarrow> 'a Prioq \<Rightarrow> bool" where
  "all_items P q \<longleftrightarrow> (\<forall>i < pq_n_items q. P (item_at q i))"

lemma all_items_contents: "shape q \<Longrightarrow> all_items P q \<longleftrightarrow> (\<forall>x \<in># contents q. P x)"
  by (fastforce simp: all_items_def contents_def live_def shape_def in_set_conv_nth)

lemma parent_less: "0 < i \<Longrightarrow> parent i < i"
  by simp

lemma parent_children: "0 < c \<Longrightarrow> parent c = i \<longleftrightarrow> c = 2 * i + 1 \<or> c = 2 * i + 2"
  by auto

lemma child_indices:
  assumes "idx < (n :: nat)" "n < 2 ^ 31"
  shows "(idx + 1) * 2 mod 2 ^ 32 = 2 * idx + 2" "(2 * idx + 2 + (2 ^ 32 - 1)) mod 2 ^ 32 = 2 * idx + 1"
proof -
  show "(idx + 1) * 2 mod 2 ^ 32 = 2 * idx + 2" using assms by simp
  have "2 * idx + 2 + (2 ^ 32 - 1) = 2 * idx + 1 + 2 ^ 32" by simp
  then show "(2 * idx + 2 + (2 ^ 32 - 1)) mod 2 ^ 32 = 2 * idx + 1" using assms by (simp only: mod_add_self2) simp
qed

text \<open>
  What an order of entries has to satisfy for the queue to work: on the entries for which \<open>P\<close> holds it
  fails no assertion, and it is total and transitive.
\<close>

locale comparison =
  fixes compare :: "'a compare_func" and P :: "'a \<Rightarrow> bool"
  assumes compare_defined: "P a \<Longrightarrow> P b \<Longrightarrow> \<exists>r. compare a b = Inr r"
    and compare_total: "P a \<Longrightarrow> P b \<Longrightarrow> compare a b = Inr r \<Longrightarrow> \<not> r < 0 \<Longrightarrow> le compare b a"
    and compare_trans: "P a \<Longrightarrow> P b \<Longrightarrow> P c \<Longrightarrow> le compare a b \<Longrightarrow> le compare b c \<Longrightarrow> le compare a c"
begin

lemma heap_up_done:
  assumes "heap_up compare q i" "i = 0 \<or> le compare (item_at q (parent i)) (item_at q i)"
  shows "heap compare q"
  using assms by (auto simp: heap_up_def heap_def)

lemma sifted_all_items: "shape q \<Longrightarrow> sifted q q' \<Longrightarrow> all_items P q \<Longrightarrow> all_items P q'"
  by (simp add: all_items_contents sifted_contents sifted_shape)

lemma up_step:
  assumes "all_items P q" "idx < pq_n_items q" "heap_up compare q idx" "0 < idx" "le compare (item_at q idx) (item_at q (parent idx))"
    and "pq_n_items q' = pq_n_items q" "item_at q' idx = item_at q (parent idx)" "item_at q' (parent idx) = item_at q idx"
    and "\<forall>i. i \<noteq> idx \<and> i \<noteq> parent idx \<longrightarrow> item_at q' i = item_at q i"
  shows "heap_up compare q' (parent idx)"
proof -
  let ?k = "parent idx" let ?le = "\<lambda>i j. le compare (item_at q i) (item_at q j)"
  have edge: "?le (parent c) c" if "c < pq_n_items q" "0 < c" "c \<noteq> idx" for c using assms(3) that by (simp add: heap_up_def)
  have below: "?le ?k c" if "c < pq_n_items q" "0 < c" "parent c = idx" for c
    using assms(3,4) that by (simp add: heap_up_def under_def)
  have tr: "?le i j \<Longrightarrow> ?le j l \<Longrightarrow> i < pq_n_items q \<Longrightarrow> j < pq_n_items q \<Longrightarrow> l < pq_n_items q \<Longrightarrow> ?le i l" for i j l
    using compare_trans assms(1) by (meson all_items_def)
  have k: "?k < idx" "?k < pq_n_items q" using assms(2,4) by simp_all
  have "le compare (item_at q' (parent c)) (item_at q' c)" if c: "c < pq_n_items q" "0 < c" "c \<noteq> ?k" for c
  proof -
    consider "c = idx" | "c \<noteq> idx" "parent c = ?k" | "c \<noteq> idx" "parent c = idx" | "c \<noteq> idx" "parent c \<noteq> ?k" "parent c \<noteq> idx" by blast
    then show ?thesis
    proof cases
      case 2
      then show ?thesis using tr [OF assms(5) _ assms(2) k(2) c(1)] edge [OF c(1,2)] c assms(8,9) by simp
    qed (use assms(5-9) below [OF c(1,2)] edge [OF c(1,2)] c in simp_all)
  qed
  moreover have "le compare (item_at q' (parent ?k)) (item_at q' c)" if c: "0 < ?k" "c < pq_n_items q" "0 < c" "parent c = ?k" for c
  proof -
    have p: "parent ?k < ?k" using c(1) by simp
    then have u: "item_at q' (parent ?k) = item_at q (parent ?k)" using k(1) assms(9) by simp
    have e: "?le (parent ?k) ?k" using edge [OF k(2) c(1)] k(1) by simp
    show ?thesis
    proof (cases "c = idx")
      case False
      then have "?le (parent ?k) c" using tr [OF e, of c] edge [OF c(2,3) False] c k p by simp
      moreover have "c \<noteq> ?k" using c(3,4) by auto
      ultimately show ?thesis using u False assms(9) by simp
    qed (use u e assms(7) in simp)
  qed
  ultimately show ?thesis by (simp add: heap_up_def under_def assms(6))
qed

lemma up_ok:
  assumes "shape q" "indexed q" "all_items P q" "idx < pq_n_items q" "heap_up compare q idx"
  shows "\<exists>q' r. shuffle_up compare q idx = Inr (q', r) \<and> sifted q q' \<and> indexed q' \<and> heap compare q'"
  using assms
proof (induction idx arbitrary: q rule: less_induct)
  case (less idx)
  show ?case
  proof (cases "idx = 0")
    case True
    then show ?thesis using less.prems heap_up_done by (simp add: shuffle_up.simps)
  next
    case False
    let ?k = "parent idx"
    have k: "?k < idx" "?k < pq_n_items q" "idx < length (pq_items q)" using False less.prems by (simp_all add: shape_def)
    have P: "P (item_at q ?k)" "P (item_at q idx)" using less.prems k by (simp_all add: all_items_def)
    obtain r where r: "compare (item_at q ?k) (item_at q idx) = Inr r" using compare_defined [OF P] by blast
    show ?thesis
    proof (cases "r \<le> 0")
      case True
      then have "le compare (item_at q ?k) (item_at q idx)" using r by (simp add: le_def)
      then show ?thesis using less.prems heap_up_done r True k by (subst shuffle_up.simps) auto
    next
      case gt: False
      obtain q1 where q1: "prioq_swap q idx ?k = Inr q1" "sifted q q1" "indexed q1" "item_at q1 idx = item_at q ?k"
        "item_at q1 ?k = item_at q idx" "\<forall>i. i \<noteq> idx \<and> i \<noteq> ?k \<longrightarrow> item_at q1 i = item_at q i"
        by (rule swap_ok [OF less.prems(1,2,4) k(2)]) (use k(1) in simp)
      have n: "pq_n_items q1 = pq_n_items q" using q1(2) by (simp add: sifted_def)
      have "le compare (item_at q idx) (item_at q ?k)" using compare_total [OF P r] gt by simp
      from up_step [OF less.prems(3-5) _ this n q1(4-6)] False have "heap_up compare q1 ?k" by simp
      from less.IH [OF k(1) sifted_shape [OF q1(2) less.prems(1)] q1(3) sifted_all_items [OF less.prems(1) q1(2) less.prems(3)] _ this]
      obtain q2 r2 where "shuffle_up compare q1 ?k = Inr (q2, r2)" "sifted q1 q2" "indexed q2" "heap compare q2"
        using k(2) n by auto
      then show ?thesis using False gt r k q1(1) sifted_trans [OF q1(2)] by (subst shuffle_up.simps) (auto simp: Let_def)
    qed
  qed
qed

lemma le_refl: "P a \<Longrightarrow> le compare a a"
  using compare_defined [of a a] compare_total [of a a] by (metis le_def linear not_less)

lemma smallest_ok:
  assumes "all_items P q" "idx < pq_n_items q" "j < pq_n_items q"
  shows "\<exists>s. smallest compare q idx j k = Inr s \<and> s < pq_n_items q \<and> (s = idx \<or> s = j \<or> s = k)
    \<and> le compare (item_at q s) (item_at q idx) \<and> le compare (item_at q s) (item_at q j)
    \<and> (k < pq_n_items q \<longrightarrow> le compare (item_at q s) (item_at q k))"
proof -
  have P: "i < pq_n_items q \<Longrightarrow> P (item_at q i)" for i using assms(1) by (simp add: all_items_def)
  have refl: "i < pq_n_items q \<Longrightarrow> le compare (item_at q i) (item_at q i)" for i by (rule le_refl [OF P])
  obtain r where r: "compare (item_at q j) (item_at q idx) = Inr r" using compare_defined P assms(2,3) by blast
  define s where "s = (if r < 0 then j else idx)"
  have s: "s < pq_n_items q" "le compare (item_at q s) (item_at q idx)" "le compare (item_at q s) (item_at q j)"
    using assms r refl compare_total [OF P P r] by (auto simp: s_def le_def)
  have e: "smallest compare q idx j k = (if k < pq_n_items q
      then rbind (compare (item_at q k) (item_at q s)) (\<lambda>r. Inr (if r < 0 then k else s)) else Inr s)"
    unfolding smallest_def r s_def by (simp add: Let_def)
  show ?thesis
  proof (cases "k < pq_n_items q")
    case True
    obtain r' where r': "compare (item_at q k) (item_at q s) = Inr r'" using compare_defined P True s(1) by blast
    show ?thesis
    proof (cases "r' < 0")
      case lt: True
      then have "le compare (item_at q k) (item_at q s)" using r' by (simp add: le_def)
      then have "le compare (item_at q k) (item_at q i)" if "i < pq_n_items q" "le compare (item_at q s) (item_at q i)" for i
        using compare_trans P True s(1) that by blast
      then show ?thesis using e True r' lt s assms refl by (intro exI [of _ k]) auto
    next
      case False
      then show ?thesis using e True r' s compare_total [OF P P r'] by (intro exI [of _ s]) (auto simp: s_def)
    qed
  qed (use e s in \<open>auto simp: s_def\<close>)
qed

lemma down_step:
  assumes "all_items P q" "idx < pq_n_items q" "heap_down compare q idx" "s < pq_n_items q" "s = 2 * idx + 1 \<or> s = 2 * idx + 2"
    and "le compare (item_at q s) (item_at q idx)"
    and "\<forall>c < pq_n_items q. 0 < c \<and> parent c = idx \<longrightarrow> le compare (item_at q s) (item_at q c)"
    and "pq_n_items q' = pq_n_items q" "item_at q' idx = item_at q s" "item_at q' s = item_at q idx"
    and "\<forall>i. i \<noteq> idx \<and> i \<noteq> s \<longrightarrow> item_at q' i = item_at q i"
  shows "heap_down compare q' s"
proof -
  let ?le = "\<lambda>i j. le compare (item_at q i) (item_at q j)"
  have s: "parent s = idx" "0 < s" "idx < s" using assms(5) by auto
  have edge: "?le (parent c) c" if "c < pq_n_items q" "0 < c" "c \<noteq> idx" "parent c \<noteq> idx" for c
    using assms(3) that by (simp add: heap_down_def)
  have "le compare (item_at q' (parent c)) (item_at q' c)"
    if c: "c < pq_n_items q" "0 < c" "c \<noteq> s" "parent c \<noteq> s" for c
  proof (cases "c = idx")
    case True
    then have "?le (parent idx) s" using assms(3,4) c(2) s by (simp add: heap_down_def under_def)
    moreover have "parent idx \<noteq> idx" "parent idx \<noteq> s" using True c(2) s(3) by auto
    ultimately show ?thesis using True assms(9,11) by simp
  next
    case False
    then show ?thesis using edge [OF c(1,2)] assms(7,9,11) c by (cases "parent c = idx") simp_all
  qed
  moreover have "le compare (item_at q' (parent s)) (item_at q' c)" if "c < pq_n_items q" "0 < c" "parent c = s" for c
  proof -
    have "c \<noteq> idx" "c \<noteq> s" using that s(3) by auto
    then show ?thesis using edge [OF that(1,2)] that s assms(9,11) by simp
  qed
  ultimately show ?thesis by (simp add: heap_down_def under_def assms(8))
qed

lemma down_done:
  assumes "heap_down compare q idx" "\<forall>c < pq_n_items q. 0 < c \<and> parent c = idx \<longrightarrow> le compare (item_at q idx) (item_at q c)"
  shows "heap_up compare q idx"
  using assms by (auto simp: heap_down_def heap_up_def)

lemma down_ok:
  assumes "shape q" "indexed q" "all_items P q" "idx < pq_n_items q" "heap_down compare q idx"
  shows "\<exists>q' r. shuffle_down compare q idx = Some (Inr (q', r)) \<and> sifted q q' \<and> indexed q'
    \<and> r < pq_n_items q \<and> heap_up compare q' r"
  using assms
proof (induction "pq_n_items q - idx" arbitrary: q idx rule: less_induct)
  case less
  let ?j = "2 * idx + 1" and ?k = "2 * idx + 2" and ?n = "pq_n_items q"
  have n: "?n < 2 ^ 31" "idx < length (pq_items q)" using less.prems by (simp_all add: shape_def)
  note ci = child_indices [OF less.prems(4) n(1)]
  have unfold: "shuffle_down compare q idx = (if ?n \<le> ?j then Some (Inr (q, idx))
      else (case smallest compare q idx ?j ?k of Inl f \<Rightarrow> Some (Inl f)
        | Inr s \<Rightarrow> if s = idx then Some (Inr (q, idx))
            else (case prioq_swap q idx s of Inl f \<Rightarrow> Some (Inl f) | Inr q \<Rightarrow> shuffle_down compare q s)))"
    by (subst shuffle_down.simps) (use n(2) in \<open>simp only: Let_def ci not_le [symmetric] if_False simp_thms\<close>)
  show ?case
  proof (cases "?n \<le> ?j")
    case True
    have "heap_up compare q idx" by (rule down_done [OF less.prems(5)]) (use True parent_children in fastforce)
    then show ?thesis using True less.prems by (simp add: unfold)
  next
    case False
    then obtain s where s: "smallest compare q idx ?j ?k = Inr s" "s < ?n" "s = idx \<or> s = ?j \<or> s = ?k"
        "le compare (item_at q s) (item_at q idx)" "le compare (item_at q s) (item_at q ?j)"
        "?k < ?n \<longrightarrow> le compare (item_at q s) (item_at q ?k)"
      using smallest_ok [OF less.prems(3,4), of ?j ?k] by auto
    have ch: "\<forall>c < ?n. 0 < c \<and> parent c = idx \<longrightarrow> le compare (item_at q s) (item_at q c)"
    proof (intro allI impI)
      fix c assume c: "c < ?n" "0 < c \<and> parent c = idx"
      then have "c = ?j \<or> c = ?k" using parent_children [of c idx] by simp
      then show "le compare (item_at q s) (item_at q c)" using s(5,6) c(1) by auto
    qed
    show ?thesis
    proof (cases "s = idx")
      case True
      then show ?thesis using down_done [OF less.prems(5)] ch s(1) False less.prems by (simp add: unfold)
    next
      case move: False
      obtain q1 where q1: "prioq_swap q idx s = Inr q1" "sifted q q1" "indexed q1" "item_at q1 idx = item_at q s"
        "item_at q1 s = item_at q idx" "\<forall>i. i \<noteq> idx \<and> i \<noteq> s \<longrightarrow> item_at q1 i = item_at q i"
        by (rule swap_ok [OF less.prems(1,2,4) s(2)]) (use move in simp)
      have n1: "pq_n_items q1 = ?n" using q1(2) by (simp add: sifted_def)
      have hd: "heap_down compare q1 s"
        by (rule down_step [OF less.prems(3-5) s(2) _ s(4) ch n1 q1(4-6)]) (use s(3) move in simp)
      have m: "pq_n_items q1 - s < pq_n_items q - idx" using s(2,3) move n1 by linarith
      from less.hyps [OF m sifted_shape [OF q1(2) less.prems(1)] q1(3) sifted_all_items [OF less.prems(1) q1(2) less.prems(3)] _ hd]
      obtain q2 r where "shuffle_down compare q1 s = Some (Inr (q2, r))" "sifted q1 q2" "indexed q2" "r < ?n" "heap_up compare q2 r"
        using m s(2) n1 by auto
      then show ?thesis using s(1) move False q1(1) sifted_trans [OF q1(2)] by (simp add: unfold)
    qed
  qed
qed

lemma shuffle_ok:
  assumes "shape q" "indexed q" "all_items P q" "idx < pq_n_items q" "heap_down compare q idx"
  shows "\<exists>q' r. shuffle compare q idx = Inr (q', r) \<and> sifted q q' \<and> indexed q' \<and> heap compare q'"
proof -
  obtain q1 r where 1: "shuffle_down compare q idx = Some (Inr (q1, r))" "sifted q q1" "indexed q1" "r < pq_n_items q" "heap_up compare q1 r"
    using down_ok [OF assms] by blast
  have "r < pq_n_items q1" using 1(2,4) by (simp add: sifted_def)
  from up_ok [OF sifted_shape [OF 1(2) assms(1)] 1(3) sifted_all_items [OF assms(1) 1(2) assms(3)] this 1(5)] 1(1)
    sifted_trans [OF 1(2)] show ?thesis by (auto simp: shuffle_def)
qed

end

end
