(* ===== verification/Prioq_Facts.thy ===== *)
theory Prioq_Facts
  imports Prioq
begin

text \<open>
  What the operations of the priority queue promise.  The invariant \<open>prioq_ok\<close> says that the array has
  the right size, every index variable holds the position of its entry, and the entries form a heap.
  Each operation keeps it and acts on the multiset of entries as its name says; removing and
  reshuffling an entry do so even when its priority has changed since the queue was last touched,
  which is how the event loop uses them.  The last section shows what a second removal of the same
  entry does.
\<close>

section \<open>The invariant\<close>

definition prioq_ok :: "'a compare_func \<Rightarrow> ('a \<Rightarrow> bool) \<Rightarrow> 'a Prioq \<Rightarrow> bool" where
  "prioq_ok compare P q \<longleftrightarrow> shape q \<and> indexed q \<and> all_items P q \<and> heap compare q"

definition cells_used :: "'a Prioq \<Rightarrow> nat option set" where
  "cells_used q = it_idx ` set (live q)"

lemma prioq_grow_ok:
  assumes "shape q" "pq_n_items q < 2 ^ 31 - 1"
  shows "prioq_grow alloc q = Inl (Errno ENOMEM) \<and> (\<exists>n. \<not> alloc n)
    \<or> (\<exists>m > pq_n_items q. prioq_grow alloc q = Inr (q\<lparr>pq_n_allocated := m\<rparr>) \<and> length (pq_items q) \<le> m)"
proof (cases "pq_n_allocated q \<le> pq_n_items q")
  case True
  then have l: "length (pq_items q) = pq_n_items q" using assms(1) by (simp add: shape_def)
  have m: "(pq_n_items q + 1) * 2 mod 2 ^ 32 = (pq_n_items q + 1) * 2" using assms(2) by simp
  define n where "n = max ((pq_n_items q + 1) * 2) 16"
  have n: "pq_n_items q < n" by (simp add: n_def)
  have "prioq_grow alloc q = (if \<not> alloc (16 * n) then Inl (Errno ENOMEM) else Inr (q\<lparr>pq_items := take n (pq_items q), pq_n_allocated := n\<rparr>))"
    using True unfolding prioq_grow_def m by (simp add: n_def Let_def)
  then show ?thesis using n l by (cases "alloc (16 * n)") auto
next
  case False
  then show ?thesis using assms(1) by (intro disjI2 exI [of _ "pq_n_allocated q"]) (simp add: prioq_grow_def shape_def)
qed

lemma live_nth: "i < pq_n_items q \<Longrightarrow> pq_n_items q \<le> length (pq_items q) \<Longrightarrow> pq_items q ! i \<in> set (live q)"
  by (auto simp: live_def in_set_conv_nth)

lemma mset_replace: "k < length xs \<Longrightarrow> add_mset (xs ! k) (mset (xs[k := y])) = add_mset y (mset xs)"
  by (simp add: mset_update add_mset_commute [of _ y])

lemma mset_move_last:
  assumes "k < l" "l < length xs"
  shows "mset (take (Suc l) xs) = add_mset (xs ! k) (mset (take l (xs[k := xs ! l])))"
  using mset_replace [of k "take l xs" "xs ! l"] assms by (simp add: take_Suc_conv_app_nth take_update_swap)

section \<open>The operations keep it\<close>

text \<open>
  An entry whose priority has changed: the old order and the new one agree on all the others.
\<close>

definition all_but :: "nat \<Rightarrow> ('a \<Rightarrow> bool) \<Rightarrow> 'a Prioq \<Rightarrow> bool" where
  "all_but k P q \<longleftrightarrow> (\<forall>i < pq_n_items q. i \<noteq> k \<longrightarrow> P (item_at q i))"

definition agree :: "'a compare_func \<Rightarrow> 'a compare_func \<Rightarrow> 'a Prioq \<Rightarrow> nat \<Rightarrow> bool" where
  "agree old new q k \<longleftrightarrow> (\<forall>i < pq_n_items q. \<forall>j < pq_n_items q. i \<noteq> k \<longrightarrow> j \<noteq> k \<longrightarrow>
     le old (item_at q i) (item_at q j) \<longrightarrow> le new (item_at q i) (item_at q j))"

lemma heap_down_agree:
  assumes "heap_down old q1 k" "agree old new q k" "k < pq_n_items q1" "pq_n_items q1 \<le> pq_n_items q"
    "\<And>i. i \<noteq> k \<Longrightarrow> item_at q1 i = item_at q i"
  shows "heap_down new q1 k"
proof -
  have le: "le old (item_at q1 i) (item_at q1 j) \<Longrightarrow> le new (item_at q1 i) (item_at q1 j)"
    if "i < pq_n_items q1" "j < pq_n_items q1" "i \<noteq> k" "j \<noteq> k" for i j
    using assms(2,4) that assms(5) [of i] assms(5) [of j] by (simp add: agree_def)
  have "le new (item_at q1 (parent k)) (item_at q1 c)" if "0 < k" "c < pq_n_items q1" "0 < c" "parent c = k" for c
    using assms(1,3) that le [of "parent k" c] parent_less [of c] parent_less [of k] by (auto simp: heap_down_def under_def)
  moreover have "le new (item_at q1 (parent c)) (item_at q1 c)" if "c < pq_n_items q1" "0 < c" "c \<noteq> k" "parent c \<noteq> k" for c
    using assms(1) that le [of "parent c" c] parent_less [of c] by (auto simp: heap_down_def)
  ultimately show ?thesis by (simp add: heap_down_def under_def)
qed

context comparison
begin

lemma put_ok:
  assumes "prioq_ok compare P q" "P x" "pq_n_items q < 2 ^ 31 - 1" "idx = None \<or> idx \<notin> cells_used q"
  shows "prioq_put alloc compare (Some q) x idx = Inl (Errno ENOMEM) \<and> (\<exists>n. \<not> alloc n)
    \<or> (\<exists>q'. prioq_put alloc compare (Some q) x idx = Inr (Some q') \<and> prioq_ok compare P q'
         \<and> mset (live q') = add_mset \<lparr>it_data = x, it_idx = idx\<rparr> (mset (live q)))"
proof -
  have q: "shape q" "indexed q" "all_items P q" "heap compare q" using assms(1) by (simp_all add: prioq_ok_def)
  let ?k = "pq_n_items q" and ?i = "\<lparr>it_data = x, it_idx = idx\<rparr>"
  have m: "(?k + 1) mod 2 ^ 32 = ?k + 1" using assms(3) by simp
  from prioq_grow_ok [OF q(1) assms(3), of alloc] show ?thesis
  proof (elim disjE exE conjE)
    fix n assume g: "?k < n" "prioq_grow alloc q = Inr (q\<lparr>pq_n_allocated := n\<rparr>)" "length (pq_items q) \<le> n"
    let ?items = "if ?k < length (pq_items q) then (pq_items q)[?k := ?i] else pq_items q @ [?i]"
    define q1 where "q1 = q\<lparr>pq_n_allocated := n, pq_n_items := ?k + 1, pq_items := ?items, pq_cells := point_at idx ?k (pq_cells q)\<rparr>"
    have l: "?k \<le> length (pq_items q)" using q(1) by (simp add: shape_def)
    have put: "prioq_put alloc compare (Some q) x idx = rbind (shuffle_up compare q1 ?k) (\<lambda>(q, _). Inr (Some q))"
      using g l m by (simp add: prioq_put_def q1_def Let_def)
    have items: "pq_items q1 ! ?k = ?i" "i < ?k \<Longrightarrow> pq_items q1 ! i = pq_items q ! i" for i
      using l by (auto simp: q1_def nth_append)
    have live: "live q1 = live q @ [?i]" using l by (auto simp: live_def q1_def take_Suc_conv_app_nth nth_append)
    have n1: "pq_n_items q1 = Suc ?k" by (simp add: q1_def)
    have "shape q1" using q(1) g l assms(3) by (auto simp: shape_def q1_def)
    moreover have "indexed q1"
      unfolding indexed_def n1
    proof (intro allI impI)
      fix i p assume i: "i < Suc ?k" "it_idx (pq_items q1 ! i) = Some p"
      show "pq_cells q1 p = i"
      proof (cases "i = ?k")
        case True
        then show ?thesis using i items by (simp add: q1_def point_at_def)
      next
        case False
        then have "it_idx (pq_items q ! i) = Some p" "i < ?k" using i items by auto
        moreover from this have "Some p \<in> cells_used q" using live_nth [of i q] l by (force simp: cells_used_def)
        ultimately show ?thesis using q(2) assms(4) by (auto simp: q1_def indexed_def point_at_def split: option.split)
      qed
    qed
    moreover have "all_items P q1" using q(3) assms(2) items by (auto simp: all_items_def n1 less_Suc_eq)
    moreover have "heap_up compare q1 ?k"
      using q(4) items by (auto simp: heap_up_def under_def heap_def n1 less_Suc_eq)
    moreover have "?k < pq_n_items q1" by (simp add: n1)
    ultimately obtain q' r where u: "shuffle_up compare q1 ?k = Inr (q', r)" "sifted q1 q'" "indexed q'" "heap compare q'"
      using up_ok by blast
    have "prioq_ok compare P q'"
      using u sifted_shape [OF u(2) \<open>shape q1\<close>] sifted_all_items [OF \<open>shape q1\<close> u(2) \<open>all_items P q1\<close>] by (simp add: prioq_ok_def)
    moreover have "mset (live q') = add_mset ?i (mset (live q))" using u(2) by (simp add: sifted_def live)
    ultimately show ?thesis using put u(1) by simp
  qed (auto simp: prioq_put_def)
qed

lemma heap_replace:
  assumes "all_items P q" "heap compare q" "k < l" "pq_n_items q1 = l" "l \<le> pq_n_items q"
    "\<And>i. i < l \<Longrightarrow> i \<noteq> k \<Longrightarrow> item_at q1 i = item_at q i"
  shows "heap_down compare q1 k"
proof -
  have le: "0 < c \<Longrightarrow> c < pq_n_items q \<Longrightarrow> le compare (item_at q (parent c)) (item_at q c)" for c
    using assms(2) by (simp add: heap_def)
  have "le compare (item_at q1 (parent k)) (item_at q1 c)" if c: "0 < k" "c < l" "0 < c" "parent c = k" for c
  proof -
    have "c \<noteq> k" "parent k \<noteq> k" "parent k < l" using c assms(3) by auto
    moreover have "le compare (item_at q (parent k)) (item_at q c)"
      using compare_trans [of "item_at q (parent k)" "item_at q k" "item_at q c"] le [of k] le [of c] c assms(1,3,5)
      by (simp add: all_items_def)
    ultimately show ?thesis using assms(6) c by simp
  qed
  moreover have "le compare (item_at q1 (parent c)) (item_at q1 c)" if "c < l" "0 < c" "c \<noteq> k" "parent c \<noteq> k" for c
    using le [of c] assms(5,6) that parent_less [of c] by simp
  ultimately show ?thesis using assms(4) by (simp add: heap_down_def under_def)
qed

lemma move_last:
  assumes old: "comparison old Q" "prioq_ok old Q q" and k: "pq_n_items q = Suc l" "k < l"
    and new: "all_but k P q" "agree old compare q k"
    and q1: "q1 = q\<lparr>pq_items := (pq_items q)[k := pq_items q ! l],
      pq_cells := point_at (it_idx (pq_items q ! l)) k (pq_cells q), pq_n_items := l\<rparr>"
  shows "shape q1" "indexed q1" "all_items P q1" "heap_down compare q1 k" "mset (live q) = add_mset (pq_items q ! k) (mset (live q1))"
proof -
  have q: "shape q" "indexed q" "all_items Q q" "heap old q" using old(2) by (simp_all add: prioq_ok_def)
  have l: "l < length (pq_items q)" using q(1) k(1) by (simp add: shape_def)
  have items: "pq_items q1 ! k = pq_items q ! l" "\<And>i. i \<noteq> k \<Longrightarrow> pq_items q1 ! i = pq_items q ! i"
    using k(2) l by (simp_all add: q1)
  have n1: "pq_n_items q1 = l" by (simp add: q1)
  show "shape q1" using q(1) k(1) by (simp add: shape_def q1)
  show "indexed q1"
    unfolding indexed_def n1
  proof (intro allI impI)
    fix i p assume i: "i < l" "it_idx (pq_items q1 ! i) = Some p"
    have d: "it_idx (pq_items q ! a) = Some p \<Longrightarrow> a < Suc l \<Longrightarrow> pq_cells q p = a" for a
      using q(2) k(1) by (simp add: indexed_def)
    show "pq_cells q1 p = i"
      using i d [of i] d [of l] items by (cases "i = k") (auto simp: q1 point_at_def split: option.split)
  qed
  show "all_items P q1"
    unfolding all_items_def n1
  proof (intro allI impI)
    fix i assume "i < l"
    then show "P (item_at q1 i)" using new(1) items k by (cases "i = k") (simp_all add: all_but_def)
  qed
  have "heap_down old q1 k"
    by (rule comparison.heap_replace [OF old(1) q(3,4) k(2) n1]) (simp_all add: k(1) items(2))
  then show "heap_down compare q1 k"
    by (rule heap_down_agree [OF _ new(2)]) (simp_all add: k n1 items(2))
  show "mset (live q) = add_mset (pq_items q ! k) (mset (live q1))"
    using mset_move_last [OF k(2) l] by (simp add: live_def q1 k(1))
qed

lemma sifted_ok:
  assumes "shape q" "all_items P q" "sifted q q'" "indexed q'" "heap compare q'"
  shows "prioq_ok compare P q'"
  using assms sifted_shape [OF assms(3,1)] sifted_all_items [OF assms(1,3,2)] by (simp add: prioq_ok_def)

lemma remove_item_ok:
  assumes old: "comparison old Q" "prioq_ok old Q q" "k < pq_n_items q" and new: "all_but k P q" "agree old compare q k"
  shows "\<exists>q'. remove_item compare q k = Inr q' \<and> prioq_ok compare P q' \<and> mset (live q) = add_mset (pq_items q ! k) (mset (live q'))"
proof -
  obtain l where l: "pq_n_items q = Suc l" using old(3) by (cases "pq_n_items q") simp_all
  have sh: "l < length (pq_items q)" using old(2) l by (simp add: prioq_ok_def shape_def)
  show ?thesis
  proof (cases "k = l")
    case True
    have "mset (live q) = add_mset (pq_items q ! k) (mset (live (q\<lparr>pq_n_items := l\<rparr>)))"
      using sh True by (simp add: live_def l take_Suc_conv_app_nth)
    moreover have "heap compare (q\<lparr>pq_n_items := l\<rparr>)"
      using old(2) new(2) l True by (simp add: prioq_ok_def heap_def agree_def less_Suc_eq)
    moreover have "all_items P (q\<lparr>pq_n_items := l\<rparr>)" using new(1) l True by (simp add: all_but_def all_items_def)
    moreover have "shape (q\<lparr>pq_n_items := l\<rparr>)" "indexed (q\<lparr>pq_n_items := l\<rparr>)"
      using old(2) l by (simp_all add: prioq_ok_def shape_def indexed_def)
    ultimately show ?thesis using l True by (simp add: remove_item_def prioq_ok_def)
  next
    case False
    then have k: "k < l" using old(3) l by simp
    define q1 where "q1 = q\<lparr>pq_items := (pq_items q)[k := pq_items q ! l],
        pq_cells := point_at (it_idx (pq_items q ! l)) k (pq_cells q), pq_n_items := l\<rparr>"
    note m = move_last [OF old(1,2) l k new q1_def]
    have "k < pq_n_items q1" using k by (simp add: q1_def)
    then obtain q' r where u: "shuffle compare q1 k = Inr (q', r)" "sifted q1 q'" "indexed q'" "heap compare q'"
      using shuffle_ok [OF m(1-3) _ m(4)] by blast
    have "remove_item compare q k = Inr q'" using u(1) False l by (simp add: remove_item_def q1_def Let_def)
    moreover have "mset (live q) = add_mset (pq_items q ! k) (mset (live q'))" using m(5) u(2) by (simp add: sifted_def)
    ultimately show ?thesis using sifted_ok [OF m(1,3) u(2-4)] by blast
  qed
qed

lemma reshuffle_ok:
  assumes old: "comparison old Q" "prioq_ok old Q q" "k < pq_n_items q" and new: "all_items P q" "agree old compare q k"
  shows "\<exists>q' r. shuffle compare q k = Inr (q', r) \<and> prioq_ok compare P q' \<and> mset (live q') = mset (live q)"
proof -
  have q: "shape q" "indexed q" "all_items Q q" "heap old q" using old(2) by (simp_all add: prioq_ok_def)
  have "heap_down old q k" by (rule comparison.heap_replace [OF old(1) q(3,4) old(3)]) simp_all
  then have "heap_down compare q k" by (rule heap_down_agree [OF _ new(2)]) (simp_all add: old(3))
  then obtain q' r where u: "shuffle compare q k = Inr (q', r)" "sifted q q'" "indexed q'" "heap compare q'"
    using shuffle_ok [OF q(1,2) new(1) old(3)] by blast
  show ?thesis using u sifted_ok [OF q(1) new(1) u(2-4)] by (simp add: sifted_def)
qed

lemma minimum:
  assumes "prioq_ok compare P q" "i < pq_n_items q"
  shows "le compare (item_at q 0) (item_at q i)"
  using assms(2)
proof (induction i rule: less_induct)
  case (less i)
  have P: "j < pq_n_items q \<Longrightarrow> P (item_at q j)" for j using assms(1) by (simp add: prioq_ok_def all_items_def)
  show ?case
  proof (cases "i = 0")
    case True
    then show ?thesis using le_refl P less.prems by simp
  next
    case False
    have "le compare (item_at q (parent i)) (item_at q i)" using assms(1) False less.prems by (simp add: prioq_ok_def heap_def)
    moreover have "le compare (item_at q 0) (item_at q (parent i))" using less.IH [of "parent i"] False less.prems by simp
    ultimately show ?thesis using compare_trans [OF P P P] False less.prems by (meson le_less_trans less_imp_le_nat not_gr_zero parent_less)
  qed
qed

end

lemma live_member:
  assumes "prioq_ok compare P q" "i \<in> set (live q)"
  obtains k where "k < pq_n_items q" "pq_items q ! k = i"
  using assms by (auto simp: prioq_ok_def shape_def live_def in_set_conv_nth)

lemma prioq_ok_length: "prioq_ok compare P q \<Longrightarrow> k < pq_n_items q \<Longrightarrow> k < length (pq_items q) \<and> k < 2 ^ 31"
  by (simp add: prioq_ok_def shape_def)

lemma find_item_pointer:
  assumes "prioq_ok compare P q" "k < pq_n_items q" "pq_items q ! k = \<lparr>it_data = x, it_idx = Some p\<rparr>"
  shows "find_item q x (Some p) = Inr (Some k)"
  using assms prioq_ok_length [OF assms(1,2)] by (simp add: find_item_def Let_def prioq_ok_def indexed_def)

lemma find_item_search:
  assumes "prioq_ok compare P q" "x \<in># contents q"
  obtains k where "k < pq_n_items q" "item_at q k = x" "find_item q x None = Inr (Some k)"
proof -
  obtain i where "i \<in> set (live q)" "it_data i = x" using assms(2) by (auto simp: contents_def)
  then obtain j where j: "j < pq_n_items q" "item_at q j = x" using live_member [OF assms(1)] by metis
  obtain k where k: "find (\<lambda>i. item_at q i = x) [0..<pq_n_items q] = Some k"
    using j by (cases "find (\<lambda>i. item_at q i = x) [0..<pq_n_items q]") (auto simp: find_None_iff)
  then have "k < pq_n_items q" "item_at q k = x" by (auto simp: find_Some_iff)
  then show ?thesis using that k by (simp add: find_item_def)
qed

lemma live_contents: "mset (live q) = add_mset i (mset (live q')) \<Longrightarrow> contents q = add_mset (it_data i) (contents q')"
  by (simp add: contents_def)

lemma contents_item: "shape q \<Longrightarrow> x \<in># contents q \<longleftrightarrow> (\<exists>i < pq_n_items q. item_at q i = x)"
proof -
  assume "shape q"
  then have "set_mset (contents q) = it_data ` (!) (pq_items q) ` {0..<pq_n_items q}"
    by (simp add: contents_def live_def shape_def nth_image)
  then show ?thesis by auto
qed

lemma agree_refl: "agree compare compare q k"
  by (simp add: agree_def)

lemma all_items_but: "all_items P q \<Longrightarrow> all_but k P q"
  by (simp add: all_items_def all_but_def)

context comparison
begin

lemma remove_ok:
  assumes "comparison old Q" "prioq_ok old Q q" "k < pq_n_items q" "pq_items q ! k = \<lparr>it_data = x, it_idx = Some p\<rparr>"
    and "all_but k P q" "agree old compare q k"
  shows "\<exists>q'. prioq_remove compare (Some q) x (Some p) = Inr (Some q', True) \<and> prioq_ok compare P q'
    \<and> mset (live q) = add_mset \<lparr>it_data = x, it_idx = Some p\<rparr> (mset (live q'))"
proof -
  obtain q' where "remove_item compare q k = Inr q'" "prioq_ok compare P q'"
      "mset (live q) = add_mset \<lparr>it_data = x, it_idx = Some p\<rparr> (mset (live q'))"
    using remove_item_ok [OF assms(1-3,5,6)] assms(4) by auto
  then show ?thesis using find_item_pointer [OF assms(2-4)] by (simp add: prioq_remove_def)
qed

lemma remove_search_ok:
  assumes "prioq_ok compare P q" "x \<in># contents q"
  shows "\<exists>q'. prioq_remove compare (Some q) x None = Inr (Some q', True) \<and> prioq_ok compare P q'
    \<and> contents q = add_mset x (contents q')"
proof -
  obtain k where k: "k < pq_n_items q" "item_at q k = x" "find_item q x None = Inr (Some k)"
    by (rule find_item_search [OF assms])
  have "all_but k P q" using assms(1) by (simp add: prioq_ok_def all_items_but)
  then obtain q' where "remove_item compare q k = Inr q'" "prioq_ok compare P q'" "contents q = add_mset x (contents q')"
    using remove_item_ok [OF comparison_axioms assms(1) k(1) _ agree_refl] live_contents k(2) by metis
  then show ?thesis using k(3) by (simp add: prioq_remove_def)
qed

lemma prioq_reshuffle_ok:
  assumes "comparison old Q" "prioq_ok old Q q" "k < pq_n_items q" "pq_items q ! k = \<lparr>it_data = x, it_idx = Some p\<rparr>"
    and "all_items P q" "agree old compare q k"
  shows "\<exists>q'. prioq_reshuffle compare (Some q) x (Some p) = Inr (Some q', True) \<and> prioq_ok compare P q'
    \<and> mset (live q') = mset (live q)"
proof -
  obtain q' r where "shuffle compare q k = Inr (q', r)" "prioq_ok compare P q'" "mset (live q') = mset (live q)"
    using reshuffle_ok [OF assms(1-3,5,6)] by blast
  then show ?thesis using find_item_pointer [OF assms(2-4)] by (simp add: prioq_reshuffle_def)
qed

lemma peek_ok:
  assumes "prioq_ok compare P q" "prioq_peek (Some q) = Some x"
  shows "x \<in># contents q" "y \<in># contents q \<Longrightarrow> le compare x y"
  using assms minimum [OF assms(1)] by (auto simp: prioq_peek_def prioq_ok_def contents_item split: if_splits)

lemma peek_empty: "prioq_ok compare P q \<Longrightarrow> prioq_peek (Some q) = None \<longleftrightarrow> contents q = {#}"
  by (auto simp: prioq_peek_def contents_def live_def prioq_ok_def shape_def)

lemma pop_ok:
  assumes "prioq_ok compare P q" "contents q \<noteq> {#}"
  shows "\<exists>q' x. prioq_pop compare (Some q) = Inr (Some q', Some x) \<and> prioq_peek (Some q) = Some x \<and> prioq_ok compare P q'
    \<and> contents q = add_mset x (contents q') \<and> (\<forall>y \<in># contents q'. le compare x y)"
proof -
  have n: "0 < pq_n_items q" using assms(2) by (cases "pq_n_items q") (simp_all add: contents_def live_def)
  have "all_but 0 P q" using assms(1) by (simp add: prioq_ok_def all_items_but)
  then obtain q' where q': "remove_item compare q 0 = Inr q'" "prioq_ok compare P q'"
      "contents q = add_mset (item_at q 0) (contents q')"
    using remove_item_ok [OF comparison_axioms assms(1) n _ agree_refl] live_contents by metis
  have p: "prioq_peek (Some q) = Some (item_at q 0)" using n by (simp add: prioq_peek_def)
  show ?thesis using q' p n peek_ok(2) [OF assms(1) p] by (simp add: prioq_pop_def)
qed

end

section \<open>An order of the netlink library\<close>

definition timeout_compare :: "(nat \<Rightarrow> u64) \<Rightarrow> nat compare_func" where
  "timeout_compare timeout x y =
     Inr (if timeout x \<noteq> 0 \<and> timeout y = 0 then -1
          else if timeout x = 0 \<and> timeout y \<noteq> 0 then 1
          else if timeout x < timeout y then -1
          else if timeout y < timeout x then 1
          else 0)"

interpretation timeouts: comparison "timeout_compare timeout" "\<lambda>_. True" for timeout
  by unfold_locales (auto simp: timeout_compare_def le_def split: if_splits)

section \<open>What the operations promise\<close>

lemma put_contents:
  assumes "comparison compare P" "prioq_ok compare P q" "P x" "pq_n_items q < 2 ^ 31 - 1" "idx = None \<or> idx \<notin> cells_used q"
  shows "prioq_put alloc compare (Some q) x idx = Inl (Errno ENOMEM) \<and> (\<exists>n. \<not> alloc n)
    \<or> (\<exists>q'. prioq_put alloc compare (Some q) x idx = Inr (Some q') \<and> prioq_ok compare P q'
         \<and> contents q' = add_mset x (contents q))"
proof -
  have "mset (live q') = add_mset \<lparr>it_data = x, it_idx = idx\<rparr> (mset (live q)) \<Longrightarrow> contents q' = add_mset x (contents q)" for q'
    by (simp add: contents_def)
  then show ?thesis using comparison.put_ok [OF assms, of alloc] by blast
qed

lemma remove_contents:
  assumes "comparison compare P" "prioq_ok compare P q" "\<lparr>it_data = x, it_idx = Some p\<rparr> \<in> set (live q)"
  shows "\<exists>q'. prioq_remove compare (Some q) x (Some p) = Inr (Some q', True) \<and> prioq_ok compare P q'
    \<and> contents q = add_mset x (contents q')"
proof -
  obtain k where k: "k < pq_n_items q" "pq_items q ! k = \<lparr>it_data = x, it_idx = Some p\<rparr>"
    by (rule live_member [OF assms(2,3)])
  have "all_but k P q" using assms(2) by (simp add: prioq_ok_def all_items_but)
  from comparison.remove_ok [OF assms(1,1,2) k this agree_refl] show ?thesis
    using live_contents by fastforce
qed

lemma pop_empty:
  "prioq_ok compare P q \<Longrightarrow> contents q = {#} \<Longrightarrow> prioq_pop compare (Some q) = Inr (Some q, None) \<and> prioq_peek (Some q) = None"
  by (auto simp: prioq_pop_def prioq_peek_def contents_def live_def prioq_ok_def shape_def)

lemma reshuffle_contents:
  assumes "comparison compare P" "comparison old Q" "prioq_ok old Q q" "\<lparr>it_data = x, it_idx = Some p\<rparr> \<in> set (live q)"
    and "\<forall>y \<in># contents q. P y"
    and "\<forall>y \<in># contents q - {#x#}. \<forall>z \<in># contents q - {#x#}. old y z = compare y z"
  shows "\<exists>q'. prioq_reshuffle compare (Some q) x (Some p) = Inr (Some q', True) \<and> prioq_ok compare P q'
    \<and> contents q' = contents q"
proof -
  obtain k where k: "k < pq_n_items q" "pq_items q ! k = \<lparr>it_data = x, it_idx = Some p\<rparr>"
    by (rule live_member [OF assms(3,4)])
  have sh: "shape q" using assms(3) by (simp add: prioq_ok_def)
  have other: "item_at q i \<in># contents q - {#x#}" if "i < pq_n_items q" "i \<noteq> k" for i
  proof -
    have "{k, i} \<subseteq> {0..<pq_n_items q}" using that k by auto
    then have "image_mset (item_at q) (mset_set {k, i}) \<subseteq># image_mset (item_at q) (mset_set {0..<pq_n_items q})"
      by (intro image_mset_subseteq_mono) (simp add: subset_imp_msubset_mset_set)
    moreover have "contents q = image_mset (item_at q) (mset_set {0..<pq_n_items q})"
    proof -
      have "map it_data (live q) = map (item_at q) [0..<pq_n_items q]"
        using sh by (intro nth_equalityI) (auto simp: live_def shape_def)
      then show ?thesis unfolding contents_def by (simp add: mset_upt)
    qed
    ultimately show ?thesis using that k by (simp add: insert_subset_eq_iff)
  qed
  have "agree old compare q k" using assms(6) other by (simp add: agree_def le_def)
  moreover have "all_items P q" using assms(5) sh all_items_contents by blast
  ultimately show ?thesis
    using comparison.prioq_reshuffle_ok [OF assms(1,2,3) k] by (metis contents_def mset_map)
qed

text \<open>
  C37. Over any total order of its entries, a priority queue that is a heap with correct index
  variables stays one under every operation, none of them aborts or leaves the array, and on the
  multiset of the entries \<open>prioq_put\<close> adds the entry or reports \<open>-ENOMEM\<close>, \<open>prioq_remove\<close> takes out
  exactly the entry its index variable belongs to, \<open>prioq_pop\<close> takes out a minimum, the one
  \<open>prioq_peek\<close> shows, and \<open>prioq_reshuffle\<close>, called after the priority of one entry has changed in
  whatever way, restores the heap for the new order.
\<close>

theorem prioq_operations:
  assumes "comparison compare P" "prioq_ok compare P q"
  shows "(P x \<and> pq_n_items q < 2 ^ 31 - 1 \<and> (idx = None \<or> idx \<notin> cells_used q) \<longrightarrow>
      prioq_put alloc compare (Some q) x idx = Inl (Errno ENOMEM) \<and> (\<exists>n. \<not> alloc n)
      \<or> (\<exists>q'. prioq_put alloc compare (Some q) x idx = Inr (Some q') \<and> prioq_ok compare P q'
           \<and> contents q' = add_mset x (contents q)))
    \<and> (\<lparr>it_data = y, it_idx = Some p\<rparr> \<in> set (live q) \<longrightarrow>
      (\<exists>q'. prioq_remove compare (Some q) y (Some p) = Inr (Some q', True) \<and> prioq_ok compare P q'
        \<and> contents q = add_mset y (contents q')))
    \<and> (if contents q = {#} then prioq_pop compare (Some q) = Inr (Some q, None) \<and> prioq_peek (Some q) = None
       else \<exists>q' z. prioq_pop compare (Some q) = Inr (Some q', Some z) \<and> prioq_peek (Some q) = Some z \<and> prioq_ok compare P q'
         \<and> contents q = add_mset z (contents q') \<and> (\<forall>y \<in># contents q'. le compare z y))
    \<and> (\<lparr>it_data = y, it_idx = Some p\<rparr> \<in> set (live q) \<and> comparison new Q \<and> (\<forall>u \<in># contents q. Q u)
        \<and> (\<forall>u \<in># contents q - {#y#}. \<forall>v \<in># contents q - {#y#}. compare u v = new u v) \<longrightarrow>
      (\<exists>q'. prioq_reshuffle new (Some q) y (Some p) = Inr (Some q', True) \<and> prioq_ok new Q q' \<and> contents q' = contents q))"
proof (intro conjI)
  show "if contents q = {#} then prioq_pop compare (Some q) = Inr (Some q, None) \<and> prioq_peek (Some q) = None
       else \<exists>q' z. prioq_pop compare (Some q) = Inr (Some q', Some z) \<and> prioq_peek (Some q) = Some z \<and> prioq_ok compare P q'
         \<and> contents q = add_mset z (contents q') \<and> (\<forall>y \<in># contents q'. le compare z y)"
    using comparison.pop_ok [OF assms] pop_empty [OF assms(2)] by simp
qed (use put_contents [OF assms] remove_contents [OF assms] reshuffle_contents [OF _ assms] in blast)+

definition timers :: "nat \<Rightarrow> u64" where
  "timers s = (if s = 1 then 30 else if s = 2 then 20 else if s = 3 then 50 else 0)"

definition timer_queue :: "nat Prioq" where
  "timer_queue = \<lparr>pq_n_items = 3, pq_n_allocated = 16,
     pq_items = [\<lparr>it_data = 2, it_idx = Some 2\<rparr>, \<lparr>it_data = 1, it_idx = Some 1\<rparr>, \<lparr>it_data = 3, it_idx = Some 3\<rparr>],
     pq_cells = (\<lambda>p. if p = 1 then 1 else if p = 2 then 0 else 2)\<rparr>"

lemma timer_queue_ok: "prioq_ok (timeout_compare timers) (\<lambda>_. True) timer_queue"
  by (auto simp: prioq_ok_def shape_def indexed_def all_items_def heap_def le_def timeout_compare_def timer_queue_def
    timers_def less_Suc_eq numeral_3_eq_3 nth_Cons')

lemma timer_queue_contents: "contents timer_queue = {#2, 1, 3#}" "cells_used timer_queue = {Some 2, Some 1, Some 3}"
  "\<lparr>it_data = 2, it_idx = Some 2\<rparr> \<in> set (live timer_queue)" "pq_n_items timer_queue = 3"
  by (simp_all add: contents_def cells_used_def live_def timer_queue_def)

lemma timer_compares: "u \<noteq> 2 \<Longrightarrow> v \<noteq> 2 \<Longrightarrow> timeout_compare (timers(2 := 90)) u v = timeout_compare timers u v"
  by (simp add: timeout_compare_def)

theorem prioq_operations_witness:
  "\<exists>q q' q''. prioq_put (\<lambda>_. True) (timeout_compare timers) (Some timer_queue) 4 (Some 4) = Inr (Some q) \<and> contents q = {#4, 2, 1, 3#}
    \<and> prioq_remove (timeout_compare timers) (Some timer_queue) 2 (Some 2) = Inr (Some q', True) \<and> contents q' = {#1, 3#}
    \<and> prioq_reshuffle (timeout_compare (timers(2 := 90))) (Some timer_queue) 2 (Some 2) = Inr (Some q'', True)
    \<and> prioq_ok (timeout_compare (timers(2 := 90))) (\<lambda>_. True) q''"
proof -
  note o = prioq_operations [OF timeouts.comparison_axioms timer_queue_ok, where alloc = "\<lambda>_. True" and x = 4 and idx = "Some 4"
      and y = 2 and p = 2 and new = "timeout_compare (timers(2 := 90))" and Q = "\<lambda>_. True"]
  have "\<exists>q. prioq_put (\<lambda>_. True) (timeout_compare timers) (Some timer_queue) 4 (Some 4) = Inr (Some q) \<and> contents q = {#4, 2, 1, 3#}"
    using o by (simp add: timer_queue_contents) blast
  moreover have "\<exists>q'. prioq_remove (timeout_compare timers) (Some timer_queue) 2 (Some 2) = Inr (Some q', True) \<and> contents q' = {#1, 3#}"
    using o by (simp add: timer_queue_contents) (metis add_mset_commute add_mset_eq_single add_mset_remove_trivial)
  moreover have "\<exists>q''. prioq_reshuffle (timeout_compare (timers(2 := 90))) (Some timer_queue) 2 (Some 2) = Inr (Some q'', True)
      \<and> prioq_ok (timeout_compare (timers(2 := 90))) (\<lambda>_. True) q''"
    using o [THEN conjunct2, THEN conjunct2, THEN conjunct2] timeouts.comparison_axioms
    by (auto simp: timer_queue_contents timer_compares)
  ultimately show ?thesis by blast
qed

section \<open>Removing an entry twice\<close>

lemma shuffle_past_end:
  assumes "n < 2 ^ 31 - 1" "0 < n" "pq_n_items q \<le> n" "n < length (pq_items q)"
    and "compare (item_at q (parent n)) (item_at q n) = Inr r"
  shows "shuffle compare q n = (if r \<le> 0 then Inr (q, n) else Inl Abort)"
proof -
  have n: "Suc n < 2 ^ 31" using assms(1) by simp
  have "shuffle_down compare q n = Some (Inr (q, n))"
    unfolding shuffle_down.simps [of compare q n] Let_def child_indices [OF lessI n] using assms(3) by simp
  moreover have "shuffle_up compare q n = (if r \<le> 0 then Inr (q, n) else Inl Abort)"
    using assms(2-5) by (subst shuffle_up.simps) (simp add: Let_def prioq_swap_def)
  ultimately show ?thesis by (simp add: shuffle_def)
qed

text \<open>
  C38. An entry that is removed twice.  After the last entry of the array has been removed its index
  variable still holds the number of entries, which \<open>find_item\<close> takes for a valid index, and the
  unused slot still holds its data.  So a second removal does not report that the entry is not in the
  queue: it reads before the array when the queue is empty, and otherwise fails an assertion or
  removes another entry, the one that is now last, and reports success.
\<close>

theorem prioq_remove_twice:
  assumes "comparison compare P" "prioq_ok compare P q" "pq_n_items q = Suc n" "pq_items q ! n = \<lparr>it_data = x, it_idx = Some p\<rparr>"
  shows "\<exists>q1. prioq_remove compare (Some q) x (Some p) = Inr (Some q1, True) \<and> contents q = add_mset x (contents q1)
    \<and> (case n of
         0 \<Rightarrow> prioq_remove compare (Some q1) x (Some p) = Inl OutOfBounds
       | Suc m \<Rightarrow>
           if le compare (item_at q (parent n)) (item_at q m)
           then \<exists>q2. prioq_remove compare (Some q1) x (Some p) = Inr (Some q2, True) \<and> contents q1 = add_mset (item_at q m) (contents q2)
           else prioq_remove compare (Some q1) x (Some p) = Inl Abort)"
proof -
  have q: "shape q" "indexed q" "all_items P q" using assms(2) by (simp_all add: prioq_ok_def)
  let ?q1 = "q\<lparr>pq_n_items := n\<rparr>"
  have len: "n < length (pq_items q)" "n < 2 ^ 31 - 1" using q(1) assms(3) by (simp_all add: shape_def)
  have cell: "pq_cells q p = n" using q(2) assms(3,4) by (simp add: indexed_def)
  have find: "find_item q x (Some p) = Inr (Some n)" "find_item ?q1 x (Some p) = Inr (Some n)"
    using cell len assms(3,4) by (simp_all add: find_item_def Let_def)
  have first: "prioq_remove compare (Some q) x (Some p) = Inr (Some ?q1, True)"
    using find(1) assms(3) by (simp add: prioq_remove_def remove_item_def)
  have c: "contents q = add_mset x (contents ?q1)"
    using len(1) assms(3,4) by (simp add: contents_def live_def take_Suc_conv_app_nth)
  show ?thesis
  proof (cases n)
    case 0
    then have "prioq_remove compare (Some ?q1) x (Some p) = Inl OutOfBounds"
      using find(2) by (simp add: prioq_remove_def remove_item_def)
    then show ?thesis using first c 0 by auto
  next
    case (Suc m)
    let ?y = "pq_items q ! m"
    define q2 where "q2 = q\<lparr>pq_items := (pq_items q)[n := ?y], pq_cells := point_at (it_idx ?y) n (pq_cells q), pq_n_items := m\<rparr>"
    have i: "parent n < n" "item_at q2 (parent n) = item_at q (parent n)" "item_at q2 n = item_at q m"
      using Suc len(1) by (simp_all add: q2_def)
    obtain r where r: "compare (item_at q (parent n)) (item_at q m) = Inr r"
      using comparison.compare_defined [OF assms(1), of "item_at q (parent n)" "item_at q m"] q(3) assms(3) Suc
      by (auto simp: all_items_def)
    have "shuffle compare q2 n = (if r \<le> 0 then Inr (q2, n) else Inl Abort)"
      by (rule shuffle_past_end) (use len Suc r i in \<open>simp_all add: q2_def\<close>)
    then have second: "prioq_remove compare (Some ?q1) x (Some p) = (if r \<le> 0 then Inr (Some q2, True) else Inl Abort)"
      using find(2) Suc by (simp add: prioq_remove_def remove_item_def q2_def Let_def)
    have "contents ?q1 = add_mset (item_at q m) (contents q2)"
      using len(1) Suc by (simp add: contents_def live_def q2_def take_Suc_conv_app_nth)
    then show ?thesis using first c second r Suc by (auto simp: le_def)
  qed
qed

theorem prioq_remove_twice_witness:
  "\<exists>q1 q2. prioq_remove (timeout_compare timers) (Some timer_queue) 3 (Some 3) = Inr (Some q1, True) \<and> contents q1 = {#2, 1#}
    \<and> prioq_remove (timeout_compare timers) (Some q1) 3 (Some 3) = Inr (Some q2, True) \<and> contents q2 = {#2#}"
proof -
  have i: "item_at timer_queue 0 = 2" "item_at timer_queue 1 = 1"
    "pq_items timer_queue ! 2 = \<lparr>it_data = 3, it_idx = Some 3\<rparr>" "le (timeout_compare timers) 2 1"
    by (simp_all add: le_def timeout_compare_def timer_queue_def timers_def)
  obtain q1 q2 where q: "prioq_remove (timeout_compare timers) (Some timer_queue) 3 (Some 3) = Inr (Some q1, True)"
      "{#2, 1, 3#} = add_mset 3 (contents q1)"
      "prioq_remove (timeout_compare timers) (Some q1) 3 (Some 3) = Inr (Some q2, True)" "contents q1 = add_mset 1 (contents q2)"
    using prioq_remove_twice [OF timeouts.comparison_axioms timer_queue_ok _ i(3)] i
    by (auto simp: timer_queue_contents numeral_2_eq_2 numeral_3_eq_3)
  have "contents q1 = {#2, 1#}" using q(2) by (metis add_mset_commute add_mset_remove_trivial)
  moreover from this have "contents q2 = {#2#}" using q(4) by (metis add_mset_commute add_mset_remove_trivial)
  ultimately show ?thesis using q by blast
qed

end
