(* ===== verification/Event_Timers.thy ===== *)
theory Event_Timers
  imports Prioq_Facts
begin

text \<open>
  The timers of the event loop of \<open>basic/sd-event.c\<close>, on which all timeouts of the DHCP client run.

  A source is named by its address and looked up in the store \<open>ev_sources\<close>.  Every clock keeps its
  timers in two priority queues, ordered by the earliest time they may be dispatched and by the latest
  time they must be; sources that are ready wait in a third one.  The model has the comparisons of all
  five queues of the loop, marking a source pending and not pending, changing the time and the accuracy
  of a timer, choosing a wakeup, arming the timer descriptor, and marking the timers that are due.  The
  boot id and \<open>timerfd_settime\<close> are parameters.

  The locale \<open>event_order\<close> is the contract between the loop and its queues: an order of sources that
  looks at nothing but the two sources.  Its lemmas say what putting, removing and reshuffling a source
  does to a queue when that source has just been changed, and it is interpreted on all five orders.
\<close>

section \<open>Data\<close>

datatype EventSourceType = SOURCE_IO | SOURCE_TIME_REALTIME | SOURCE_TIME_BOOTTIME | SOURCE_TIME_MONOTONIC
  | SOURCE_TIME_REALTIME_ALARM | SOURCE_TIME_BOOTTIME_ALARM | SOURCE_SIGNAL | SOURCE_CHILD | SOURCE_DEFER
  | SOURCE_POST | SOURCE_EXIT | SOURCE_WATCHDOG | SOURCE_EVENT_SOURCE_TYPE_INVALID

definition EVENT_SOURCE_IS_TIME :: "EventSourceType \<Rightarrow> bool" where
  "EVENT_SOURCE_IS_TIME t \<longleftrightarrow> t \<in> {SOURCE_TIME_REALTIME, SOURCE_TIME_BOOTTIME, SOURCE_TIME_MONOTONIC,
     SOURCE_TIME_REALTIME_ALARM, SOURCE_TIME_BOOTTIME_ALARM}"

abbreviation (input) SD_EVENT_OFF :: int where "SD_EVENT_OFF \<equiv> 0"
abbreviation (input) SD_EVENT_ON :: int where "SD_EVENT_ON \<equiv> 1"
abbreviation (input) SD_EVENT_ONESHOT :: int where "SD_EVENT_ONESHOT \<equiv> - 1"
abbreviation (input) USEC_INFINITY :: u64 where "USEC_INFINITY \<equiv> - 1"
abbreviation (input) USEC_PER_MINUTE :: u64 where "USEC_PER_MINUTE \<equiv> 60000000"
abbreviation (input) DEFAULT_ACCURACY_USEC :: u64 where "DEFAULT_ACCURACY_USEC \<equiv> 250000"

datatype event_state = SD_EVENT_INITIAL | SD_EVENT_ARMED | SD_EVENT_PENDING | SD_EVENT_RUNNING
  | SD_EVENT_EXITING | SD_EVENT_FINISHED | SD_EVENT_PREPARING

record event_source =
  es_type :: EventSourceType
  es_enabled :: int
  es_pending :: bool
  es_prepare :: bool
  es_priority :: int
  es_pending_iteration :: u32
  es_prepare_iteration :: u32
  es_next :: u64
  es_accuracy :: u64

record clock_data =
  d_fd :: int
  d_earliest :: "nat Prioq option"
  d_latest :: "nat Prioq option"
  d_next :: u64
  d_needs_rearm :: bool

record sd_event =
  ev_sources :: "nat \<Rightarrow> event_source"
  ev_pending :: "nat Prioq option"
  ev_prepare :: "nat Prioq option"
  ev_clocks :: "EventSourceType \<Rightarrow> clock_data"
  ev_perturb :: u64
  ev_signal_current :: "int \<Rightarrow> nat option"
  ev_iteration :: u32
  ev_state :: event_state
  ev_pid_changed :: bool

section \<open>Orders\<close>

text \<open>
  The five comparisons.  The queues hold addresses of sources; \<open>st\<close> is the store the code looks them
  up in.  An assertion on the sources that fails is \<open>Abort\<close>.
\<close>

definition pending_prioq_compare :: "(nat \<Rightarrow> event_source) \<Rightarrow> nat compare_func" where
  "pending_prioq_compare st a b =
     (let x = st a; y = st b in
      if \<not> es_pending x \<or> \<not> es_pending y then Inl Abort
      else Inr (
        if es_enabled x \<noteq> SD_EVENT_OFF \<and> es_enabled y = SD_EVENT_OFF then -1
        else if es_enabled x = SD_EVENT_OFF \<and> es_enabled y \<noteq> SD_EVENT_OFF then 1
        else if es_priority x < es_priority y then -1
        else if es_priority x > es_priority y then 1
        else if es_pending_iteration x < es_pending_iteration y then -1
        else if es_pending_iteration x > es_pending_iteration y then 1
        else 0))"

definition prepare_prioq_compare :: "(nat \<Rightarrow> event_source) \<Rightarrow> nat compare_func" where
  "prepare_prioq_compare st a b =
     (let x = st a; y = st b in
      if \<not> es_prepare x \<or> \<not> es_prepare y then Inl Abort
      else Inr (
        if es_enabled x \<noteq> SD_EVENT_OFF \<and> es_enabled y = SD_EVENT_OFF then -1
        else if es_enabled x = SD_EVENT_OFF \<and> es_enabled y \<noteq> SD_EVENT_OFF then 1
        else if es_prepare_iteration x < es_prepare_iteration y then -1
        else if es_prepare_iteration x > es_prepare_iteration y then 1
        else if es_priority x < es_priority y then -1
        else if es_priority x > es_priority y then 1
        else 0))"

definition earliest_time_prioq_compare :: "(nat \<Rightarrow> event_source) \<Rightarrow> nat compare_func" where
  "earliest_time_prioq_compare st a b =
     (let x = st a; y = st b in
      if \<not> EVENT_SOURCE_IS_TIME (es_type x) \<or> es_type x \<noteq> es_type y then Inl Abort
      else Inr (
        if es_enabled x \<noteq> SD_EVENT_OFF \<and> es_enabled y = SD_EVENT_OFF then -1
        else if es_enabled x = SD_EVENT_OFF \<and> es_enabled y \<noteq> SD_EVENT_OFF then 1
        else if \<not> es_pending x \<and> es_pending y then -1
        else if es_pending x \<and> \<not> es_pending y then 1
        else if es_next x < es_next y then -1
        else if es_next x > es_next y then 1
        else 0))"

definition usec_add :: "u64 \<Rightarrow> u64 \<Rightarrow> u64" where
  "usec_add a b = (let c = a + b in if c < a \<or> c < b then USEC_INFINITY else c)"

definition time_event_source_latest :: "event_source \<Rightarrow> u64" where
  "time_event_source_latest s = usec_add (es_next s) (es_accuracy s)"

definition latest_time_prioq_compare :: "(nat \<Rightarrow> event_source) \<Rightarrow> nat compare_func" where
  "latest_time_prioq_compare st a b =
     (let x = st a; y = st b in
      if \<not> EVENT_SOURCE_IS_TIME (es_type x) \<or> es_type x \<noteq> es_type y then Inl Abort
      else Inr (
        if es_enabled x \<noteq> SD_EVENT_OFF \<and> es_enabled y = SD_EVENT_OFF then -1
        else if es_enabled x = SD_EVENT_OFF \<and> es_enabled y \<noteq> SD_EVENT_OFF then 1
        else if \<not> es_pending x \<and> es_pending y then -1
        else if es_pending x \<and> \<not> es_pending y then 1
        else if time_event_source_latest x < time_event_source_latest y then -1
        else if time_event_source_latest x > time_event_source_latest y then 1
        else 0))"

definition exit_prioq_compare :: "(nat \<Rightarrow> event_source) \<Rightarrow> nat compare_func" where
  "exit_prioq_compare st a b =
     (let x = st a; y = st b in
      if es_type x \<noteq> SOURCE_EXIT \<or> es_type y \<noteq> SOURCE_EXIT then Inl Abort
      else Inr (
        if es_enabled x \<noteq> SD_EVENT_OFF \<and> es_enabled y = SD_EVENT_OFF then -1
        else if es_enabled x = SD_EVENT_OFF \<and> es_enabled y \<noteq> SD_EVENT_OFF then 1
        else if es_priority x < es_priority y then -1
        else if es_priority x > es_priority y then 1
        else 0))"

section \<open>Operations\<close>

abbreviation put_source :: "nat \<Rightarrow> event_source \<Rightarrow> sd_event \<Rightarrow> sd_event" where
  "put_source s x e \<equiv> e\<lparr>ev_sources := (ev_sources e)(s := x)\<rparr>"

abbreviation put_clock :: "EventSourceType \<Rightarrow> clock_data \<Rightarrow> sd_event \<Rightarrow> sd_event" where
  "put_clock t d e \<equiv> e\<lparr>ev_clocks := (ev_clocks e)(t := d)\<rparr>"

definition event_get_clock_data :: "sd_event \<Rightarrow> EventSourceType \<Rightarrow> clock_data option" where
  "event_get_clock_data e t = (if EVENT_SOURCE_IS_TIME t then Some (ev_clocks e t) else None)"

text \<open>
  The two calls of \<open>prioq_reshuffle\<close> on the queues of a clock, with the flag that asks for rearming,
  as \<open>source_set_pending\<close>, \<open>process_timer\<close> and the setters of the time and the accuracy make them.
\<close>

definition reshuffle_latest :: "sd_event \<Rightarrow> EventSourceType \<Rightarrow> nat \<Rightarrow> sd_event res" where
  "reshuffle_latest e t s =
     (case event_get_clock_data e t of None \<Rightarrow> Inl Abort | Some d \<Rightarrow>
        rbind (prioq_reshuffle (latest_time_prioq_compare (ev_sources e)) (d_latest d) s (Some s)) (\<lambda>(q, _).
        Inr (put_clock t (d\<lparr>d_latest := q, d_needs_rearm := True\<rparr>) e)))"

definition reshuffle_times :: "sd_event \<Rightarrow> EventSourceType \<Rightarrow> nat \<Rightarrow> sd_event res" where
  "reshuffle_times e t s =
     (case event_get_clock_data e t of None \<Rightarrow> Inl Abort | Some d \<Rightarrow>
        rbind (prioq_reshuffle (earliest_time_prioq_compare (ev_sources e)) (d_earliest d) s (Some s)) (\<lambda>(q, _).
        reshuffle_latest (put_clock t (d\<lparr>d_earliest := q\<rparr>) e) t s))"

text \<open>
  A source is put into the queue of pending sources or taken out of it.  A result carries the errno
  that the function returns next to the event loop it leaves behind.
\<close>

definition set_pending_queue :: "alloc \<Rightarrow> sd_event \<Rightarrow> nat \<Rightarrow> bool \<Rightarrow> (sd_event \<times> errno option) res" where
  "set_pending_queue alloc e s b =
     (if b then
        (let e = put_source s ((ev_sources e s)\<lparr>es_pending_iteration := ev_iteration e\<rparr>) e in
         case prioq_put alloc (pending_prioq_compare (ev_sources e)) (ev_pending e) s (Some s) of
           Inl (Errno r) \<Rightarrow> Inr (put_source s ((ev_sources e s)\<lparr>es_pending := False\<rparr>) e, Some r)
         | Inl f \<Rightarrow> Inl f
         | Inr q \<Rightarrow> Inr (e\<lparr>ev_pending := q\<rparr>, None))
      else
        rbind (prioq_remove (pending_prioq_compare (ev_sources e)) (ev_pending e) s (Some s)) (\<lambda>(q, found).
        if \<not> found then Inl Abort else Inr (e\<lparr>ev_pending := q\<rparr>, None)))"

definition source_set_pending :: "alloc \<Rightarrow> sd_event \<Rightarrow> nat \<Rightarrow> bool \<Rightarrow> (sd_event \<times> errno option) res" where
  "source_set_pending alloc e s b =
     (let x = ev_sources e s in
      if es_type x = SOURCE_EXIT then Inl Abort
      else if es_pending x = b then Inr (e, None)
      else
        rbind (set_pending_queue alloc (put_source s (x\<lparr>es_pending := b\<rparr>) e) s b) (\<lambda>(e, r).
        if r \<noteq> None then Inr (e, r)
        else
          rbind (if EVENT_SOURCE_IS_TIME (es_type x) then reshuffle_times e (es_type x) s else Inr e) (\<lambda>e.
          Inr (if es_type x = SOURCE_SIGNAL \<and> \<not> b \<and> ev_signal_current e (es_priority x) = Some s
               then e\<lparr>ev_signal_current := (ev_signal_current e)(es_priority x := None)\<rparr> else e, None))))"

text \<open>The errnos are \<open>EDOM\<close>, \<open>ESTALE\<close> and \<open>ECHILD\<close>.\<close>

definition sd_event_source_set_time :: "alloc \<Rightarrow> sd_event \<Rightarrow> nat \<Rightarrow> u64 \<Rightarrow> (sd_event \<times> errno option) res" where
  "sd_event_source_set_time alloc e s usec =
     (let t = es_type (ev_sources e s) in
      if \<not> EVENT_SOURCE_IS_TIME t then Inr (e, Some (ESys 33))
      else if ev_state e = SD_EVENT_FINISHED then Inr (e, Some (ESys 116))
      else if ev_pid_changed e then Inr (e, Some (ESys 10))
      else
        rbind (source_set_pending alloc (put_source s ((ev_sources e s)\<lparr>es_next := usec\<rparr>) e) s False) (\<lambda>(e, _).
        rbind (reshuffle_times e t s) (\<lambda>e. Inr (e, None))))"

definition sd_event_source_set_time_accuracy :: "alloc \<Rightarrow> sd_event \<Rightarrow> nat \<Rightarrow> u64 \<Rightarrow> (sd_event \<times> errno option) res" where
  "sd_event_source_set_time_accuracy alloc e s usec =
     (let t = es_type (ev_sources e s) in
      if usec = - 1 then Inr (e, Some EINVAL)
      else if \<not> EVENT_SOURCE_IS_TIME t then Inr (e, Some (ESys 33))
      else if ev_state e = SD_EVENT_FINISHED then Inr (e, Some (ESys 116))
      else if ev_pid_changed e then Inr (e, Some (ESys 10))
      else
        rbind (source_set_pending alloc
          (put_source s ((ev_sources e s)\<lparr>es_accuracy := (if usec = 0 then DEFAULT_ACCURACY_USEC else usec)\<rparr>) e) s False) (\<lambda>(e, _).
        rbind (reshuffle_latest e t s) (\<lambda>e. Inr (e, None))))"

definition initialize_perturb :: "(u64 \<times> u64) option \<Rightarrow> sd_event \<Rightarrow> sd_event" where
  "initialize_perturb boot_id e =
     (if ev_perturb e \<noteq> USEC_INFINITY then e
      else (case boot_id of
          None \<Rightarrow> e
        | Some (x, y) \<Rightarrow> e\<lparr>ev_perturb := (x XOR y) mod USEC_PER_MINUTE\<rparr>))"

text \<open>
  The block that \<open>sleep_between\<close> has four times, for a minute, ten seconds, a second and 250
  milliseconds: the last such time before \<open>b\<close> with the given offset, if it is not before \<open>a\<close>.
\<close>

definition sleep_step :: "u64 \<Rightarrow> u64 \<Rightarrow> u64 \<Rightarrow> u64 \<Rightarrow> u64 \<Rightarrow> u64" where
  "sleep_step a b step offset otherwise =
     (let c = (b div step) * step + offset in
      if b \<le> c \<and> c < step then b
      else
        (let c = (if b \<le> c then c - step else c) in
         if a \<le> c then c else otherwise))"

definition sleep_between :: "(u64 \<times> u64) option \<Rightarrow> sd_event \<Rightarrow> u64 \<Rightarrow> u64 \<Rightarrow> (sd_event \<times> u64) res" where
  "sleep_between boot_id e a b =
     (if \<not> a \<le> b then Inl Abort
      else if a \<le> 0 then Inr (e, 0)
      else if a \<ge> USEC_INFINITY then Inr (e, USEC_INFINITY)
      else if b \<le> a + 1 then Inr (e, a)
      else
        (let e = initialize_perturb boot_id e in
         Inr (e,
           sleep_step a b USEC_PER_MINUTE (ev_perturb e)
           (sleep_step a b 10000000 (ev_perturb e mod 10000000)
           (sleep_step a b 1000000 (ev_perturb e mod 1000000)
           (sleep_step a b 250000 (ev_perturb e mod 250000) b))))))"

type_synonym timer_call = "u64 \<times> u64"

definition timespec_store :: "u64 \<Rightarrow> timer_call" where
  "timespec_store u = (if u = USEC_INFINITY then (- 1, - 1) else (u div 1000000, (u mod 1000000) * 1000))"

text \<open>
  \<open>timerfd_settime\<close> is a parameter: what it returns for the time it is given.  The calls that are made
  are part of the result.  A refused disarming returns the \<open>-1\<close> of the system call, which reads as
  \<open>-EPERM\<close>.
\<close>

definition disarm_timer ::
  "(timer_call \<Rightarrow> errno option) \<Rightarrow> sd_event \<Rightarrow> EventSourceType \<Rightarrow> (sd_event \<times> errno option \<times> timer_call list) res" where
  "disarm_timer timerfd_settime e t =
     (let d = ev_clocks e t in
      if d_fd d < 0 then Inr (e, None, [])
      else if d_next d = USEC_INFINITY then Inr (e, None, [])
      else (case timerfd_settime (0, 0) of
          Some _ \<Rightarrow> Inr (e, Some (ESys 1), [(0, 0)])
        | None \<Rightarrow> Inr (put_clock t (d\<lparr>d_next := USEC_INFINITY\<rparr>) e, None, [(0, 0)])))"

definition event_arm_timer ::
  "(u64 \<times> u64) option \<Rightarrow> (timer_call \<Rightarrow> errno option) \<Rightarrow> sd_event \<Rightarrow> EventSourceType \<Rightarrow>
     (sd_event \<times> errno option \<times> timer_call list) res" where
  "event_arm_timer boot_id timerfd_settime e t =
     (let d = ev_clocks e t in
      if \<not> d_needs_rearm d then Inr (e, None, [])
      else
        (let d = d\<lparr>d_needs_rearm := False\<rparr>; e = put_clock t d e in
         case prioq_peek (d_earliest d) of
           Some a \<Rightarrow>
             if es_enabled (ev_sources e a) = SD_EVENT_OFF \<or> es_next (ev_sources e a) = USEC_INFINITY
             then disarm_timer timerfd_settime e t
             else (case prioq_peek (d_latest d) of
                 None \<Rightarrow> Inl Abort
               | Some b \<Rightarrow>
                   if es_enabled (ev_sources e b) = SD_EVENT_OFF then Inl Abort
                   else
                     rbind (sleep_between boot_id e (es_next (ev_sources e a)) (time_event_source_latest (ev_sources e b))) (\<lambda>(e, u).
                     if d_next d = u then Inr (e, None, [])
                     else if d_fd d < 0 then Inl Abort
                     else
                       (let its = (if u = 0 then (0, 1) else timespec_store u) in
                        case timerfd_settime its of
                          Some r \<Rightarrow> Inr (e, Some r, [its])
                        | None \<Rightarrow> Inr (put_clock t (d\<lparr>d_next := u\<rparr>) e, None, [its]))))
         | None \<Rightarrow> disarm_timer timerfd_settime e t))"

partial_function (option) process_timer ::
  "alloc \<Rightarrow> u64 \<Rightarrow> EventSourceType \<Rightarrow> sd_event \<Rightarrow> (sd_event \<times> errno option) res option" where
  "process_timer alloc n t e =
     (case prioq_peek (d_earliest (ev_clocks e t)) of
        None \<Rightarrow> Some (Inr (e, None))
      | Some s \<Rightarrow>
          if es_next (ev_sources e s) > n \<or> es_enabled (ev_sources e s) = SD_EVENT_OFF \<or> es_pending (ev_sources e s)
          then Some (Inr (e, None))
          else (case source_set_pending alloc e s True of
              Inl f \<Rightarrow> Some (Inl f)
            | Inr (e, Some r) \<Rightarrow> Some (Inr (e, Some r))
            | Inr (e, None) \<Rightarrow> (case reshuffle_times e t s of
                  Inl f \<Rightarrow> Some (Inl f)
                | Inr e \<Rightarrow> process_timer alloc n t e)))"

definition event_next_pending :: "sd_event \<Rightarrow> nat option" where
  "event_next_pending e =
     (case prioq_peek (ev_pending e) of
        None \<Rightarrow> None
      | Some p \<Rightarrow> if es_enabled (ev_sources e p) = SD_EVENT_OFF then None else Some p)"

section \<open>Queues of event sources\<close>

text \<open>
  Every source keeps its position in a queue in a field of its own, so the address of the source also
  names its index variable.
\<close>

definition owned :: "nat Prioq \<Rightarrow> bool" where
  "owned q \<longleftrightarrow> (\<forall>i \<in> set (live q). it_idx i = Some (it_data i))"

definition members :: "nat Prioq option \<Rightarrow> nat set" where
  "members q = (case q of None \<Rightarrow> {} | Some q \<Rightarrow> set_mset (contents q))"

definition queue_ok :: "nat compare_func \<Rightarrow> (nat \<Rightarrow> bool) \<Rightarrow> nat Prioq option \<Rightarrow> bool" where
  "queue_ok compare P q \<longleftrightarrow> (case q of None \<Rightarrow> True | Some q \<Rightarrow> prioq_ok compare P q \<and> owned q)"

lemma members_live: "members (Some q) = it_data ` set (live q)"
  by (simp add: members_def contents_def)

lemma owned_item: "owned q \<Longrightarrow> i \<in> set (live q) \<Longrightarrow> i = \<lparr>it_data = it_data i, it_idx = Some (it_data i)\<rparr>"
  by (simp add: owned_def)

lemma owned_live: "owned q \<Longrightarrow> s \<in> members (Some q) \<longleftrightarrow> \<lparr>it_data = s, it_idx = Some s\<rparr> \<in> set (live q)"
  unfolding members_live using owned_item by fastforce

lemma owned_inj:
  assumes "owned q" "indexed q" "shape q" "i < pq_n_items q" "j < pq_n_items q" "item_at q i = item_at q j"
  shows "i = j"
proof -
  have "it_idx (pq_items q ! i) = Some (item_at q i)" "it_idx (pq_items q ! j) = Some (item_at q i)"
    using assms live_nth [of i q] live_nth [of j q] by (simp_all add: owned_def shape_def)
  then show ?thesis using assms(2,4,5) by (metis indexed_def)
qed

lemma owned_distinct:
  assumes "owned q" "indexed q" "shape q"
  shows "distinct (live q)"
  unfolding distinct_conv_nth
proof (intro allI impI)
  fix i j assume "i < length (live q)" "j < length (live q)" "i \<noteq> j"
  then show "live q ! i \<noteq> live q ! j" using owned_inj [OF assms, of i j] by (auto simp: live_def)
qed

lemma n_items_size: "shape q \<Longrightarrow> pq_n_items q = size (mset (live q))"
  by (simp add: live_def shape_def)

lemma queue_cells_used: "owned q \<Longrightarrow> Some s \<in> cells_used q \<longleftrightarrow> s \<in> members (Some q)"
  unfolding members_live by (force simp: cells_used_def owned_def)

lemma queue_member:
  assumes "queue_ok compare P q" "s \<in> members q"
  obtains q' k where "q = Some q'" "prioq_ok compare P q'" "owned q'" "k < pq_n_items q'"
    "pq_items q' ! k = \<lparr>it_data = s, it_idx = Some s\<rparr>" "\<And>i. i < pq_n_items q' \<Longrightarrow> i \<noteq> k \<Longrightarrow> item_at q' i \<noteq> s"
proof -
  obtain q' where q: "q = Some q'" "prioq_ok compare P q'" "owned q'"
    using assms by (auto simp: queue_ok_def members_def split: option.splits)
  then obtain k where k: "k < pq_n_items q'" "pq_items q' ! k = \<lparr>it_data = s, it_idx = Some s\<rparr>"
    using live_member [OF q(2)] owned_live [OF q(3)] assms(2) by metis
  have "i < pq_n_items q' \<Longrightarrow> i \<noteq> k \<Longrightarrow> item_at q' i \<noteq> s" for i
    using owned_inj [OF q(3), of i k] q(2) k by (auto simp: prioq_ok_def)
  then show ?thesis using that q k by blast
qed

lemma queue_P: "queue_ok compare P q \<Longrightarrow> s \<in> members q \<Longrightarrow> P s"
  by (erule queue_member, assumption) (metis all_items_def prioq_item.select_convs(1) prioq_ok_def)

definition queue ::
  "((nat \<Rightarrow> event_source) \<Rightarrow> nat compare_func) \<Rightarrow> (event_source \<Rightarrow> bool) \<Rightarrow> (nat \<Rightarrow> event_source) \<Rightarrow> nat Prioq option \<Rightarrow> bool" where
  "queue cmp P st q \<longleftrightarrow> queue_ok (cmp st) (\<lambda>s. P (st s)) q"

text \<open>
  An order of event sources: it is an order, and looks at nothing but the two sources.
\<close>

locale event_order =
  fixes cmp :: "(nat \<Rightarrow> event_source) \<Rightarrow> nat compare_func" and P :: "event_source \<Rightarrow> bool"
  assumes order: "comparison (cmp st) (\<lambda>s. P (st s))"
    and cmp_local: "st a = st' a \<Longrightarrow> st b = st' b \<Longrightarrow> cmp st a b = cmp st' a b"
begin

lemma same_queue:
  assumes "queue cmp P st q" "\<And>s. s \<in> members q \<Longrightarrow> st' s = st s"
  shows "queue cmp P st' q"
proof (cases q)
  case (Some q')
  have "i < pq_n_items q' \<Longrightarrow> item_at q' i \<in> members q" for i
    using assms(1) Some contents_item [of q'] by (auto simp: queue_def queue_ok_def prioq_ok_def members_def)
  then have st: "i < pq_n_items q' \<Longrightarrow> st' (item_at q' i) = st (item_at q' i)" for i using assms(2) by blast
  then have "le (cmp st') (item_at q' i) (item_at q' j) = le (cmp st) (item_at q' i) (item_at q' j)"
    if "i < pq_n_items q'" "j < pq_n_items q'" for i j
    using cmp_local [of st' "item_at q' i" st "item_at q' j"] that by (simp add: le_def)
  then show ?thesis using assms(1) Some st
    by (simp add: queue_def queue_ok_def prioq_ok_def all_items_def heap_def)
qed (simp add: queue_def queue_ok_def)

lemma changed_agree:
  assumes "\<And>i. i < pq_n_items q \<Longrightarrow> i \<noteq> k \<Longrightarrow> item_at q i \<noteq> s" "\<And>r. r \<noteq> s \<Longrightarrow> st' r = st r"
  shows "agree (cmp st) (cmp st') q k"
  using assms cmp_local [of st _ st'] by (simp add: agree_def le_def)

lemma reshuffled:
  assumes "queue cmp P st q" "s \<in> members q" "\<And>r. r \<noteq> s \<Longrightarrow> st' r = st r" "P (st' s)"
  shows "\<exists>q'. prioq_reshuffle (cmp st') q s (Some s) = Inr (Some q', True) \<and> queue cmp P st' (Some q') \<and> members (Some q') = members q"
proof -
  obtain q1 k where q: "q = Some q1" "prioq_ok (cmp st) (\<lambda>s. P (st s)) q1" "owned q1" "k < pq_n_items q1"
      "pq_items q1 ! k = \<lparr>it_data = s, it_idx = Some s\<rparr>" "\<And>i. i < pq_n_items q1 \<Longrightarrow> i \<noteq> k \<Longrightarrow> item_at q1 i \<noteq> s"
    by (rule queue_member [OF assms(1) [unfolded queue_def] assms(2)]) blast
  have "P (st' (item_at q1 i))" if "i < pq_n_items q1" for i
    using that q(2) assms(3) [of "item_at q1 i"] assms(4) by (cases "item_at q1 i = s") (simp_all add: prioq_ok_def all_items_def)
  then have "all_items (\<lambda>s. P (st' s)) q1" by (simp add: all_items_def)
  then obtain q' where q': "prioq_reshuffle (cmp st') (Some q1) s (Some s) = Inr (Some q', True)"
      "prioq_ok (cmp st') (\<lambda>s. P (st' s)) q'" "mset (live q') = mset (live q1)"
    using comparison.prioq_reshuffle_ok [OF order order q(2,4,5) _ changed_agree [OF q(6) assms(3)]] by blast
  then have "set (live q') = set (live q1)" by (metis set_mset_mset)
  then show ?thesis using q' q(1,3) by (simp add: queue_def queue_ok_def owned_def members_live)
qed

lemma removed:
  assumes "queue cmp P st q" "s \<in> members q" "\<And>r. r \<noteq> s \<Longrightarrow> st' r = st r"
  shows "\<exists>q'. prioq_remove (cmp st') q s (Some s) = Inr (Some q', True) \<and> queue cmp P st' (Some q') \<and> members (Some q') = members q - {s}"
proof -
  obtain q1 k where q: "q = Some q1" "prioq_ok (cmp st) (\<lambda>s. P (st s)) q1" "owned q1" "k < pq_n_items q1"
      "pq_items q1 ! k = \<lparr>it_data = s, it_idx = Some s\<rparr>" "\<And>i. i < pq_n_items q1 \<Longrightarrow> i \<noteq> k \<Longrightarrow> item_at q1 i \<noteq> s"
    by (rule queue_member [OF assms(1) [unfolded queue_def] assms(2)]) blast
  have "P (st' (item_at q1 i))" if "i < pq_n_items q1" "i \<noteq> k" for i
    using that q(2) q(6) [OF that] assms(3) [of "item_at q1 i"] by (simp add: prioq_ok_def all_items_def)
  then have "all_but k (\<lambda>s. P (st' s)) q1" by (simp add: all_but_def)
  then obtain q' where q': "prioq_remove (cmp st') (Some q1) s (Some s) = Inr (Some q', True)"
      "prioq_ok (cmp st') (\<lambda>s. P (st' s)) q'" "mset (live q1) = add_mset \<lparr>it_data = s, it_idx = Some s\<rparr> (mset (live q'))"
    using comparison.remove_ok [OF order order q(2,4,5) _ changed_agree [OF q(6) assms(3)]] by blast
  then have live: "set (live q1) = insert \<lparr>it_data = s, it_idx = Some s\<rparr> (set (live q'))"
    by (metis set_mset_mset set_mset_add_mset_insert)
  have "\<lparr>it_data = s, it_idx = Some s\<rparr> \<notin> set (live q')"
  proof -
    have "distinct (live q1)" using q(2,3) by (simp add: owned_distinct prioq_ok_def)
    then have "count (mset (live q1)) \<lparr>it_data = s, it_idx = Some s\<rparr> \<le> 1" by (simp add: distinct_count_atmost_1)
    then show ?thesis using q'(3) by (simp add: count_eq_zero_iff flip: set_mset_mset)
  qed
  moreover have "owned q'" using q(3) live by (simp add: owned_def)
  ultimately have "s \<notin> members (Some q')" using owned_live by blast
  then show ?thesis using q' q(1,3) live by (auto simp: queue_def queue_ok_def owned_def members_live)
qed

lemma added:
  assumes "queue cmp P st (Some q)" "s \<notin> members (Some q)" "P (st s)" "pq_n_items q < 2 ^ 31 - 1"
  shows "prioq_put alloc (cmp st) (Some q) s (Some s) = Inl (Errno ENOMEM) \<and> (\<exists>n. \<not> alloc n)
    \<or> (\<exists>q'. prioq_put alloc (cmp st) (Some q) s (Some s) = Inr (Some q') \<and> queue cmp P st (Some q')
         \<and> members (Some q') = insert s (members (Some q)) \<and> pq_n_items q' = Suc (pq_n_items q))"
proof -
  have q: "prioq_ok (cmp st) (\<lambda>s. P (st s)) q" "owned q" using assms(1) by (simp_all add: queue_def queue_ok_def)
  have "Some s \<notin> cells_used q" using assms(2) queue_cells_used [OF q(2)] by simp
  then have put: "prioq_put alloc (cmp st) (Some q) s (Some s) = Inl (Errno ENOMEM) \<and> (\<exists>n. \<not> alloc n)
    \<or> (\<exists>q'. prioq_put alloc (cmp st) (Some q) s (Some s) = Inr (Some q') \<and> prioq_ok (cmp st) (\<lambda>s. P (st s)) q'
         \<and> mset (live q') = add_mset \<lparr>it_data = s, it_idx = Some s\<rparr> (mset (live q)))"
    using comparison.put_ok [OF order q(1) assms(3,4)] by blast
  have "queue cmp P st (Some q') \<and> members (Some q') = insert s (members (Some q)) \<and> pq_n_items q' = Suc (pq_n_items q)"
    if "prioq_ok (cmp st) (\<lambda>s. P (st s)) q'" "mset (live q') = add_mset \<lparr>it_data = s, it_idx = Some s\<rparr> (mset (live q))" for q'
  proof -
    have "set (live q') = insert \<lparr>it_data = s, it_idx = Some s\<rparr> (set (live q))"
      using that(2) by (metis set_mset_mset set_mset_add_mset_insert)
    moreover have "pq_n_items q' = Suc (pq_n_items q)"
      using that q(1) n_items_size [of q] n_items_size [of q'] by (simp add: prioq_ok_def)
    ultimately show ?thesis using that(1) q(2) by (simp add: queue_def queue_ok_def owned_def members_live)
  qed
  then show ?thesis using put by blast
qed

lemma first:
  assumes "queue cmp P st q" "prioq_peek q = Some s"
  shows "s \<in> members q" "r \<in> members q \<Longrightarrow> le (cmp st) s r"
  using assms comparison.peek_ok [OF order] by (auto simp: queue_def queue_ok_def members_def prioq_peek_def split: option.splits)

lemma first_none: "queue cmp P st q \<Longrightarrow> prioq_peek q = None \<longleftrightarrow> members q = {}"
proof (cases q)
  case (Some q')
  then show "queue cmp P st q \<Longrightarrow> ?thesis" using comparison.peek_empty [OF order, of st q'] by (simp add: queue_def queue_ok_def members_def)
qed (simp add: members_def prioq_peek_def)

end

interpretation pendings: event_order pending_prioq_compare es_pending
  by unfold_locales (auto simp: pending_prioq_compare_def Let_def le_def split: if_splits)

interpretation prepares: event_order prepare_prioq_compare es_prepare
  by unfold_locales (auto simp: prepare_prioq_compare_def Let_def le_def split: if_splits)

interpretation exits: event_order exit_prioq_compare "\<lambda>x. es_type x = SOURCE_EXIT"
  by unfold_locales (auto simp: exit_prioq_compare_def Let_def le_def split: if_splits)

interpretation earliests: event_order earliest_time_prioq_compare "\<lambda>x. EVENT_SOURCE_IS_TIME t \<and> es_type x = t" for t
  by unfold_locales (auto simp: earliest_time_prioq_compare_def Let_def le_def split: if_splits)

interpretation latests: event_order latest_time_prioq_compare "\<lambda>x. EVENT_SOURCE_IS_TIME t \<and> es_type x = t" for t
  by unfold_locales (auto simp: latest_time_prioq_compare_def Let_def le_def split: if_splits)

end
