(* ===== verification/Event_Timers_Facts.thy ===== *)
theory Event_Timers_Facts
  imports Event_Timers
begin

text \<open>
  What the timers of the event loop promise: the wakeup that is chosen lies in the window between the
  first time a timer may be dispatched and the first time one must have been, arming fails no
  assertion, processing ends and marks exactly the timers that are due, and setting the time or the
  accuracy of a timer keeps the queues in order.  The invariant is \<open>event_ok\<close>: both queues of every
  clock hold the same sources, of the type of the clock and in order, and the pending sources are
  in the queue of pending sources.
\<close>

section \<open>Choosing the time to wake up\<close>

lemma sleep_step_window:
  assumes "a \<le> b" "offset < step" "step \<le> 60000000" "otherwise \<in> {a..b}"
  shows "sleep_step a b step offset otherwise \<in> {a..b}"
proof -
  define m where "m = unat b div unat step * unat step"
  have pos: "0 < unat step" using assms(2) by (metis gr_zeroI not_less_zero unat_mono)
  have st: "unat step \<le> 60000000" using assms(3) by (simp add: word_le_nat_alt)
  have "unat b = m + unat b mod unat step" "unat b mod unat step < unat step" using pos by (simp_all add: m_def)
  then have b: "m \<le> unat b" "unat b < m + unat step" by linarith+
  have b64: "unat b < 2 ^ 64" using unsigned_less [of b] by simp
  have off: "unat offset < unat step" using assms(2) by (simp add: word_less_nat_alt)
  let ?c = "(b div step) * step + offset"
  have mul: "unat ((b div step) * step) = m" using le_less_trans [OF b(1) b64] le_less_trans [OF div_le_dividend [of "unat b" "unat step"] b64]
    by (simp add: m_def unat_word_ariths)
  have c: "unat ?c = (m + unat offset) mod 2 ^ 64" using mul by (simp add: unat_word_ariths)
  show ?thesis
  proof (cases "m + unat offset < 2 ^ 64")
    case True
    then have c: "unat ?c = m + unat offset" using c by simp
    have "unat (?c - step) = unat ?c - unat step" if "step \<le> ?c" using that by (simp add: unat_sub)
    then show ?thesis using assms c b off unfolding sleep_step_def Let_def
      by (auto simp: word_le_nat_alt word_less_nat_alt not_le not_less)
  next
    case False
    then have "unat ?c = m + unat offset - 2 ^ 64" using c b b64 off st by (simp add: mod_if)
    then have "unat ?c < unat b" using b(1) st off False by simp
    then show ?thesis using assms unfolding sleep_step_def Let_def by (auto simp: word_le_nat_alt not_le)
  qed
qed

lemma infinity_le: "USEC_INFINITY \<le> a \<longleftrightarrow> a = USEC_INFINITY"
  using antisym [OF word_n1_ge [of a]] by auto

lemma perturb_bound:
  assumes "ev_perturb e < USEC_PER_MINUTE \<or> ev_perturb e = USEC_INFINITY \<and> boot_id \<noteq> None"
  shows "ev_perturb (initialize_perturb boot_id e) < USEC_PER_MINUTE"
  using assms word_mod_less_divisor [of USEC_PER_MINUTE] by (auto simp: initialize_perturb_def split: option.split)

lemma sleep_between_window:
  assumes "a \<le> b" "ev_perturb e < USEC_PER_MINUTE \<or> ev_perturb e = USEC_INFINITY \<and> boot_id \<noteq> None"
  shows "\<exists>p u. sleep_between boot_id e a b = Inr (e\<lparr>ev_perturb := p\<rparr>, u) \<and> a \<le> u \<and> u \<le> b
    \<and> (p < USEC_PER_MINUTE \<or> p = USEC_INFINITY \<and> boot_id \<noteq> None)"
proof -
  let ?e = "initialize_perturb boot_id e"
  let ?u = "sleep_step a b USEC_PER_MINUTE (ev_perturb ?e) (sleep_step a b 10000000 (ev_perturb ?e mod 10000000)
    (sleep_step a b 1000000 (ev_perturb ?e mod 1000000) (sleep_step a b 250000 (ev_perturb ?e mod 250000) b)))"
  have p: "ev_perturb ?e < USEC_PER_MINUTE" using perturb_bound [OF assms(2)] by simp
  have "?u \<in> {a..b}"
    by (intro sleep_step_window assms(1) p word_mod_less_divisor) (simp_all add: assms(1))
  moreover have "?e = e\<lparr>ev_perturb := ev_perturb ?e\<rparr>"
    by (simp add: initialize_perturb_def split: option.split)
  ultimately have u: "?e = e\<lparr>ev_perturb := ev_perturb ?e\<rparr>" "a \<le> ?u" "?u \<le> b" by simp_all
  have i: "USEC_INFINITY \<le> a \<longleftrightarrow> a = USEC_INFINITY" by (rule infinity_le)
  consider "a = 0" | "a = USEC_INFINITY" | "a \<noteq> 0" "a \<noteq> USEC_INFINITY" "b \<le> a + 1"
    | "a \<noteq> 0" "a \<noteq> USEC_INFINITY" "\<not> b \<le> a + 1" by blast
  moreover have "sleep_between boot_id e a b = Inr (e, v) \<Longrightarrow> a \<le> v \<Longrightarrow> v \<le> b \<Longrightarrow> ?thesis" for v
    using assms(2) by (intro exI [of _ "ev_perturb e"] exI [of _ v]) simp
  ultimately show ?thesis
  proof cases
    case 4
    then have "sleep_between boot_id e a b = Inr (?e, ?u)" using assms(1) i by (simp add: sleep_between_def Let_def)
    then show ?thesis using u p by metis
  qed (use assms(1) i in \<open>simp_all add: sleep_between_def\<close>)
qed

text \<open>
  When the boot id cannot be read the offset keeps its initial value, which is the largest number, and
  a wakeup that is due in the first minute of a clock is put off for half a million years.
\<close>

lemma sleep_without_boot_id:
  "ev_perturb e = USEC_INFINITY \<Longrightarrow> sleep_between None e 5000000 5250000 = Inr (e, - 60000001)"
  by (simp add: sleep_between_def initialize_perturb_def sleep_step_def Let_def infinity_le)

section \<open>The invariant of the timers\<close>

abbreviation earliest_queue :: "EventSourceType \<Rightarrow> (nat \<Rightarrow> event_source) \<Rightarrow> nat Prioq option \<Rightarrow> bool" where
  "earliest_queue t \<equiv> queue earliest_time_prioq_compare (\<lambda>x. EVENT_SOURCE_IS_TIME t \<and> es_type x = t)"

abbreviation latest_queue :: "EventSourceType \<Rightarrow> (nat \<Rightarrow> event_source) \<Rightarrow> nat Prioq option \<Rightarrow> bool" where
  "latest_queue t \<equiv> queue latest_time_prioq_compare (\<lambda>x. EVENT_SOURCE_IS_TIME t \<and> es_type x = t)"

abbreviation pending_queue :: "(nat \<Rightarrow> event_source) \<Rightarrow> nat Prioq option \<Rightarrow> bool" where
  "pending_queue \<equiv> queue pending_prioq_compare es_pending"

definition clock_timers :: "sd_event \<Rightarrow> EventSourceType \<Rightarrow> nat set" where
  "clock_timers e t = members (d_earliest (ev_clocks e t))"

definition clock_ok :: "(nat \<Rightarrow> event_source) \<Rightarrow> EventSourceType \<Rightarrow> clock_data \<Rightarrow> bool" where
  "clock_ok st t d \<longleftrightarrow> earliest_queue t st (d_earliest d) \<and> latest_queue t st (d_latest d)
     \<and> members (d_latest d) = members (d_earliest d) \<and> (members (d_earliest d) \<noteq> {} \<longrightarrow> 0 \<le> d_fd d)"

definition event_ok :: "sd_event \<Rightarrow> bool" where
  "event_ok e \<longleftrightarrow> (\<forall>t. EVENT_SOURCE_IS_TIME t \<longrightarrow> clock_ok (ev_sources e) t (ev_clocks e t))
     \<and> ev_pending e \<noteq> None \<and> pending_queue (ev_sources e) (ev_pending e)
     \<and> (\<forall>t s. EVENT_SOURCE_IS_TIME t \<longrightarrow> s \<in> clock_timers e t \<longrightarrow> es_pending (ev_sources e s) \<longrightarrow> s \<in> members (ev_pending e))"

lemma timer_type: "event_ok e \<Longrightarrow> EVENT_SOURCE_IS_TIME t \<Longrightarrow> s \<in> clock_timers e t \<Longrightarrow> es_type (ev_sources e s) = t"
  using queue_P by (fastforce simp: event_ok_def clock_ok_def clock_timers_def queue_def)

lemma finite_clock_timers: "finite (clock_timers e t)"
  by (simp add: clock_timers_def members_def split: option.split)

lemma clock_same:
  assumes "clock_ok st t d" "\<And>s. s \<in> members (d_earliest d) \<Longrightarrow> st' s = st s"
  shows "clock_ok st' t d"
  using assms earliests.same_queue [where st = st and q = "d_earliest d" and t = t and st' = st']
    latests.same_queue [where st = st and q = "d_latest d" and t = t and st' = st']
  by (simp add: clock_ok_def)

lemma reshuffle_latest_ok:
  assumes "EVENT_SOURCE_IS_TIME t" "latest_queue t st (d_latest (ev_clocks e t))" "s \<in> members (d_latest (ev_clocks e t))"
    and "\<And>r. r \<noteq> s \<Longrightarrow> ev_sources e r = st r" "es_type (ev_sources e s) = t"
  shows "\<exists>q. reshuffle_latest e t s = Inr (put_clock t ((ev_clocks e t)\<lparr>d_latest := Some q, d_needs_rearm := True\<rparr>) e)
    \<and> latest_queue t (ev_sources e) (Some q) \<and> members (Some q) = members (d_latest (ev_clocks e t))"
proof -
  obtain q where "prioq_reshuffle (latest_time_prioq_compare (ev_sources e)) (d_latest (ev_clocks e t)) s (Some s) = Inr (Some q, True)"
      "latest_queue t (ev_sources e) (Some q)" "members (Some q) = members (d_latest (ev_clocks e t))"
    using latests.reshuffled [OF assms(2-4)] assms(1,5) by blast
  then show ?thesis using assms(1) by (intro exI [of _ q]) (simp add: reshuffle_latest_def event_get_clock_data_def)
qed

lemma reshuffle_times_ok:
  assumes "EVENT_SOURCE_IS_TIME t" "clock_ok st t (ev_clocks e t)" "s \<in> clock_timers e t"
    and "\<And>r. r \<noteq> s \<Longrightarrow> ev_sources e r = st r" "es_type (ev_sources e s) = t"
  shows "\<exists>d. reshuffle_times e t s = Inr (put_clock t d e) \<and> clock_ok (ev_sources e) t d
    \<and> members (d_earliest d) = clock_timers e t \<and> d_needs_rearm d"
proof -
  let ?d = "ev_clocks e t"
  have q: "earliest_queue t st (d_earliest ?d)" "latest_queue t st (d_latest ?d)" "members (d_latest ?d) = members (d_earliest ?d)"
    using assms(2) by (simp_all add: clock_ok_def)
  obtain q1 where q1: "prioq_reshuffle (earliest_time_prioq_compare (ev_sources e)) (d_earliest ?d) s (Some s) = Inr (Some q1, True)"
      "earliest_queue t (ev_sources e) (Some q1)" "members (Some q1) = members (d_earliest ?d)"
    using earliests.reshuffled [OF q(1) _ assms(4)] assms(1,3,5) by (auto simp: clock_timers_def)
  let ?e = "put_clock t (?d\<lparr>d_earliest := Some q1\<rparr>) e"
  obtain q2 where q2: "reshuffle_latest ?e t s = Inr (put_clock t ((ev_clocks ?e t)\<lparr>d_latest := Some q2, d_needs_rearm := True\<rparr>) ?e)"
      "latest_queue t (ev_sources e) (Some q2)" "members (Some q2) = members (d_latest ?d)"
    using reshuffle_latest_ok [OF assms(1), of st ?e s] q assms(3-5) by (auto simp: clock_timers_def)
  show ?thesis
    using q1 q2 q(3) assms(1,2) by (intro exI [of _ "?d\<lparr>d_earliest := Some q1, d_latest := Some q2, d_needs_rearm := True\<rparr>"])
      (simp add: reshuffle_times_def event_get_clock_data_def clock_ok_def clock_timers_def)
qed

section \<open>Marking a timer pending\<close>

lemma set_pending_queue_true:
  assumes "ev_pending e = Some q" "pending_queue st (Some q)" "s \<notin> members (Some q)" "\<forall>r. r \<noteq> s \<longrightarrow> ev_sources e r = st r"
    and "es_pending (ev_sources e s)" "pq_n_items q < 2 ^ 31 - 1"
  defines "x \<equiv> (ev_sources e s)\<lparr>es_pending_iteration := ev_iteration e\<rparr>"
  shows "set_pending_queue alloc e s True = Inr (put_source s (x\<lparr>es_pending := False\<rparr>) e, Some ENOMEM) \<and> (\<exists>n. \<not> alloc n)
    \<or> (\<exists>q'. set_pending_queue alloc e s True = Inr ((put_source s x e)\<lparr>ev_pending := Some q'\<rparr>, None)
         \<and> pending_queue ((ev_sources e)(s := x)) (Some q') \<and> members (Some q') = insert s (members (Some q))
         \<and> pq_n_items q' = Suc (pq_n_items q))"
proof -
  let ?st = "(ev_sources e)(s := x)"
  have "r \<in> members (Some q) \<Longrightarrow> ?st r = st r" for r using assms(3,4) by auto
  then have "pending_queue ?st (Some q)" by (rule pendings.same_queue [OF assms(2)])
  from pendings.added [OF this assms(3) _ assms(6), of alloc] assms(1,5) show ?thesis
    by (auto simp: set_pending_queue_def x_def Let_def)
qed

text \<open>One timer that was not pending is marked, with the number of the iteration.\<close>

definition marked :: "sd_event \<Rightarrow> nat \<Rightarrow> sd_event \<Rightarrow> bool" where
  "marked e s e' \<longleftrightarrow>
     ev_sources e' = (ev_sources e)(s := (ev_sources e s)\<lparr>es_pending := True, es_pending_iteration := ev_iteration e\<rparr>)
     \<and> clock_timers e' = clock_timers e \<and> ev_iteration e' = ev_iteration e
     \<and> (\<forall>q q'. ev_pending e = Some q \<longrightarrow> ev_pending e' = Some q' \<longrightarrow> pq_n_items q' = Suc (pq_n_items q))"

lemma event_ok_step:
  assumes "event_ok e" "EVENT_SOURCE_IS_TIME t" "s \<in> clock_timers e t"
    and "es_type x = t" "ev_sources e' = (ev_sources e)(s := x)" "ev_clocks e' = (ev_clocks e)(t := d)"
    and "clock_ok (ev_sources e') t d" "members (d_earliest d) = clock_timers e t"
    and "ev_pending e' = Some q" "pending_queue (ev_sources e') (Some q)"
    and "members (Some q) = (if es_pending x then insert s else id) (members (ev_pending e) - {s})"
  shows "event_ok e'" "clock_timers e' = clock_timers e"
proof -
  show ct: "clock_timers e' = clock_timers e" using assms(6,8) by (auto simp: clock_timers_def fun_eq_iff)
  have "clock_ok (ev_sources e') u (ev_clocks e' u)" if u: "EVENT_SOURCE_IS_TIME u" for u
  proof (cases "u = t")
    case False
    then have "s \<notin> clock_timers e u" using timer_type [OF assms(1) u] timer_type [OF assms(1-3)] by blast
    then have "r \<in> members (d_earliest (ev_clocks e u)) \<Longrightarrow> ev_sources e' r = ev_sources e r" for r
      using assms(5) by (auto simp: clock_timers_def)
    moreover have "clock_ok (ev_sources e) u (ev_clocks e u)" using assms(1) u by (simp add: event_ok_def)
    ultimately have "clock_ok (ev_sources e') u (ev_clocks e u)" using clock_same by blast
    then show ?thesis using assms(6) False by simp
  qed (use assms(6,7) in simp)
  moreover have "r \<in> members (ev_pending e')" if "EVENT_SOURCE_IS_TIME u" "r \<in> clock_timers e' u" "es_pending (ev_sources e' r)" for u r
    using that assms(1,5,9,11) ct by (cases "r = s") (auto simp: event_ok_def)
  ultimately show "event_ok e'" using assms(9,10) by (simp add: event_ok_def)
qed

lemma not_pending:
  assumes "event_ok e" "\<not> es_pending (ev_sources e s)"
  shows "s \<notin> members (ev_pending e)"
  using assms queue_P by (auto simp: event_ok_def queue_def)

lemma time_types: "EVENT_SOURCE_IS_TIME t \<Longrightarrow> t \<noteq> SOURCE_EXIT \<and> t \<noteq> SOURCE_SIGNAL"
  by (auto simp: EVENT_SOURCE_IS_TIME_def)

lemma set_pending_time:
  assumes "EVENT_SOURCE_IS_TIME t" "es_type (ev_sources e s) = t" "es_pending (ev_sources e s) \<noteq> b"
  shows "source_set_pending alloc e s b =
    rbind (set_pending_queue alloc (put_source s ((ev_sources e s)\<lparr>es_pending := b\<rparr>) e) s b) (\<lambda>(e, r).
      if r \<noteq> None then Inr (e, r) else rbind (reshuffle_times e t s) (\<lambda>e. Inr (e, None)))"
  using assms time_types [OF assms(1)]
  by (cases "set_pending_queue alloc (put_source s ((ev_sources e s)\<lparr>es_pending := b\<rparr>) e) s b")
    (simp_all add: source_set_pending_def Let_def split: prod.split)

lemma clock_iteration: "clock_ok (st(s := (st s)\<lparr>es_pending_iteration := i\<rparr>)) t d \<longleftrightarrow> clock_ok st t d"
proof -
  let ?st = "st(s := (st s)\<lparr>es_pending_iteration := i\<rparr>)"
  have "earliest_time_prioq_compare ?st = earliest_time_prioq_compare st"
    by (intro ext) (auto simp: earliest_time_prioq_compare_def Let_def)
  moreover have "latest_time_prioq_compare ?st = latest_time_prioq_compare st"
    by (intro ext) (auto simp: latest_time_prioq_compare_def time_event_source_latest_def Let_def)
  moreover have "(\<lambda>r. EVENT_SOURCE_IS_TIME t \<and> es_type (?st r) = t) = (\<lambda>r. EVENT_SOURCE_IS_TIME t \<and> es_type (st r) = t)"
    by auto
  ultimately show ?thesis unfolding clock_ok_def queue_def by simp
qed

lemma unmarked_ok:
  fixes i :: u32
  assumes "event_ok e" "EVENT_SOURCE_IS_TIME t" "s \<in> clock_timers e t" "\<not> es_pending (ev_sources e s)"
  defines "e' \<equiv> put_source s ((ev_sources e s)\<lparr>es_pending_iteration := i\<rparr>) e"
  shows "event_ok e'" "clock_timers e' = clock_timers e"
proof -
  obtain q where q: "ev_pending e = Some q" "pending_queue (ev_sources e) (Some q)" using assms(1) by (auto simp: event_ok_def)
  have s: "s \<notin> members (Some q)" using not_pending [OF assms(1,4)] q by simp
  have "pending_queue (ev_sources e') (Some q)"
    by (rule pendings.same_queue [OF q(2)]) (use s in \<open>auto simp: e'_def\<close>)
  moreover have "clock_ok (ev_sources e') t (ev_clocks e t)"
    using assms(1,2) by (simp add: e'_def clock_iteration event_ok_def)
  ultimately show "event_ok e'" "clock_timers e' = clock_timers e"
    using event_ok_step [OF assms(1-3), where e' = e' and d = "ev_clocks e t" and q = q and x = "(ev_sources e s)\<lparr>es_pending_iteration := i\<rparr>"]
      timer_type [OF assms(1-3)] assms(4) q s by (simp_all add: e'_def clock_timers_def)
qed

lemma marked_ok:
  assumes "event_ok e" "EVENT_SOURCE_IS_TIME t" "s \<in> clock_timers e t" "ev_pending e = Some q"
  defines "x \<equiv> (ev_sources e s)\<lparr>es_pending := True, es_pending_iteration := ev_iteration e\<rparr>"
  assumes q': "pending_queue ((ev_sources e)(s := x)) (Some q')" "members (Some q') = insert s (members (Some q))"
    "pq_n_items q' = Suc (pq_n_items q)"
  defines "e2 \<equiv> (put_source s x e)\<lparr>ev_pending := Some q'\<rparr>"
  shows "\<exists>d. reshuffle_times e2 t s = Inr (put_clock t d e2) \<and> event_ok (put_clock t d e2) \<and> marked e s (put_clock t d e2)"
proof -
  have ty: "es_type x = t" using timer_type [OF assms(1-3)] by (simp add: x_def)
  have c: "clock_ok (ev_sources e) t (ev_clocks e2 t)" using assms(1,2) by (simp add: event_ok_def e2_def)
  obtain d where d: "reshuffle_times e2 t s = Inr (put_clock t d e2)" "clock_ok (ev_sources e2) t d"
      "members (d_earliest d) = clock_timers e2 t"
    using reshuffle_times_ok [OF assms(2) c, of s] assms(3) ty by (auto simp: e2_def clock_timers_def)
  have ct: "clock_timers e2 t = clock_timers e t" by (simp add: e2_def clock_timers_def)
  note st = event_ok_step [OF assms(1-3) ty, where e' = "put_clock t d e2" and d = d and q = q']
  have "event_ok (put_clock t d e2)" "clock_timers (put_clock t d e2) = clock_timers e"
    using st d ct q' assms(4) by (auto simp: e2_def x_def)
  then show ?thesis using d(1) q'(3) assms(4) by (auto simp: marked_def e2_def x_def)
qed

lemma source_set_pending_true:
  assumes "event_ok e" "EVENT_SOURCE_IS_TIME t" "s \<in> clock_timers e t" "\<not> es_pending (ev_sources e s)"
    and "ev_pending e = Some q" "pq_n_items q < 2 ^ 31 - 1"
  shows "\<exists>e'. event_ok e' \<and>
    (source_set_pending alloc e s True = Inr (e', Some ENOMEM) \<and> (\<exists>n. \<not> alloc n) \<and> clock_timers e' = clock_timers e
       \<and> ev_sources e' = (ev_sources e)(s := (ev_sources e s)\<lparr>es_pending_iteration := ev_iteration e\<rparr>)
     \<or> source_set_pending alloc e s True = Inr (e', None) \<and> marked e s e')"
proof -
  have pq: "pending_queue (ev_sources e) (Some q)" using assms(1,5) by (simp add: event_ok_def)
  have s: "s \<notin> members (Some q)" using not_pending [OF assms(1,4)] assms(5) by simp
  define e1 where "e1 = put_source s ((ev_sources e s)\<lparr>es_pending := True\<rparr>) e"
  define x where "x = (ev_sources e s)\<lparr>es_pending := True, es_pending_iteration := ev_iteration e\<rparr>"
  have e1: "ev_pending e1 = Some q" "\<forall>r. r \<noteq> s \<longrightarrow> ev_sources e1 r = ev_sources e r" "es_pending (ev_sources e1 s)"
    using assms(5) by (simp_all add: e1_def)
  have x: "(ev_sources e1 s)\<lparr>es_pending_iteration := ev_iteration e1\<rparr> = x" "e1\<lparr>ev_sources := f\<rparr> = e\<lparr>ev_sources := f\<rparr>"
    "(ev_sources e1)(s := y) = (ev_sources e)(s := y)" for y f by (simp_all add: e1_def x_def)
  have z: "x\<lparr>es_pending := False\<rparr> = (ev_sources e s)\<lparr>es_pending_iteration := ev_iteration e\<rparr>"
    using assms(4) by (cases "ev_sources e s") (simp add: x_def)
  note unfold = set_pending_time [OF assms(2) timer_type [OF assms(1-3)], of True alloc, folded e1_def]
  from set_pending_queue_true [OF e1(1) pq s e1(2,3) assms(6), of alloc, unfolded x z] show ?thesis
  proof (elim disjE exE conjE)
    let ?e = "put_source s ((ev_sources e s)\<lparr>es_pending_iteration := ev_iteration e\<rparr>) e"
    fix n assume "set_pending_queue alloc e1 s True = Inr (?e, Some ENOMEM)" "\<not> alloc n"
    then have "source_set_pending alloc e s True = Inr (?e, Some ENOMEM)" "\<exists>n. \<not> alloc n"
      using unfold assms(4) by auto
    then show ?thesis using unmarked_ok [OF assms(1-4), of "ev_iteration e"] by (intro exI [of _ ?e]) simp
  next
    fix q'
    assume q': "set_pending_queue alloc e1 s True = Inr ((put_source s x e)\<lparr>ev_pending := Some q'\<rparr>, None)"
      "pending_queue ((ev_sources e)(s := x)) (Some q')" "members (Some q') = insert s (members (Some q))"
      "pq_n_items q' = Suc (pq_n_items q)"
    let ?e = "(put_source s x e)\<lparr>ev_pending := Some q'\<rparr>"
    obtain d where d: "reshuffle_times ?e t s = Inr (put_clock t d ?e)" "event_ok (put_clock t d ?e)" "marked e s (put_clock t d ?e)"
      using marked_ok [OF assms(1-3,5) q'(2-4) [unfolded x_def]] unfolding x_def by blast
    have "source_set_pending alloc e s True = Inr (put_clock t d ?e, None)"
      using unfold assms(4) q'(1) d(1) by simp
    then show ?thesis using d(2,3) by (intro exI [of _ "put_clock t d ?e"]) simp
  qed
qed

section \<open>Processing the timers\<close>

definition due :: "sd_event \<Rightarrow> u64 \<Rightarrow> EventSourceType \<Rightarrow> nat \<Rightarrow> bool" where
  "due e n t s \<longleftrightarrow> s \<in> clock_timers e t \<and> es_enabled (ev_sources e s) \<noteq> SD_EVENT_OFF \<and> es_next (ev_sources e s) \<le> n"

definition unmarked :: "event_source \<Rightarrow> event_source" where
  "unmarked x = x\<lparr>es_pending := False, es_pending_iteration := 0\<rparr>"

definition idle_timers :: "sd_event \<Rightarrow> EventSourceType \<Rightarrow> nat set" where
  "idle_timers e t = {s \<in> clock_timers e t. \<not> es_pending (ev_sources e s)}"

definition room :: "sd_event \<Rightarrow> EventSourceType \<Rightarrow> bool" where
  "room e t \<longleftrightarrow> prioq_size (ev_pending e) + card (idle_timers e t) < 2 ^ 31 - 1"

lemma unmarked_fields: "unmarked x = unmarked y \<Longrightarrow> es_enabled x = es_enabled y \<and> es_next x = es_next y \<and> es_accuracy x = es_accuracy y"
  by (cases x; cases y) (simp add: unmarked_def)

lemma earliest_first:
  assumes "event_ok e" "EVENT_SOURCE_IS_TIME t" "prioq_peek (d_earliest (ev_clocks e t)) = Some s"
  shows "s \<in> clock_timers e t" "r \<in> clock_timers e t \<Longrightarrow> le (earliest_time_prioq_compare (ev_sources e)) s r"
  using assms earliests.first [where st = "ev_sources e" and q = "d_earliest (ev_clocks e t)" and t = t and s = s]
  by (simp_all add: event_ok_def clock_ok_def clock_timers_def)

lemma none_due:
  assumes "event_ok e" "EVENT_SOURCE_IS_TIME t" "due e n t r" "\<not> es_pending (ev_sources e r)"
  obtains s where "prioq_peek (d_earliest (ev_clocks e t)) = Some s" "due e n t s" "\<not> es_pending (ev_sources e s)"
proof -
  have r: "r \<in> clock_timers e t" using assms(3) by (simp add: due_def)
  obtain s where s: "prioq_peek (d_earliest (ev_clocks e t)) = Some s"
    using earliests.first_none [where st = "ev_sources e" and q = "d_earliest (ev_clocks e t)" and t = t] assms(1,2) r
    by (auto simp: event_ok_def clock_ok_def clock_timers_def)
  note f = earliest_first [OF assms(1,2) s]
  have "due e n t s" "\<not> es_pending (ev_sources e s)"
    using f(1) f(2) [OF r] assms(3,4)
    by (auto simp: due_def le_def earliest_time_prioq_compare_def Let_def split: if_splits)
  then show ?thesis using that s by blast
qed

lemma reshuffle_event_ok:
  assumes "event_ok e" "EVENT_SOURCE_IS_TIME t" "s \<in> clock_timers e t"
  shows "\<exists>e'. reshuffle_times e t s = Inr e' \<and> event_ok e' \<and> clock_timers e' = clock_timers e
    \<and> ev_sources e' = ev_sources e \<and> ev_pending e' = ev_pending e"
proof -
  have ty: "es_type (ev_sources e s) = t" by (rule timer_type [OF assms])
  obtain q where q: "ev_pending e = Some q" "pending_queue (ev_sources e) (Some q)" using assms(1) by (auto simp: event_ok_def)
  have "clock_ok (ev_sources e) t (ev_clocks e t)" using assms(1,2) by (simp add: event_ok_def)
  from reshuffle_times_ok [OF assms(2) this assms(3) refl ty] obtain d where
    d: "reshuffle_times e t s = Inr (put_clock t d e)" "clock_ok (ev_sources e) t d" "members (d_earliest d) = clock_timers e t" by blast
  have "members (Some q) = (if es_pending (ev_sources e s) then insert s else id) (members (ev_pending e) - {s})"
    using assms not_pending [OF assms(1), of s] q(1) by (auto simp: event_ok_def)
  then have "event_ok (put_clock t d e)" "clock_timers (put_clock t d e) = clock_timers e"
    using event_ok_step [OF assms ty, where e' = "put_clock t d e" and d = d and q = q] d q by simp_all
  then show ?thesis using d(1) by simp
qed

lemma process_step:
  assumes "event_ok e" "EVENT_SOURCE_IS_TIME t" "s \<in> clock_timers e t" "\<not> es_pending (ev_sources e s)" "room e t"
  shows "\<exists>e'. event_ok e' \<and> clock_timers e' = clock_timers e \<and> (\<forall>r. unmarked (ev_sources e' r) = unmarked (ev_sources e r)) \<and>
    (source_set_pending alloc e s True = Inr (e', Some ENOMEM) \<and> (\<exists>n. \<not> alloc n)
       \<and> (\<forall>r. es_pending (ev_sources e' r) = es_pending (ev_sources e r))
     \<or> (\<exists>e1. source_set_pending alloc e s True = Inr (e1, None) \<and> reshuffle_times e1 t s = Inr e')
       \<and> (\<forall>r. es_pending (ev_sources e' r) \<longleftrightarrow> r = s \<or> es_pending (ev_sources e r))
       \<and> card (idle_timers e t) = Suc (card (idle_timers e' t)) \<and> room e' t)"
proof -
  obtain q where q: "ev_pending e = Some q" using assms(1) by (auto simp: event_ok_def)
  have fin: "finite (idle_timers e t)" using finite_clock_timers [of e t] by (simp add: idle_timers_def)
  have "pq_n_items q < 2 ^ 31 - 1" using assms(5) q by (simp add: room_def prioq_size_def)
  from source_set_pending_true [OF assms(1-4) q this, of alloc] show ?thesis
  proof (elim exE conjE disjE)
    fix e' n assume e': "event_ok e'" "source_set_pending alloc e s True = Inr (e', Some ENOMEM)" "\<not> alloc n"
      "clock_timers e' = clock_timers e" "ev_sources e' = (ev_sources e)(s := (ev_sources e s)\<lparr>es_pending_iteration := ev_iteration e\<rparr>)"
    then show ?thesis by (intro exI [of _ e']) (auto simp: unmarked_def)
  next
    fix e1 assume e1: "event_ok e1" "source_set_pending alloc e s True = Inr (e1, None)" "marked e s e1"
    have ct: "clock_timers e1 = clock_timers e" using e1(3) by (simp add: marked_def)
    obtain e' where e': "reshuffle_times e1 t s = Inr e'" "event_ok e'" "clock_timers e' = clock_timers e1"
        "ev_sources e' = ev_sources e1" "ev_pending e' = ev_pending e1"
      using reshuffle_event_ok [OF e1(1) assms(2), of s] assms(3) ct by auto
    have p: "es_pending (ev_sources e' r) \<longleftrightarrow> r = s \<or> es_pending (ev_sources e r)" for r
      using e'(4) e1(3) by (simp add: marked_def)
    have u: "unmarked (ev_sources e' r) = unmarked (ev_sources e r)" for r using e'(4) e1(3) by (simp add: marked_def unmarked_def)
    have "idle_timers e' t = idle_timers e t - {s}" "s \<in> idle_timers e t" using p e'(3) ct assms(3,4) by (auto simp: idle_timers_def)
    then have c: "card (idle_timers e t) = Suc (card (idle_timers e' t))" using fin by (metis card_Suc_Diff1)
    have "prioq_size (ev_pending e') = Suc (prioq_size (ev_pending e))"
      using e1(1,3) e'(5) q by (auto simp: marked_def event_ok_def prioq_size_def)
    then have "room e' t" using assms(5) c by (simp add: room_def)
    then show ?thesis using e1(2) e' c p u ct by (intro exI [of _ e']) auto
  qed
qed

text \<open>
  C40. Processing the timers of a clock at time \<open>n\<close> always ends.  It marks as pending exactly the
  enabled timers whose time has come, and puts them into the queue of pending sources; it changes
  nothing else of any source and keeps all queues in order.  Only an allocation that is refused stops
  it early, with \<open>-ENOMEM\<close>, and then too only timers that are due are marked.
\<close>

theorem process_timer_marks_due:
  assumes "event_ok e" "EVENT_SOURCE_IS_TIME t" "room e t"
  shows "\<exists>e' r. process_timer alloc n t e = Some (Inr (e', r)) \<and> event_ok e' \<and> clock_timers e' = clock_timers e
    \<and> (\<forall>s. unmarked (ev_sources e' s) = unmarked (ev_sources e s))
    \<and> (\<forall>s. es_pending (ev_sources e' s) \<longrightarrow> es_pending (ev_sources e s) \<or> due e n t s)
    \<and> (if r = None then \<forall>s. es_pending (ev_sources e' s) \<longleftrightarrow> es_pending (ev_sources e s) \<or> due e n t s
       else r = Some ENOMEM \<and> (\<exists>n. \<not> alloc n))"
  using assms
proof (induction "card (idle_timers e t)" arbitrary: e rule: less_induct)
  case less
  show ?case
  proof (cases "\<exists>s. prioq_peek (d_earliest (ev_clocks e t)) = Some s \<and> due e n t s \<and> \<not> es_pending (ev_sources e s)")
    case False
    then have "process_timer alloc n t e = Some (Inr (e, None))"
      using earliest_first(1) [OF less.prems(1,2)] by (subst process_timer.simps) (auto simp: due_def not_less split: option.split)
    moreover have "due e n t s \<Longrightarrow> es_pending (ev_sources e s)" for s using False none_due [OF less.prems(1,2)] by metis
    ultimately show ?thesis using less.prems(1) by (intro exI [of _ e] exI [of _ None]) auto
  next
    case True
    then obtain s where s: "prioq_peek (d_earliest (ev_clocks e t)) = Some s" "due e n t s" "\<not> es_pending (ev_sources e s)" by blast
    then have run: "process_timer alloc n t e = (case source_set_pending alloc e s True of
              Inl f \<Rightarrow> Some (Inl f)
            | Inr (e, Some r) \<Rightarrow> Some (Inr (e, Some r))
            | Inr (e, None) \<Rightarrow> (case reshuffle_times e t s of
                  Inl f \<Rightarrow> Some (Inl f)
                | Inr e \<Rightarrow> process_timer alloc n t e))"
      by (subst process_timer.simps) (simp add: due_def leD)
    have st: "s \<in> clock_timers e t" using s(2) by (simp add: due_def)
    from process_step [OF less.prems(1,2) st s(3) less.prems(3), of alloc] obtain e' where
      e': "event_ok e'" "clock_timers e' = clock_timers e" "\<forall>r. unmarked (ev_sources e' r) = unmarked (ev_sources e r)"
      and c: "source_set_pending alloc e s True = Inr (e', Some ENOMEM) \<and> (\<exists>n. \<not> alloc n)
          \<and> (\<forall>r. es_pending (ev_sources e' r) = es_pending (ev_sources e r))
        \<or> (\<exists>e1. source_set_pending alloc e s True = Inr (e1, None) \<and> reshuffle_times e1 t s = Inr e')
          \<and> (\<forall>r. es_pending (ev_sources e' r) \<longleftrightarrow> r = s \<or> es_pending (ev_sources e r))
          \<and> card (idle_timers e t) = Suc (card (idle_timers e' t)) \<and> room e' t" by blast
    have due: "due e' n t r = due e n t r" for r
      using e'(2) unmarked_fields [OF e'(3) [rule_format, of r]] by (simp add: due_def)
    from c show ?thesis
    proof (elim disjE conjE exE)
      fix m assume "source_set_pending alloc e s True = Inr (e', Some ENOMEM)" "\<not> alloc m"
        "\<forall>r. es_pending (ev_sources e' r) = es_pending (ev_sources e r)"
      then show ?thesis using e' run by (intro exI [of _ e'] exI [of _ "Some ENOMEM"]) auto
    next
      fix e1 assume *: "source_set_pending alloc e s True = Inr (e1, None)" "reshuffle_times e1 t s = Inr e'"
        "\<forall>r. es_pending (ev_sources e' r) \<longleftrightarrow> r = s \<or> es_pending (ev_sources e r)"
        "card (idle_timers e t) = Suc (card (idle_timers e' t))" "room e' t"
      have "card (idle_timers e' t) < card (idle_timers e t)" using *(4) by simp
      from less.hyps [OF this e'(1) less.prems(2) *(5)] obtain e'' r where
        r: "process_timer alloc n t e' = Some (Inr (e'', r))" "event_ok e''" "clock_timers e'' = clock_timers e'"
          "\<forall>s. unmarked (ev_sources e'' s) = unmarked (ev_sources e' s)"
          "\<forall>s. es_pending (ev_sources e'' s) \<longrightarrow> es_pending (ev_sources e' s) \<or> due e' n t s"
          "if r = None then \<forall>s. es_pending (ev_sources e'' s) \<longleftrightarrow> es_pending (ev_sources e' s) \<or> due e' n t s
           else r = Some ENOMEM \<and> (\<exists>n. \<not> alloc n)" by blast
      have "process_timer alloc n t e = Some (Inr (e'', r))" using run *(1,2) r(1) by simp
      moreover have p: "es_pending (ev_sources e' q) \<or> due e' n t q \<longleftrightarrow> es_pending (ev_sources e q) \<or> due e n t q" for q
        using *(3) due s(2) by auto
      ultimately show ?thesis using r(2-6) e'(2,3) unfolding p by (intro exI [of _ e''] exI [of _ r]) simp
    qed
  qed
qed

section \<open>Setting the time of a timer\<close>

lemma changed_timer_ok:
  assumes "event_ok e" "EVENT_SOURCE_IS_TIME t" "s \<in> clock_timers e t" "es_type x = t" "es_pending x = es_pending (ev_sources e s)"
  defines "y \<equiv> x\<lparr>es_pending := False\<rparr>"
  shows "\<exists>e1 e'. source_set_pending alloc (put_source s x e) s False = Inr (e1, None) \<and> reshuffle_times e1 t s = Inr e'
    \<and> event_ok e' \<and> clock_timers e' = clock_timers e \<and> ev_sources e' = (ev_sources e)(s := y)
    \<and> (es_pending x \<longrightarrow> event_ok e1 \<and> clock_timers e1 = clock_timers e \<and> ev_sources e1 = (ev_sources e)(s := y))"
proof -
  obtain q where q: "ev_pending e = Some q" "pending_queue (ev_sources e) (Some q)" using assms(1) by (auto simp: event_ok_def)
  have c: "clock_ok (ev_sources e) t (ev_clocks e t)" using assms(1,2) by (simp add: event_ok_def)
  show ?thesis
  proof (cases "es_pending x")
    case False
    let ?e = "put_source s x e"
    have y: "y = x" using False by (cases x) (simp add: y_def)
    obtain d where d: "reshuffle_times ?e t s = Inr (put_clock t d ?e)" "clock_ok (ev_sources ?e) t d" "members (d_earliest d) = clock_timers e t"
      using reshuffle_times_ok [OF assms(2), of "ev_sources e" ?e s] c assms(3,4) by (auto simp: clock_timers_def)
    have s: "s \<notin> members (Some q)" using not_pending [OF assms(1), of s] False assms(5) q(1) by simp
    have "pending_queue (ev_sources ?e) (Some q)" by (rule pendings.same_queue [OF q(2)]) (use s in auto)
    then have "event_ok (put_clock t d ?e)" "clock_timers (put_clock t d ?e) = clock_timers e"
      using event_ok_step [OF assms(1-4), where e' = "put_clock t d ?e" and d = d and q = q] d q s False by simp_all
    moreover have "source_set_pending alloc ?e s False = Inr (?e, None)"
      using False assms(2,4) time_types [OF assms(2)] by (simp add: source_set_pending_def)
    ultimately show ?thesis using d(1) y False by simp
  next
    case True
    have s: "s \<in> members (Some q)" using assms(1-3,5) True q(1) by (auto simp: event_ok_def)
    let ?e = "put_source s y e"
    obtain q' where q': "prioq_remove (pending_prioq_compare (ev_sources ?e)) (Some q) s (Some s) = Inr (Some q', True)"
        "pending_queue (ev_sources ?e) (Some q')" "members (Some q') = members (Some q) - {s}"
      using pendings.removed [OF q(2) s, of "ev_sources ?e"] by auto
    let ?e1 = "?e\<lparr>ev_pending := Some q'\<rparr>"
    obtain d where d: "reshuffle_times ?e1 t s = Inr (put_clock t d ?e1)" "clock_ok (ev_sources ?e1) t d" "members (d_earliest d) = clock_timers e t"
      using reshuffle_times_ok [OF assms(2), of "ev_sources e" ?e1 s] c assms(3,4) by (auto simp: clock_timers_def y_def)
    have ok: "event_ok (put_clock t d ?e1)" "clock_timers (put_clock t d ?e1) = clock_timers e"
      using event_ok_step [OF assms(1-3), where x = y and e' = "put_clock t d ?e1" and d = d and q = q'] d q q' assms(4)
      by (simp_all add: y_def)
    have "set_pending_queue alloc ?e s False = Inr (?e1, None)" using q q' by (simp add: set_pending_queue_def)
    moreover have "source_set_pending alloc (put_source s x e) s False =
        rbind (set_pending_queue alloc ?e s False) (\<lambda>(e, r).
          if r \<noteq> None then Inr (e, r) else rbind (reshuffle_times e t s) (\<lambda>e. Inr (e, None)))"
      using set_pending_time [OF assms(2), of "put_source s x e" s False alloc] True assms(4) by (simp add: y_def)
    ultimately have "source_set_pending alloc (put_source s x e) s False = Inr (put_clock t d ?e1, None)" using d(1) by simp
    moreover obtain e' where "reshuffle_times (put_clock t d ?e1) t s = Inr e'" "event_ok e'"
        "clock_timers e' = clock_timers e" "ev_sources e' = (ev_sources e)(s := y)"
      using reshuffle_event_ok [OF ok(1) assms(2), of s] ok(2) assms(3) by auto
    moreover have "ev_sources (put_clock t d ?e1) = (ev_sources e)(s := y)" by simp
    ultimately show ?thesis using ok by blast
  qed
qed

lemma sd_event_source_set_time_ok:
  assumes "event_ok e" "EVENT_SOURCE_IS_TIME t" "s \<in> clock_timers e t" "ev_state e \<noteq> SD_EVENT_FINISHED" "\<not> ev_pid_changed e"
  shows "\<exists>e'. sd_event_source_set_time alloc e s usec = Inr (e', None) \<and> event_ok e' \<and> clock_timers e' = clock_timers e
    \<and> ev_sources e' = (ev_sources e)(s := (ev_sources e s)\<lparr>es_next := usec, es_pending := False\<rparr>)"
proof -
  have ty: "es_type (ev_sources e s) = t" by (rule timer_type [OF assms(1-3)])
  from changed_timer_ok [OF assms(1-3), of "(ev_sources e s)\<lparr>es_next := usec\<rparr>" alloc] ty obtain e1 e' where
    "source_set_pending alloc (put_source s ((ev_sources e s)\<lparr>es_next := usec\<rparr>) e) s False = Inr (e1, None)"
    "reshuffle_times e1 t s = Inr e'" "event_ok e'" "clock_timers e' = clock_timers e"
    "ev_sources e' = (ev_sources e)(s := (ev_sources e s)\<lparr>es_next := usec, es_pending := False\<rparr>)" by auto
  then show ?thesis using ty assms(2,4,5) by (simp add: sd_event_source_set_time_def Let_def)
qed

section \<open>Arming the timer\<close>

definition armed :: "sd_event \<Rightarrow> EventSourceType \<Rightarrow> nat \<Rightarrow> bool" where
  "armed e t s \<longleftrightarrow> s \<in> clock_timers e t \<and> es_enabled (ev_sources e s) \<noteq> SD_EVENT_OFF \<and> \<not> es_pending (ev_sources e s)
     \<and> es_next (ev_sources e s) \<noteq> USEC_INFINITY"

definition wakeup_value :: "u64 \<Rightarrow> timer_call" where
  "wakeup_value u = (if u = 0 then (0, 1) else timespec_store u)"

lemma usec_add_ge: "a \<le> usec_add a b"
  by (auto simp: usec_add_def Let_def not_less)

lemma earliest_le:
  "le (earliest_time_prioq_compare st) a r \<Longrightarrow> es_enabled (st r) \<noteq> SD_EVENT_OFF \<Longrightarrow> \<not> es_pending (st r) \<Longrightarrow>
     es_enabled (st a) \<noteq> SD_EVENT_OFF \<and> \<not> es_pending (st a) \<and> es_next (st a) \<le> es_next (st r)"
  by (auto simp: le_def earliest_time_prioq_compare_def Let_def split: if_splits)

lemma latest_le:
  "le (latest_time_prioq_compare st) a r \<Longrightarrow> es_enabled (st r) \<noteq> SD_EVENT_OFF \<Longrightarrow> \<not> es_pending (st r) \<Longrightarrow>
     es_enabled (st a) \<noteq> SD_EVENT_OFF \<and> \<not> es_pending (st a) \<and> time_event_source_latest (st a) \<le> time_event_source_latest (st r)"
  by (auto simp: le_def latest_time_prioq_compare_def Let_def split: if_splits)

lemma first_window:
  assumes "event_ok e" "EVENT_SOURCE_IS_TIME t" "armed e t s"
  obtains a b where "prioq_peek (d_earliest (ev_clocks e t)) = Some a" "prioq_peek (d_latest (ev_clocks e t)) = Some b"
    "armed e t a" "b \<in> clock_timers e t" "es_enabled (ev_sources e b) \<noteq> SD_EVENT_OFF"
    "\<And>r. armed e t r \<Longrightarrow> es_next (ev_sources e a) \<le> es_next (ev_sources e r)"
    "\<And>r. armed e t r \<Longrightarrow> time_event_source_latest (ev_sources e b) \<le> time_event_source_latest (ev_sources e r)"
    "es_next (ev_sources e a) \<le> time_event_source_latest (ev_sources e b)"
proof -
  have c: "clock_ok (ev_sources e) t (ev_clocks e t)" using assms(1,2) by (simp add: event_ok_def)
  have s: "s \<in> clock_timers e t" using assms(3) by (simp add: armed_def)
  obtain a where a: "prioq_peek (d_earliest (ev_clocks e t)) = Some a"
    using earliests.first_none [where st = "ev_sources e" and q = "d_earliest (ev_clocks e t)" and t = t] c s
    by (auto simp: clock_ok_def clock_timers_def)
  obtain b where b: "prioq_peek (d_latest (ev_clocks e t)) = Some b"
    using latests.first_none [where st = "ev_sources e" and q = "d_latest (ev_clocks e t)" and t = t] c s
    by (auto simp: clock_ok_def clock_timers_def)
  note ea = earliest_first [OF assms(1,2) a]
  have lb: "b \<in> clock_timers e t" "\<And>r. r \<in> clock_timers e t \<Longrightarrow> le (latest_time_prioq_compare (ev_sources e)) b r"
    using latests.first [where st = "ev_sources e" and q = "d_latest (ev_clocks e t)" and t = t and s = b] c b
    by (simp_all add: clock_ok_def clock_timers_def)
  have es: "armed e t r \<Longrightarrow> es_next (ev_sources e a) \<le> es_next (ev_sources e r)" for r
    using earliest_le [OF ea(2)] by (simp add: armed_def)
  have "es_next (ev_sources e a) \<noteq> USEC_INFINITY" using es [OF assms(3)] assms(3) infinity_le [of "es_next (ev_sources e s)"]
    by (metis armed_def)
  then have a': "armed e t a" using earliest_le [OF ea(2) [OF s]] ea(1) assms(3) by (simp add: armed_def)
  have ls: "armed e t r \<Longrightarrow> time_event_source_latest (ev_sources e b) \<le> time_event_source_latest (ev_sources e r)" for r
    using latest_le [OF lb(2)] by (simp add: armed_def)
  have b': "es_enabled (ev_sources e b) \<noteq> SD_EVENT_OFF" "\<not> es_pending (ev_sources e b)"
    using latest_le [OF lb(2) [OF s]] assms(3) by (simp_all add: armed_def)
  have "es_next (ev_sources e a) \<le> es_next (ev_sources e b)" using earliest_le [OF ea(2) [OF lb(1)] b'] by simp
  also have "\<dots> \<le> time_event_source_latest (ev_sources e b)" by (simp add: time_event_source_latest_def usec_add_ge)
  finally show ?thesis using that [OF a b a' lb(1) b'(1) es ls] by blast
qed

lemma event_ok_clock:
  assumes "event_ok e" "ev_sources e' = ev_sources e" "ev_pending e' = ev_pending e"
    and "\<And>u. d_earliest (ev_clocks e' u) = d_earliest (ev_clocks e u) \<and> d_latest (ev_clocks e' u) = d_latest (ev_clocks e u) \<and> d_fd (ev_clocks e' u) = d_fd (ev_clocks e u)"
  shows "event_ok e'"
  using assms by (simp add: event_ok_def clock_ok_def clock_timers_def)

text \<open>
  C39. When a clock of the event loop has to be rearmed and some timer of it is enabled, not yet
  pending and not at infinity, arming never fails an assertion: both queues have an entry, the window
  between the earliest time and the latest time of all timers is not empty, and the time \<open>u\<close> that is
  chosen lies in it.  The timer descriptor is set to exactly this time, unless it already is, so no
  timer is woken after its time plus its accuracy, and the wakeup is not before the first one is due.
  The offset that aligns wakeups has to be known, or the boot id has to be readable.
\<close>

theorem event_arm_timer_in_window:
  assumes "event_ok e" "EVENT_SOURCE_IS_TIME t" "d_needs_rearm (ev_clocks e t)" "armed e t s"
    and "ev_perturb e < USEC_PER_MINUTE \<or> ev_perturb e = USEC_INFINITY \<and> boot_id \<noteq> None"
  shows "\<exists>e' r calls u. event_arm_timer boot_id timerfd_settime e t = Inr (e', r, calls) \<and> event_ok e' \<and> ev_sources e' = ev_sources e
    \<and> (\<forall>a. armed e t a \<longrightarrow> u \<le> time_event_source_latest (ev_sources e a))
    \<and> (\<exists>a. armed e t a \<and> es_next (ev_sources e a) \<le> u)
    \<and> (r = None \<longrightarrow> d_next (ev_clocks e' t) = u)
    \<and> calls = (if d_next (ev_clocks e t) = u then [] else [wakeup_value u])
    \<and> r = (if d_next (ev_clocks e t) = u then None else timerfd_settime (wakeup_value u))"
proof -
  obtain a b where ab: "prioq_peek (d_earliest (ev_clocks e t)) = Some a" "prioq_peek (d_latest (ev_clocks e t)) = Some b"
    "armed e t a" "b \<in> clock_timers e t" "es_enabled (ev_sources e b) \<noteq> SD_EVENT_OFF"
    "\<And>r. armed e t r \<Longrightarrow> es_next (ev_sources e a) \<le> es_next (ev_sources e r)"
    "\<And>r. armed e t r \<Longrightarrow> time_event_source_latest (ev_sources e b) \<le> time_event_source_latest (ev_sources e r)"
    "es_next (ev_sources e a) \<le> time_event_source_latest (ev_sources e b)"
    by (rule first_window [OF assms(1,2,4)]) blast
  let ?d = "(ev_clocks e t)\<lparr>d_needs_rearm := False\<rparr>" let ?e = "put_clock t ?d e"
  have fd: "\<not> d_fd (ev_clocks e t) < 0" using assms(1,2) ab(4) by (auto simp: event_ok_def clock_ok_def clock_timers_def)
  obtain p u where pu: "sleep_between boot_id ?e (es_next (ev_sources e a)) (time_event_source_latest (ev_sources e b)) = Inr (?e\<lparr>ev_perturb := p\<rparr>, u)"
      "es_next (ev_sources e a) \<le> u" "u \<le> time_event_source_latest (ev_sources e b)"
    using sleep_between_window [OF ab(8), of ?e boot_id] assms(5) by auto
  have low: "\<forall>a. armed e t a \<longrightarrow> u \<le> time_event_source_latest (ev_sources e a)" using pu(3) ab(7) by (meson order_trans)
  have high: "\<exists>a. armed e t a \<and> es_next (ev_sources e a) \<le> u" using ab(3) pu(2) by blast
  have a: "es_enabled (ev_sources e a) \<noteq> SD_EVENT_OFF" "es_next (ev_sources e a) \<noteq> USEC_INFINITY" using ab(3) by (simp_all add: armed_def)
  note run = event_arm_timer_def [of boot_id timerfd_settime e t]
  let ?e1 = "?e\<lparr>ev_perturb := p\<rparr>" let ?e2 = "put_clock t (?d\<lparr>d_next := u\<rparr>) ?e1"
  have ok: "event_ok ?e1" "event_ok ?e2" by (rule event_ok_clock [OF assms(1)]; simp)+
  consider "d_next (ev_clocks e t) = u" | r where "d_next (ev_clocks e t) \<noteq> u" "timerfd_settime (wakeup_value u) = Some r"
    | "d_next (ev_clocks e t) \<noteq> u" "timerfd_settime (wakeup_value u) = None" by blast
  then show ?thesis
  proof cases
    case 1
    then have "event_arm_timer boot_id timerfd_settime e t = Inr (?e1, None, [])"
      using assms(3) ab(1,2,5) pu(1) a by (simp add: run Let_def)
    then show ?thesis using ok(1) low high 1 by (intro exI [of _ ?e1] exI [of _ None] exI [of _ "[]"] exI [of _ u]) simp
  next
    case 2
    then have "event_arm_timer boot_id timerfd_settime e t = Inr (?e1, Some r, [wakeup_value u])"
      using assms(3) ab(1,2,5) pu(1) a fd by (simp add: run Let_def wakeup_value_def)
    then show ?thesis using ok(1) low high 2 by (intro exI [of _ ?e1] exI [of _ "Some r"] exI [of _ "[wakeup_value u]"] exI [of _ u]) simp
  next
    case 3
    then have "event_arm_timer boot_id timerfd_settime e t = Inr (?e2, None, [wakeup_value u])"
      using assms(3) ab(1,2,5) pu(1) a fd by (simp add: run Let_def wakeup_value_def)
    then show ?thesis using ok(2) low high 3 by (intro exI [of _ ?e2] exI [of _ None] exI [of _ "[wakeup_value u]"] exI [of _ u]) simp
  qed
qed

section \<open>Setting the accuracy of a timer\<close>

lemma earliest_accuracy:
  "earliest_queue t (st(s := (st s)\<lparr>es_accuracy := a\<rparr>)) q \<longleftrightarrow> earliest_queue t st q"
proof -
  let ?st = "st(s := (st s)\<lparr>es_accuracy := a\<rparr>)"
  have "earliest_time_prioq_compare ?st = earliest_time_prioq_compare st"
    by (intro ext) (auto simp: earliest_time_prioq_compare_def Let_def)
  moreover have "(\<lambda>r. EVENT_SOURCE_IS_TIME t \<and> es_type (?st r) = t) = (\<lambda>r. EVENT_SOURCE_IS_TIME t \<and> es_type (st r) = t)"
    by auto
  ultimately show ?thesis unfolding queue_def by simp
qed

lemma reshuffle_latest_event_ok:
  fixes a :: u64
  assumes "event_ok e" "EVENT_SOURCE_IS_TIME t" "s \<in> clock_timers e t" "\<not> es_pending (ev_sources e s)"
  defines "x \<equiv> (ev_sources e s)\<lparr>es_accuracy := a\<rparr>"
  shows "\<exists>e'. reshuffle_latest (put_source s x e) t s = Inr e' \<and> event_ok e' \<and> clock_timers e' = clock_timers e
    \<and> ev_sources e' = (ev_sources e)(s := x)"
proof -
  let ?e = "put_source s x e" and ?d = "ev_clocks e t"
  have ty: "es_type x = t" using timer_type [OF assms(1-3)] by (simp add: x_def)
  obtain q where q: "ev_pending e = Some q" "pending_queue (ev_sources e) (Some q)" using assms(1) by (auto simp: event_ok_def)
  have c: "earliest_queue t (ev_sources e) (d_earliest ?d)" "latest_queue t (ev_sources e) (d_latest ?d)"
    "members (d_latest ?d) = members (d_earliest ?d)" "members (d_earliest ?d) \<noteq> {} \<longrightarrow> 0 \<le> d_fd ?d"
    using assms(1,2) by (auto simp: event_ok_def clock_ok_def)
  obtain ql where ql: "reshuffle_latest ?e t s = Inr (put_clock t (?d\<lparr>d_latest := Some ql, d_needs_rearm := True\<rparr>) ?e)"
      "latest_queue t (ev_sources ?e) (Some ql)" "members (Some ql) = members (d_latest ?d)"
    using reshuffle_latest_ok [OF assms(2), of "ev_sources e" ?e s] c(2,3) assms(3) ty by (auto simp: clock_timers_def)
  have "earliest_queue t (ev_sources ?e) (d_earliest ?d)" using c(1) by (simp add: x_def earliest_accuracy)
  then have ck: "clock_ok (ev_sources ?e) t (?d\<lparr>d_latest := Some ql, d_needs_rearm := True\<rparr>)"
    using c ql by (simp add: clock_ok_def)
  have s: "s \<notin> members (Some q)" using not_pending [OF assms(1,4)] q(1) by simp
  have "pending_queue (ev_sources ?e) (Some q)" by (rule pendings.same_queue [OF q(2)]) (use s in auto)
  then show ?thesis
    using event_ok_step [OF assms(1-3) ty, where e' = "put_clock t (?d\<lparr>d_latest := Some ql, d_needs_rearm := True\<rparr>) ?e"
        and d = "?d\<lparr>d_latest := Some ql, d_needs_rearm := True\<rparr>" and q = q] ck ql(1) q s assms(4)
    by (simp add: x_def clock_timers_def)
qed

lemma sd_event_source_set_time_accuracy_ok:
  assumes "event_ok e" "EVENT_SOURCE_IS_TIME t" "s \<in> clock_timers e t" "ev_state e \<noteq> SD_EVENT_FINISHED" "\<not> ev_pid_changed e"
    and "usec \<noteq> USEC_INFINITY"
  shows "\<exists>e'. sd_event_source_set_time_accuracy alloc e s usec = Inr (e', None) \<and> event_ok e' \<and> clock_timers e' = clock_timers e
    \<and> ev_sources e' = (ev_sources e)(s := (ev_sources e s)\<lparr>es_accuracy := (if usec = 0 then DEFAULT_ACCURACY_USEC else usec), es_pending := False\<rparr>)"
proof -
  define a where "a = (if usec = 0 then DEFAULT_ACCURACY_USEC else usec)"
  let ?x = "(ev_sources e s)\<lparr>es_accuracy := a\<rparr>"
  have ty: "es_type (ev_sources e s) = t" by (rule timer_type [OF assms(1-3)])
  have run: "sd_event_source_set_time_accuracy alloc e s usec = rbind (source_set_pending alloc (put_source s ?x e) s False)
      (\<lambda>(e, _). rbind (reshuffle_latest e t s) (\<lambda>e. Inr (e, None)))"
    using assms(2,4-6) ty by (simp add: sd_event_source_set_time_accuracy_def Let_def a_def)
  show ?thesis
  proof (cases "es_pending (ev_sources e s)")
    case False
    then have "source_set_pending alloc (put_source s ?x e) s False = Inr (put_source s ?x e, None)"
      using time_types [OF assms(2)] ty by (simp add: source_set_pending_def)
    moreover have "?x\<lparr>es_pending := False\<rparr> = ?x" using False by (cases "ev_sources e s") simp
    ultimately show ?thesis using run reshuffle_latest_event_ok [OF assms(1-3) False, of a] by (auto simp: a_def)
  next
    case True
    define y where "y = ?x\<lparr>es_pending := False\<rparr>"
    obtain e1 where e1: "source_set_pending alloc (put_source s ?x e) s False = Inr (e1, None)" "event_ok e1"
        "clock_timers e1 = clock_timers e" "ev_sources e1 = (ev_sources e)(s := y)"
      using changed_timer_ok [OF assms(1-3), of ?x alloc] ty True by (auto simp: y_def)
    have y: "y\<lparr>es_accuracy := a\<rparr> = y" by (cases "ev_sources e s") (simp add: y_def)
    have same: "e1\<lparr>ev_sources := (ev_sources e)(s := y)\<rparr> = e1" using e1(4) by (cases e1) simp
    have "\<not> es_pending (ev_sources e1 s)" using e1(4) by (simp add: y_def)
    then obtain e' where "reshuffle_latest e1 t s = Inr e'" "event_ok e'" "clock_timers e' = clock_timers e" "ev_sources e' = (ev_sources e)(s := y)"
      using reshuffle_latest_event_ok [OF e1(2) assms(2), of s a] e1(3,4) assms(3) y same by auto
    then show ?thesis using run e1(1) by (simp add: y_def a_def)
  qed
qed

section \<open>Two timers\<close>

definition two_sources :: "nat \<Rightarrow> event_source" where
  "two_sources s = \<lparr>es_type = SOURCE_TIME_MONOTONIC, es_enabled = SD_EVENT_ONESHOT, es_pending = False, es_prepare = False,
     es_priority = 0, es_pending_iteration = 0, es_prepare_iteration = 0,
     es_next = (if s = 1 then 5000000 else 9000000), es_accuracy = 250000\<rparr>"

definition two_queue :: "nat Prioq" where
  "two_queue = \<lparr>pq_n_items = 2, pq_n_allocated = 16,
     pq_items = [\<lparr>it_data = 1, it_idx = Some 1\<rparr>, \<lparr>it_data = 2, it_idx = Some 2\<rparr>], pq_cells = (\<lambda>p. if p = 1 then 0 else 1)\<rparr>"

definition two_timers :: sd_event where
  "two_timers = \<lparr>ev_sources = two_sources,
     ev_pending = Some \<lparr>pq_n_items = 0, pq_n_allocated = 0, pq_items = [], pq_cells = (\<lambda>_. 0)\<rparr>, ev_prepare = None,
     ev_clocks = (\<lambda>t. if t = SOURCE_TIME_MONOTONIC
       then \<lparr>d_fd = 4, d_earliest = Some two_queue, d_latest = Some two_queue, d_next = USEC_INFINITY, d_needs_rearm = True\<rparr>
       else \<lparr>d_fd = -1, d_earliest = None, d_latest = None, d_next = USEC_INFINITY, d_needs_rearm = False\<rparr>),
     ev_perturb = USEC_INFINITY, ev_signal_current = (\<lambda>_. None), ev_iteration = 7, ev_state = SD_EVENT_RUNNING, ev_pid_changed = False\<rparr>"

lemma two_queue_members: "members (Some two_queue) = {1, 2}"
  by (simp add: members_def contents_def live_def two_queue_def)

lemma two_queue_ok:
  assumes "\<And>i. P i" "le compare 1 2"
  shows "queue_ok compare P (Some two_queue)"
  using assms by (auto simp: queue_ok_def prioq_ok_def shape_def indexed_def all_items_def heap_def owned_def live_def two_queue_def
    less_2_cases_iff)

lemma two_timers_ok: "event_ok two_timers" "clock_timers two_timers SOURCE_TIME_MONOTONIC = {1, 2}"
proof -
  have c: "clock_ok two_sources SOURCE_TIME_MONOTONIC (ev_clocks two_timers SOURCE_TIME_MONOTONIC)"
    unfolding clock_ok_def queue_def
    by (intro conjI; (simp add: two_timers_def)?; (rule two_queue_ok)?)
      (simp_all add: le_def earliest_time_prioq_compare_def latest_time_prioq_compare_def two_sources_def EVENT_SOURCE_IS_TIME_def
        time_event_source_latest_def usec_add_def Let_def)
  have "clock_ok two_sources t (ev_clocks two_timers t)" for t
    using c by (cases "t = SOURCE_TIME_MONOTONIC") (simp_all add: two_timers_def clock_ok_def queue_def queue_ok_def members_def)
  then show "event_ok two_timers"
    by (simp add: event_ok_def two_timers_def queue_def queue_ok_def prioq_ok_def shape_def indexed_def all_items_def heap_def owned_def
      live_def) (simp add: two_sources_def)
  show "clock_timers two_timers SOURCE_TIME_MONOTONIC = {1, 2}" by (simp add: clock_timers_def two_timers_def two_queue_members)
qed

theorem process_timer_marks_due_witness:
  "\<exists>e'. process_timer (\<lambda>_. True) 6000000 SOURCE_TIME_MONOTONIC two_timers = Some (Inr (e', None))
    \<and> es_pending (ev_sources e' 1) \<and> \<not> es_pending (ev_sources e' 2)"
proof -
  have "card (idle_timers two_timers SOURCE_TIME_MONOTONIC) \<le> card {1 :: nat, 2}"
    by (rule card_mono) (auto simp: idle_timers_def two_timers_ok)
  then have "room two_timers SOURCE_TIME_MONOTONIC" by (simp add: room_def prioq_size_def two_timers_def)
  moreover have "EVENT_SOURCE_IS_TIME SOURCE_TIME_MONOTONIC" by (simp add: EVENT_SOURCE_IS_TIME_def)
  ultimately obtain e' r where e': "process_timer (\<lambda>_. True) 6000000 SOURCE_TIME_MONOTONIC two_timers = Some (Inr (e', r))"
      "if r = None then \<forall>s. es_pending (ev_sources e' s) \<longleftrightarrow> es_pending (ev_sources two_timers s) \<or> due two_timers 6000000 SOURCE_TIME_MONOTONIC s
       else r = Some ENOMEM \<and> (\<exists>n :: nat. \<not> True)"
    using process_timer_marks_due [OF two_timers_ok(1), of SOURCE_TIME_MONOTONIC "\<lambda>_. True" 6000000] by blast
  have r: "r = None" using e'(2) by (cases r) simp_all
  have d: "due two_timers 6000000 SOURCE_TIME_MONOTONIC 1" "\<not> due two_timers 6000000 SOURCE_TIME_MONOTONIC 2"
    "\<not> es_pending (ev_sources two_timers 2)"
    using two_timers_ok(2) by (simp_all add: due_def) (simp_all add: two_timers_def two_sources_def)
  show ?thesis using e' d unfolding r by simp
qed

theorem event_arm_timer_in_window_witness:
  "\<exists>e' u. event_arm_timer (Some (3, 5)) (\<lambda>_. None) two_timers SOURCE_TIME_MONOTONIC = Inr (e', None, [wakeup_value u])
    \<and> d_next (ev_clocks e' SOURCE_TIME_MONOTONIC) = u \<and> 5000000 \<le> u \<and> u \<le> 5250000"
proof -
  have a: "armed two_timers SOURCE_TIME_MONOTONIC 1" "armed two_timers SOURCE_TIME_MONOTONIC r \<Longrightarrow> r = 1 \<or> r = 2"
    "d_needs_rearm (ev_clocks two_timers SOURCE_TIME_MONOTONIC)" "ev_perturb two_timers = USEC_INFINITY"
    "d_next (ev_clocks two_timers SOURCE_TIME_MONOTONIC) = USEC_INFINITY" for r
    by (auto simp: armed_def two_timers_ok(2)) (simp_all add: two_timers_def two_sources_def)
  have s: "time_event_source_latest (ev_sources two_timers 1) = 5250000" "5000000 \<le> es_next (ev_sources two_timers r)" for r
    by (simp_all add: two_timers_def two_sources_def time_event_source_latest_def usec_add_def)
  have p: "ev_perturb two_timers < USEC_PER_MINUTE \<or> ev_perturb two_timers = USEC_INFINITY \<and> Some (3, 5) \<noteq> None" using a(4) by simp
  have t: "EVENT_SOURCE_IS_TIME SOURCE_TIME_MONOTONIC" by (simp add: EVENT_SOURCE_IS_TIME_def)
  from event_arm_timer_in_window [OF two_timers_ok(1) t a(3,1) p, of "\<lambda>_. None"] obtain e' r calls u where
    run: "event_arm_timer (Some (3, 5)) (\<lambda>_. None) two_timers SOURCE_TIME_MONOTONIC = Inr (e', r, calls)"
    and u: "\<forall>a. armed two_timers SOURCE_TIME_MONOTONIC a \<longrightarrow> u \<le> time_event_source_latest (ev_sources two_timers a)"
      "\<exists>a. armed two_timers SOURCE_TIME_MONOTONIC a \<and> es_next (ev_sources two_timers a) \<le> u"
      "r = None \<longrightarrow> d_next (ev_clocks e' SOURCE_TIME_MONOTONIC) = u"
      "calls = (if d_next (ev_clocks two_timers SOURCE_TIME_MONOTONIC) = u then [] else [wakeup_value u])"
      "r = (if d_next (ev_clocks two_timers SOURCE_TIME_MONOTONIC) = u then None else None)" by blast
  have w: "u \<le> 5250000" "5000000 \<le> u" using u(1,2) a(1) s by (metis, meson order_trans)
  then have "USEC_INFINITY \<noteq> u" using infinity_le [of 5250000] by auto
  then have "calls = [wakeup_value u]" "r = None" using u(4,5) a(5) by simp_all
  then show ?thesis using run u(3) w by blast
qed

end
