(* ===== verification/Spec2Isabelle.thy ===== *)
theory Spec2Isabelle
  imports Prelude String_Util Linked_List In_Addr Dns_Domain Dns_Labels Dhcp_Option Dhcp_Packet
    Dhcp_Lease Dhcp_Lease_Facts Siphash Dhcp_Identifier Dhcp_Network Dhcp_Client Dhcp_Client_Timers
    Dhcp_Client_Messages Dhcp_Client_Wp Dhcp_Client_Invariant Dhcp_Client_Receive
    Dhcp_Client_Machine Dhcp_Client_Run Dhcp_Client_Retry Prioq Prioq_Facts Event_Timers Event_Timers_Facts
begin

text \<open>
  Verification of the roaming daemon of X-Fi (\<open>client_tools/carfi/roamingd/src\<close>).

  \<^bold>\<open>The program.\<close>  The daemon moves a car from one access point to the next.  On every link it runs the
  DHCPv4 client of \<open>dhcp/\<close> to get an address; the client builds and parses messages with the option
  and packet code, keeps what a server grants in a lease, checks domain names in it with the DNS code,
  derives its identifier from a SipHash of the machine id, and runs on the timers of the event loop of
  \<open>basic/sd-event.c\<close>, which live in the priority queues of \<open>basic/prioq.c\<close>.

  \<^bold>\<open>Conventions\<close> (\<open>Prelude\<close>).  C integers are words of their width and wrap around.  A function that can
  fail returns \<open>'a res\<close>: an errno, a failed assertion (\<open>Abort\<close>), an access outside an object
  (\<open>OutOfBounds\<close>), an access to freed memory (\<open>UseAfterFree\<close>), a loop that never ends (\<open>Diverges\<close>), or the
  value.  Allocation is a predicate on sizes, so \<open>-ENOMEM\<close> is a branch.  Structs are records, loops are
  recursive functions; a loop that may not end is a partial function into \<open>option\<close>.

  \<^bold>\<open>Theories, sources and results.\<close>

  \<^item> \<open>String_Util\<close>, \<open>In_Addr\<close>, \<open>Linked_List\<close>: the helpers of \<open>basic/\<close> that the other parts call, among
    them number parsing, prefix arithmetic, and the list macros of \<open>list.h\<close> over an explicit heap.
  \<^item> \<open>Dns_Domain\<close> (\<open>basic/dns-domain.c\<close>) with \<open>Dns_Labels\<close>: escaping round trip; normalising, comparing
    and encoding a name are operations on its list of labels; reverse names of addresses are read back.
  \<^item> \<open>Dhcp_Option\<close> (\<open>dhcp/dhcp-option.c\<close>): \<open>parse_options\<close> equals the grammar of RFC 2132 for every buffer
    and callback, appending stays in bounds, and what is appended is parsed back.  The locale
    \<open>option_handler\<close> is what a callback has to promise; the lease interprets it.
  \<^item> \<open>Dhcp_Packet\<close> (\<open>dhcp/dhcp-packet.c\<close>): the checksum is that of RFC 1071; headers that are built are
    accepted, and headers that are accepted are sound.
  \<^item> \<open>Dhcp_Lease\<close>, \<open>Dhcp_Lease_Facts\<close> (\<open>dhcp/sd-dhcp-lease.c\<close>): no message makes the parser of a lease
    leave the message or abort; exactly which static routes make it loop for ever; classless routes;
    the list of private options, and which option it loses.
  \<^item> \<open>Siphash\<close>, \<open>Dhcp_Identifier\<close>: the streaming hash is SipHash-2-4, however its input is cut.
  \<^item> \<open>Dhcp_Network\<close> (\<open>dhcp/dhcp-network.c\<close>): the packet filter as a program of the BPF machine; the property
    below relates it to the checks of the UDP path.
  \<^item> \<open>Dhcp_Client\<close> (\<open>dhcp/sd-dhcp-client.c\<close>): the record, every setter, the messages, and every handler of
    a timer or a datagram, in a monad over the client; the outside is the record \<open>dhcp_env\<close>.
  \<^item> \<open>Dhcp_Client_Timers\<close>, \<open>Dhcp_Client_Messages\<close>: when T1, T2 and the expiry fire; what a DISCOVER and a
    REQUEST contain, as a server parses them.
  \<^item> \<open>Dhcp_Client_Wp\<close>, \<open>Dhcp_Client_Invariant\<close>, \<open>Dhcp_Client_Receive\<close>, \<open>Dhcp_Client_Machine\<close>: a
    weakest-precondition calculus, the invariant \<open>client_inv\<close>, and the client as a machine
    (\<open>client_step\<close>, \<open>reachable\<close>): every sequence of events and calls keeps the invariant, and the only
    assertion that can fail is that a request was sent before a lease is timed.
  \<^item> \<open>Dhcp_Client_Run\<close>, \<open>Dhcp_Client_Retry\<close>: the exchange that ends in a bound client, the acknowledgement
    that aborts it, the back-off of retries, the restart after a refusal, and when a lease is handed out.
  \<^item> \<open>Prioq\<close>, \<open>Prioq_Facts\<close> (\<open>basic/prioq.c\<close>): the heap refines a multiset for every order that satisfies
    the locale \<open>comparison\<close>, also when the priority of an entry changes; what a second removal does.
  \<^item> \<open>Event_Timers\<close>, \<open>Event_Timers_Facts\<close> (\<open>basic/sd-event.c\<close>): the orders of the queues of the loop,
    interpreted in the locale \<open>event_order\<close>; wakeups are armed within the window of the timers, and
    processing marks exactly those that are due.

  \<^bold>\<open>Bounds and hypotheses.\<close>  \<open>host\<close> says what the client relies on: the callback acts through the
  interface (\<open>application\<close>), the clock does not go back and is below \<open>2 ^ 52\<close> microseconds (142 years), so
  that the arithmetic of timeouts is exact.  References to a client stay below \<open>0xffff0000\<close>, as the
  counter has 32 bits.  A queue holds fewer than \<open>2 ^ 31\<close> entries, so that the index of a child does not
  wrap around.  \<open>willing\<close>, used only for liveness, is an outside that grants every call.  There is no
  fuel: loops that may not end are partial functions, and that they end is part of the properties.

  \<^bold>\<open>Not modelled.\<close>
  \<^item> Creating, freeing and dispatching event sources, signals, children and \<open>epoll\<close>: system calls around
    callbacks.  The client model takes the loop as its environment, and the timer model takes the
    sources of the queues as given; reference counts and user data of sources are left out.
  \<^item> Releasing a half-filled lease when a message does not parse: the model of the parser returns no user
    data with an errno.
  \<^item> Saving and loading leases, printing of addresses, logging, configuration files: input and output.
  \<^item> The netlink library (but for the order of its timeouts), links, routes and the manager of the
    daemon: they are driven by the kernel and by wpa_supplicant, and are the application of the client.
  \<^item> DHCPv6, neighbour discovery, the DHCP server, hash maps: no modelled part depends on them.
  \<^item> hostap, the scanner and the testers, and the scripts that collect, upload and plot logs.
\<close>

section \<open>The two ways in\<close>

text \<open>
  C27.  The packet filter in the kernel and the checks of the UDP path agree: while the client is not
  bound, the filter program attached to its raw socket lets a packet through exactly when the packet has
  at least the size of a DHCP packet, is an unfragmented UDP datagram for the client port, and carries a
  message that \<open>client_receive_message_udp\<close> would accept.
\<close>

theorem raw_filter_accepts:
  assumes "6 \<le> length (c_mac_addr c)" and "length bs < 2 ^ 32" and "c_state c \<noteq> DHCP_STATE_BOUND"
    and "p = packet_of_bytes bs"
  shows "bpf_run (raw_socket_filter (c_xid c) (c_mac_addr c) (c_arp_type c)) bs 0 0 \<noteq> 0 \<longleftrightarrow>
    sizeof_DHCPPacket \<le> length bs \<and> ip_protocol (pkt_ip p) = IPPROTO_UDP
    \<and> ip_frag_off (pkt_ip p) AND 0x3fff = 0 \<and> udp_dest (pkt_udp p) = DHCP_PORT_CLIENT
    \<and> accepts_message c (pkt_dhcp p)"
proof -
  have e: "length (take 6 (c_mac_addr c)) = 6" using assms(1) by simp
  have z: "length (replicate 6 (0 :: u8)) = 6" by simp
  show ?thesis
  proof (cases "c_arp_type c = 1")
    case True
    then show ?thesis
      using assms(3,4)
      by (simp add: raw_socket_filter_def filter_eq [OF e assms(2)] reply_for_def accepts_message_def conj_commute) blast
  next
    case False
    then show ?thesis
      using assms(3,4)
      by (simp add: raw_socket_filter_def filter_eq [OF z assms(2)] reply_for_def accepts_message_def
          del: length_replicate replicate.simps) blast
  qed
qed

definition sample_offer :: "u8 list" where
  "sample_offer = replicate 6 0 @ [0, 0, 0, 17] @ replicate 12 0 @ [0, 68] @ replicate 4 0 @ [2, 1, 6, 0, 0, 0, 0, 42]
     @ replicate 20 0 @ [2, 0, 0, 0, 0, 1] @ replicate 202 0 @ [0x63, 0x82, 0x53, 0x63]"

theorem raw_filter_accepts_witness:
  "bpf_run (raw_socket_filter 42 [2, 0, 0, 0, 0, 1] 1) sample_offer 0 0 \<noteq> 0"
proof -
  let ?c = "ethernet_client DHCP_STATE_SELECTING" and ?p = "packet_of_bytes sample_offer"
  have l: "length sample_offer = 268" by (simp add: sample_offer_def)
  have "accepts_message ?c (pkt_dhcp ?p)"
    by (simp add: accepts_message_def packet_of_bytes_def message_of_bytes_def sample_offer_def nth_append
        ethernet_client_def unaligned_read_be32_def unaligned_read_be16_def)
  moreover have "ip_protocol (pkt_ip ?p) = IPPROTO_UDP" "ip_frag_off (pkt_ip ?p) AND 0x3fff = 0"
    "udp_dest (pkt_udp ?p) = DHCP_PORT_CLIENT"
    by (simp_all add: packet_of_bytes_def sample_offer_def nth_append unaligned_read_be16_def)
  ultimately have "bpf_run (raw_socket_filter (c_xid ?c) (c_mac_addr ?c) (c_arp_type ?c)) sample_offer 0 0 \<noteq> 0"
    using raw_filter_accepts [of ?c sample_offer ?p] l by simp
  then show ?thesis by (simp add: ethernet_client_def raw_socket_filter_def)
qed

end
